(* ===== verification/Prelude.thy ===== *)
theory Prelude
  imports Complex_Main "HOL-Library.AList" "HOL-Library.Sublist"
begin

text \<open>
  The shared vocabulary of the development: Go's 64-bit integers and durations, the
  instants and the injected clock, the string functions of the standard library that the
  sources use, \<^verbatim>\<open>http.Header\<close>, the value-and-error pair a Go function returns, state
  passing over an arbitrary world, and reachability of a step relation. Every component
  theory imports it; its lemmas are declared to the simplifier or collected in
  \<open>go_simps\<close>, \<open>go_defs\<close> and \<open>world_defs\<close>.
\<close>

named_theorems go_simps "facts on the Go primitives used as rewrite rules"
named_theorems go_defs "definitions of the Go primitives"
named_theorems world_defs "definitions that thread a world through a call"

section \<open>Integers, durations and instants\<close>

text \<open>
  A \<^verbatim>\<open>time.Duration\<close> is an \<^verbatim>\<open>int64\<close> count of nanoseconds whose arithmetic wraps; it is an
  \<^typ>\<open>int\<close> here, and every sum or product the code forms is passed through \<open>wrap64\<close>.
  A \<^verbatim>\<open>time.Time\<close> is a point of the (much wider) time line: an \<^typ>\<open>int\<close> count of
  nanoseconds with \<open>time_add\<close> exact and \<open>time_sub\<close> saturating, as the standard library
  documents.
\<close>

definition min_int64 :: int where
  "min_int64 = - (2 ^ 63)"

definition max_int64 :: int where
  "max_int64 = 2 ^ 63 - 1"

definition wrap64 :: "int \<Rightarrow> int" where
  "wrap64 x = (x + 2 ^ 63) mod 2 ^ 64 - 2 ^ 63"

definition in_int64 :: "int \<Rightarrow> bool" where
  "in_int64 x \<longleftrightarrow> min_int64 \<le> x \<and> x \<le> max_int64"

lemmas int64_defs [go_defs] = min_int64_def max_int64_def wrap64_def in_int64_def

lemma wrap64_id [simp]: "in_int64 x \<Longrightarrow> wrap64 x = x"
  by (simp add: int64_defs)

lemma wrap64_in [simp, intro]: "in_int64 (wrap64 x)"
  by (simp add: int64_defs)

lemma in_int64_mono: "in_int64 b \<Longrightarrow> 0 \<le> a \<Longrightarrow> a \<le> b \<Longrightarrow> in_int64 a"
  by (simp add: int64_defs)

abbreviation millisecond :: int where
  "millisecond \<equiv> 1000000"

abbreviation second :: int where
  "second \<equiv> 1000000000"

definition time_add :: "int \<Rightarrow> int \<Rightarrow> int" where
  "time_add t d = t + d"

definition time_sub :: "int \<Rightarrow> int \<Rightarrow> int" where
  "time_sub t u = max min_int64 (min max_int64 (t - u))"

definition time_after :: "int \<Rightarrow> int \<Rightarrow> bool" where
  "time_after t u \<longleftrightarrow> u < t"

lemmas time_defs [go_defs] = time_add_def time_after_def

lemma time_sub_in [simp, intro]: "in_int64 (time_sub t u)"
  by (auto simp: time_sub_def in_int64_def min_int64_def max_int64_def)

lemma time_sub_exact [simp]: "in_int64 (t - u) \<Longrightarrow> time_sub t u = t - u"
  by (simp add: time_sub_def in_int64_def)

lemma time_sub_ge_iff: "0 < d \<Longrightarrow> d \<le> max_int64 \<Longrightarrow> d \<le> time_sub t u \<longleftrightarrow> u + d \<le> t"
  by (auto simp: time_sub_def min_int64_def max_int64_def)

section \<open>Worlds, clocks and results\<close>

text \<open>
  What a call may read or change outside the modelled state (the network, other
  goroutines, the injected clock, the random source) is a world of an arbitrary type, and
  an effectful function takes the world and returns it updated. A Go function that returns
  a value and an error returns a pair of options, either of which may be nil.
\<close>

type_synonym ('w, 'a) io = "'w \<Rightarrow> 'a \<times> 'w"

type_synonym 'w clock = "('w, int) io"

type_synonym ('e, 'a) go_result = "'a option \<times> 'e option"

section \<open>Strings\<close>

fun last_index :: "char \<Rightarrow> string \<Rightarrow> nat option" where
  "last_index c [] = None"
| "last_index c (x # xs) =
     (case last_index c xs of
        Some i \<Rightarrow> Some (Suc i)
      | None \<Rightarrow> if x = c then Some 0 else None)"

text \<open>\<^verbatim>\<open>strings.LastIndex\<close> with a one-byte pattern: -1 when it does not occur.\<close>

definition LastIndex :: "string \<Rightarrow> char \<Rightarrow> int" where
  "LastIndex s c = (case last_index c s of None \<Rightarrow> -1 | Some i \<Rightarrow> int i)"

lemma last_index_None_iff: "last_index c s = None \<longleftrightarrow> c \<notin> set s"
  by (induction s) (auto split: option.splits)

lemma last_index_SomeD:
  "last_index c s = Some i \<Longrightarrow> i < length s \<and> s ! i = c \<and> c \<notin> set (drop (Suc i) s)"
  by (induction s arbitrary: i)
    (auto simp: last_index_None_iff split: option.splits if_splits)

lemma last_index_append:
  "c \<notin> set m \<Longrightarrow> last_index c (p @ c # m) = Some (length p)"
  by (induction p) (auto simp: last_index_None_iff [THEN iffD2])

lemma LastIndex_append: "c \<notin> set m \<Longrightarrow> LastIndex (p @ c # m) c = int (length p)"
  by (simp add: LastIndex_def last_index_append)

lemma LastIndex_absent: "c \<notin> set s \<Longrightarrow> LastIndex s c = -1"
  by (simp add: LastIndex_def last_index_None_iff [THEN iffD2])

lemmas LastIndex_simps [go_simps] = LastIndex_append LastIndex_absent

definition TrimPrefix :: "string \<Rightarrow> string \<Rightarrow> string" where
  "TrimPrefix s p = (if prefix p s then drop (length p) s else s)"

fun join_strings :: "string list \<Rightarrow> string \<Rightarrow> string" where
  "join_strings [] sep = []"
| "join_strings [s] sep = s"
| "join_strings (s # t # ss) sep = s @ sep @ join_strings (t # ss) sep"

definition lower_char :: "char \<Rightarrow> char" where
  "lower_char c = (if of_char c \<in> {65..90 :: nat} then char_of (of_char c + (32 :: nat)) else c)"

definition upper_char :: "char \<Rightarrow> char" where
  "upper_char c = (if of_char c \<in> {97..122 :: nat} then char_of (of_char c - (32 :: nat)) else c)"

text \<open>\<^verbatim>\<open>strings.ToLower\<close> on ASCII input, the only kind of header name the sources pass.\<close>

definition ToLower :: "string \<Rightarrow> string" where
  "ToLower s = map lower_char s"

lemma lower_char_idem [simp]: "lower_char (lower_char c) = lower_char c"
  by (auto simp: lower_char_def)

lemma ToLower_idem [simp]: "ToLower (ToLower s) = ToLower s"
  by (simp add: ToLower_def)

text \<open>\<^verbatim>\<open>hex.EncodeToString\<close>: two lower-case digits per byte.\<close>

definition hex_digit :: "nat \<Rightarrow> char" where
  "hex_digit n = char_of (if n < 10 then 48 + n else 87 + n)"

definition hex_encode :: "string \<Rightarrow> string" where
  "hex_encode bs = concat (map (\<lambda>b. [hex_digit (of_char b div 16), hex_digit (of_char b mod 16)]) bs)"

lemma hex_digit_inj:
  assumes "a < 16" and "b < 16" and "hex_digit a = hex_digit b"
  shows "a = b"
proof -
  have "(of_char (hex_digit a) :: nat) = of_char (hex_digit b)" using assms(3) by simp
  then show ?thesis using assms(1,2) by (simp add: hex_digit_def split: if_splits)
qed

lemma hex_encode_inj: "hex_encode a = hex_encode b \<Longrightarrow> a = b"
proof (induction a arbitrary: b)
  case Nil
  then show ?case by (cases b) (auto simp: hex_encode_def)
next
  case (Cons x a)
  then obtain y b' where b: "b = y # b'" by (cases b) (auto simp: hex_encode_def)
  have lt: "of_char x div 16 < (16 :: nat)" "of_char y div 16 < (16 :: nat)"
    using nat_of_char_less_256 [of x] nat_of_char_less_256 [of y] by (simp_all add: less_mult_imp_div_less)
  have d: "hex_digit (of_char x div 16) = hex_digit (of_char y div 16)"
      "hex_digit (of_char x mod 16) = hex_digit (of_char y mod 16)" "hex_encode a = hex_encode b'"
    using Cons.prems b by (auto simp: hex_encode_def)
  then have "of_char x div 16 = (of_char y div 16 :: nat)" "of_char x mod 16 = (of_char y mod 16 :: nat)"
    using hex_digit_inj lt by auto
  then have "of_char x = (of_char y :: nat)" by (metis div_mult_mod_eq)
  then show ?case using Cons.IH [OF d(3)] b by simp
qed

text \<open>Decimal text: \<^verbatim>\<open>strconv.Itoa\<close> and the verb \<^verbatim>\<open>%d\<close>.\<close>

fun nat_text :: "nat \<Rightarrow> string" where
  "nat_text n = (if n < 10 then [char_of (48 + n)] else nat_text (n div 10) @ [char_of (48 + n mod 10)])"

declare nat_text.simps [simp del]

definition int_text :: "int \<Rightarrow> string" where
  "int_text i = (if i < 0 then CHR ''-'' # nat_text (nat (- i)) else nat_text (nat i))"

lemma digit_code: "d < 10 \<Longrightarrow> of_char (char_of (48 + d) :: char) = 48 + d" for d :: nat
  by simp

lemma nat_text_digits: "c \<in> set (nat_text n) \<Longrightarrow> (of_char c :: nat) \<in> {48..57}"
  by (induction n rule: nat_text.induct) (subst (asm) (2) nat_text.simps, auto split: if_splits)

lemma nat_text_inj: "nat_text a = nat_text b \<Longrightarrow> a = b"
proof (induction a arbitrary: b rule: nat_text.induct)
  case (1 a)
  have ne: "nat_text k \<noteq> []" for k by (simp add: nat_text.simps [of k])
  have last: "last (nat_text k) = char_of (48 + k mod 10)" for k by (simp add: nat_text.simps [of k])
  have m: "a mod 10 = b mod 10"
    using 1(2) last [of a] last [of b] digit_code [of "a mod 10"] digit_code [of "b mod 10"] by (metis add_left_cancel mod_less_divisor zero_less_numeral)
  have len: "length (nat_text k) = 1 \<longleftrightarrow> k < 10" for k by (simp add: nat_text.simps [of k] ne)
  show ?case
  proof (cases "a < 10")
    case True
    then have "b < 10" using 1(2) len by metis
    then show ?thesis using True m by simp
  next
    case False
    then have "\<not> b < 10" using 1(2) len by metis
    then have "nat_text (a div 10) = nat_text (b div 10)"
      using 1(2) False by (simp add: nat_text.simps [of a] nat_text.simps [of b])
    then have "a div 10 = b div 10" using 1(1) False by blast
    then show ?thesis using m by (metis div_mult_mod_eq)
  qed
qed

lemma int_text_chars: "c \<in> set (int_text i) \<Longrightarrow> c = CHR ''-'' \<or> (of_char c :: nat) \<in> {48..57}"
  using nat_text_digits by (auto simp: int_text_def split: if_splits)

lemma int_text_inj: "0 \<le> a \<Longrightarrow> 0 \<le> b \<Longrightarrow> int_text a = int_text b \<Longrightarrow> a = b"
  using nat_text_inj [of "nat a" "nat b"] by (simp add: int_text_def)

section \<open>HTTP headers\<close>

text \<open>
  \<^verbatim>\<open>http.Header\<close> is a map from canonical names to value lists, here an association list
  with one entry per name (\<open>hdr_wf\<close>). \<open>CanonicalHeaderKey\<close> is
  \<^verbatim>\<open>textproto.CanonicalMIMEHeaderKey\<close>: the letter that starts the name or follows a hyphen
  is upper case and the others lower case, and a name holding a byte that is not a token
  byte is left alone.
\<close>

type_synonym header = "(string \<times> string list) list"

definition token_char :: "char \<Rightarrow> bool" where
  "token_char c \<longleftrightarrow>
     (of_char c :: nat) \<in> {48..57} \<union> {65..90} \<union> {97..122} \<or> c \<in> set ''!#$%&*+-.^_|~`'' \<or>
     of_char c = (39 :: nat)"

fun canon_chars :: "bool \<Rightarrow> string \<Rightarrow> string" where
  "canon_chars up [] = []"
| "canon_chars up (c # cs) =
     (if up then upper_char c else lower_char c) # canon_chars (c = CHR ''-'') cs"

definition CanonicalHeaderKey :: "string \<Rightarrow> string" where
  "CanonicalHeaderKey k = (if list_all token_char k then canon_chars True k else k)"

lemma length_canon_chars [simp]: "length (canon_chars up k) = length k"
  by (induction k arbitrary: up) auto

lemma length_CanonicalHeaderKey [simp]: "length (CanonicalHeaderKey k) = length k"
  by (simp add: CanonicalHeaderKey_def)

lemma CanonicalHeaderKey_length_neq: "length k \<noteq> length k' \<Longrightarrow> CanonicalHeaderKey k \<noteq> CanonicalHeaderKey k'"
  by (metis length_CanonicalHeaderKey)

definition hdr_get :: "header \<Rightarrow> string \<Rightarrow> string" where
  "hdr_get h k =
     (case map_of h (CanonicalHeaderKey k) of Some (v # _) \<Rightarrow> v | _ \<Rightarrow> [])"

definition hdr_set :: "header \<Rightarrow> string \<Rightarrow> string \<Rightarrow> header" where
  "hdr_set h k v = AList.update (CanonicalHeaderKey k) [v] h"

definition hdr_wf :: "header \<Rightarrow> bool" where
  "hdr_wf h \<longleftrightarrow> distinct (map fst h)"

lemma hdr_get_set [simp]: "hdr_get (hdr_set h k v) k = v"
  by (simp add: hdr_get_def hdr_set_def update_conv)

lemma hdr_get_set_other [simp]:
  "CanonicalHeaderKey k' \<noteq> CanonicalHeaderKey k \<Longrightarrow> hdr_get (hdr_set h k v) k' = hdr_get h k'"
  by (simp add: hdr_get_def hdr_set_def update_conv)

lemma hdr_wf_Nil [simp]: "hdr_wf []"
  by (simp add: hdr_wf_def)

lemma hdr_wf_set [simp, intro]: "hdr_wf h \<Longrightarrow> hdr_wf (hdr_set h k v)"
  by (simp add: hdr_wf_def hdr_set_def distinct_update)

section \<open>Reachable states\<close>

text \<open>
  The states a step relation can reach, and the contract an inductive invariant has to
  meet. The components with several goroutines (breaker, hedge, pagination) interpret
  \<open>inductive_invariant\<close> with their own relations.
\<close>

inductive reachable :: "('s \<Rightarrow> bool) \<Rightarrow> ('s \<Rightarrow> 's \<Rightarrow> bool) \<Rightarrow> 's \<Rightarrow> bool"
  for init :: "'s \<Rightarrow> bool" and step :: "'s \<Rightarrow> 's \<Rightarrow> bool" where
  reach_init: "init s \<Longrightarrow> reachable init step s"
| reach_step: "reachable init step s \<Longrightarrow> step s t \<Longrightarrow> reachable init step t"

locale inductive_invariant =
  fixes init :: "'s \<Rightarrow> bool" and step :: "'s \<Rightarrow> 's \<Rightarrow> bool" and inv :: "'s \<Rightarrow> bool"
  assumes inv_init: "init s \<Longrightarrow> inv s"
    and inv_step: "inv s \<Longrightarrow> step s t \<Longrightarrow> inv t"
begin

lemma inv_reachable: "reachable init step s \<Longrightarrow> inv s"
  by (induction rule: reachable.induct) (auto intro: inv_init inv_step)

lemma inv_steps: "step\<^sup>*\<^sup>* s t \<Longrightarrow> inv s \<Longrightarrow> inv t"
  by (induction rule: rtranclp_induct) (auto intro: inv_step)

end

lemma reachable_steps: "step\<^sup>*\<^sup>* s t \<Longrightarrow> reachable init step s \<Longrightarrow> reachable init step t"
  by (induction rule: rtranclp_induct) (auto intro: reach_step)

end
