(* ===== verification/Errors.thy ===== *)
theory Errors
  imports Prelude
begin

text \<open>
  Error values and \<^verbatim>\<open>src/errors/errors.go\<close>. A Go error is a chain (or, after
  \<^verbatim>\<open>errors.Join\<close>, a tree) of values; \<open>err\<close> has one constructor per way the sources build
  one, and \<open>errors_is\<close> and \<open>as_connect\<close> are the traversals \<^verbatim>\<open>errors.Is\<close> and
  \<^verbatim>\<open>errors.As\<close> for the targets the sources use. Connect's codes and the google.rpc detail
  messages are the vocabulary of those libraries: a detail is the decoded message, and a
  detail whose \<^verbatim>\<open>Value()\<close> fails is \<open>Undecodable\<close>.
\<close>

section \<open>Connect codes\<close>

datatype code =
    CodeCanceled | CodeUnknown | CodeInvalidArgument | CodeDeadlineExceeded | CodeNotFound
  | CodeAlreadyExists | CodePermissionDenied | CodeResourceExhausted | CodeFailedPrecondition
  | CodeAborted | CodeOutOfRange | CodeUnimplemented | CodeInternal | CodeUnavailable
  | CodeDataLoss | CodeUnauthenticated

text \<open>The numeric values of the protocol order the codes.\<close>

fun code_num :: "code \<Rightarrow> nat" where
  "code_num CodeCanceled = 1" | "code_num CodeUnknown = 2"
| "code_num CodeInvalidArgument = 3" | "code_num CodeDeadlineExceeded = 4"
| "code_num CodeNotFound = 5" | "code_num CodeAlreadyExists = 6"
| "code_num CodePermissionDenied = 7" | "code_num CodeResourceExhausted = 8"
| "code_num CodeFailedPrecondition = 9" | "code_num CodeAborted = 10"
| "code_num CodeOutOfRange = 11" | "code_num CodeUnimplemented = 12"
| "code_num CodeInternal = 13" | "code_num CodeUnavailable = 14"
| "code_num CodeDataLoss = 15" | "code_num CodeUnauthenticated = 16"

lemma code_num_inj: "code_num a = code_num b \<Longrightarrow> a = b"
  by (cases a; cases b; simp)

instantiation code :: linorder
begin

definition less_eq_code :: "code \<Rightarrow> code \<Rightarrow> bool" where
  "less_eq_code a b \<longleftrightarrow> code_num a \<le> code_num b"

definition less_code :: "code \<Rightarrow> code \<Rightarrow> bool" where
  "less_code a b \<longleftrightarrow> code_num a < code_num b"

instance
  by standard (auto simp: less_eq_code_def less_code_def intro: code_num_inj)

end

section \<open>Error values\<close>

type_synonym field_violation = "string \<times> string"

datatype detail =
    RetryInfo int
  | BadRequest "field_violation list"
  | OtherDetail string
  | Undecodable

text \<open>Errors compared by identity: the package-level variables and those of the standard
  library.\<close>

datatype sentinel = CtxCanceled | CtxDeadlineExceeded | IoEOF | Sentinel string

datatype err =
    EText string
  | ESentinel sentinel
  | EWrap string err
  | EConnect code err "detail list"
  | EOAuth "err option" string string string int
  | EJoin err err

fun errors_is :: "err \<Rightarrow> sentinel \<Rightarrow> bool" where
  "errors_is (EText m) s = False"
| "errors_is (ESentinel t) s = (t = s)"
| "errors_is (EWrap m e) s = errors_is e s"
| "errors_is (EConnect c e ds) s = errors_is e s"
| "errors_is (EOAuth None c d u h) s = False"
| "errors_is (EOAuth (Some e) c d u h) s = errors_is e s"
| "errors_is (EJoin e f) s = (errors_is e s \<or> errors_is f s)"

fun as_connect :: "err \<Rightarrow> (code \<times> detail list) option" where
  "as_connect (EText m) = None"
| "as_connect (ESentinel t) = None"
| "as_connect (EWrap m e) = as_connect e"
| "as_connect (EConnect c e ds) = Some (c, ds)"
| "as_connect (EOAuth None c d u h) = None"
| "as_connect (EOAuth (Some e) c d u h) = as_connect e"
| "as_connect (EJoin e f) = (case as_connect e of Some x \<Rightarrow> Some x | None \<Rightarrow> as_connect f)"

section \<open>The inspection helpers\<close>

definition AsConnect :: "err option \<Rightarrow> (code \<times> detail list) option" where
  "AsConnect err = (case err of None \<Rightarrow> None | Some e \<Rightarrow> as_connect e)"

definition Code :: "err option \<Rightarrow> code" where
  "Code err = (case AsConnect err of None \<Rightarrow> CodeUnknown | Some (c, _) \<Rightarrow> c)"

fun retry_delay_loop :: "detail list \<Rightarrow> int \<times> bool" where
  "retry_delay_loop [] = (0, False)"
| "retry_delay_loop (d # ds) =
     (case d of
        Undecodable \<Rightarrow> retry_delay_loop ds
      | RetryInfo delay \<Rightarrow> (delay, True)
      | _ \<Rightarrow> retry_delay_loop ds)"

definition RetryDelay :: "err option \<Rightarrow> int \<times> bool" where
  "RetryDelay err = (case AsConnect err of None \<Rightarrow> (0, False) | Some (_, ds) \<Rightarrow> retry_delay_loop ds)"

fun field_violations_loop :: "field_violation list \<Rightarrow> detail list \<Rightarrow> field_violation list" where
  "field_violations_loop out [] = out"
| "field_violations_loop out (d # ds) =
     (case d of
        BadRequest vs \<Rightarrow> field_violations_loop (out @ vs) ds
      | _ \<Rightarrow> field_violations_loop out ds)"

definition FieldViolations :: "err option \<Rightarrow> field_violation list" where
  "FieldViolations err =
     (case AsConnect err of None \<Rightarrow> [] | Some (_, ds) \<Rightarrow> field_violations_loop [] ds)"

text \<open>\<^verbatim>\<open>Detail[T]\<close>: the type assertion to \<^verbatim>\<open>T\<close> is the partial function \<open>assert_T\<close> on
  decoded messages.\<close>

fun detail_loop :: "(detail \<Rightarrow> 'a option) \<Rightarrow> detail list \<Rightarrow> 'a option" where
  "detail_loop assert_T [] = None"
| "detail_loop assert_T (d # ds) =
     (if d = Undecodable then detail_loop assert_T ds
      else case assert_T d of Some v \<Rightarrow> Some v | None \<Rightarrow> detail_loop assert_T ds)"

definition Detail :: "(detail \<Rightarrow> 'a option) \<Rightarrow> err option \<Rightarrow> 'a option" where
  "Detail assert_T err =
     (case AsConnect err of None \<Rightarrow> None | Some (_, ds) \<Rightarrow> detail_loop assert_T ds)"

lemmas inspect_defs [go_defs] = AsConnect_def Code_def RetryDelay_def FieldViolations_def Detail_def

section \<open>Properties\<close>

fun as_retry_info :: "detail \<Rightarrow> int option" where
  "as_retry_info (RetryInfo d) = Some d"
| "as_retry_info _ = None"

fun violations_of :: "detail \<Rightarrow> field_violation list" where
  "violations_of (BadRequest vs) = vs"
| "violations_of _ = []"

text \<open>Any number of \<^verbatim>\<open>fmt.Errorf("...: %w", err)\<close> layers around an error.\<close>

definition wraps :: "string list \<Rightarrow> err \<Rightarrow> err" where
  "wraps ms e = foldr EWrap ms e"

lemma wraps_simps [simp]: "wraps [] e = e" "wraps (m # ms) e = EWrap m (wraps ms e)"
  by (simp_all add: wraps_def)

lemma as_connect_wraps [simp]: "as_connect (wraps ms e) = as_connect e"
  by (induction ms) simp_all

lemma errors_is_wraps [simp]: "errors_is (wraps ms e) s = errors_is e s"
  by (induction ms) simp_all

lemma retry_delay_loop_detail:
  "retry_delay_loop ds =
     (case detail_loop as_retry_info ds of None \<Rightarrow> (0, False) | Some d \<Rightarrow> (d, True))"
  by (induction ds) (auto split: detail.splits)

lemma field_violations_loop_concat:
  "field_violations_loop out ds = out @ concat (map violations_of ds)"
  by (induction ds arbitrary: out) (auto split: detail.splits)

lemma detail_loop_skip:
  "list_all (\<lambda>a. a = Undecodable \<or> f a = None) as \<Longrightarrow> detail_loop f (as @ ds) = detail_loop f ds"
  by (induction as) (auto split: option.splits)

lemma detail_loop_SomeD:
  "detail_loop f ds = Some v \<Longrightarrow>
     \<exists>as d bs. ds = as @ d # bs \<and> d \<noteq> Undecodable \<and> f d = Some v \<and>
       list_all (\<lambda>a. a = Undecodable \<or> f a = None) as"
proof (induction ds)
  case Nil
  then show ?case by simp
next
  case (Cons d ds)
  show ?case
  proof (cases "d \<noteq> Undecodable \<and> f d \<noteq> None")
    case True
    with Cons.prems have "f d = Some v" by auto
    with True show ?thesis by (intro exI [of _ "[]"] exI [of _ d] exI [of _ ds]) simp
  next
    case False
    with Cons.prems have "detail_loop f ds = Some v" by (auto split: if_splits)
    from Cons.IH [OF this] obtain as d' bs where "ds = as @ d' # bs" "d' \<noteq> Undecodable" "f d' = Some v"
      "list_all (\<lambda>a. a = Undecodable \<or> f a = None) as" by auto
    then have "d # ds = (d # as) @ d' # bs \<and> d' \<noteq> Undecodable \<and> f d' = Some v \<and>
        list_all (\<lambda>a. a = Undecodable \<or> f a = None) (d # as)"
      using False by auto
    then show ?thesis by blast
  qed
qed

lemma as_retry_info_Some_iff: "as_retry_info a = Some x \<longleftrightarrow> a = RetryInfo x"
  by (cases a) auto

lemma first_retry_info:
  "detail_loop as_retry_info ds = Some d \<longleftrightarrow>
     (\<exists>as bs. ds = as @ RetryInfo d # bs \<and> list_all (\<lambda>a. as_retry_info a = None) as)"
proof
  assume "detail_loop as_retry_info ds = Some d"
  from detail_loop_SomeD [OF this] obtain as bs where
    "ds = as @ RetryInfo d # bs" "list_all (\<lambda>a. a = Undecodable \<or> as_retry_info a = None) as"
    by (auto simp: as_retry_info_Some_iff)
  moreover from this(2) have "list_all (\<lambda>a. as_retry_info a = None) as"
    by (auto simp: list_all_iff)
  ultimately show "\<exists>as bs. ds = as @ RetryInfo d # bs \<and> list_all (\<lambda>a. as_retry_info a = None) as"
    by blast
next
  assume "\<exists>as bs. ds = as @ RetryInfo d # bs \<and> list_all (\<lambda>a. as_retry_info a = None) as"
  then show "detail_loop as_retry_info ds = Some d"
    by (auto simp: detail_loop_skip list_all_iff)
qed

text \<open>
  The error helpers see through every wrapping layer and read the details in order: on
  a Connect error under any number of \<^verbatim>\<open>fmt.Errorf\<close> wraps, \<^verbatim>\<open>Code\<close> is its code,
  \<^verbatim>\<open>RetryDelay\<close> is the first decodable RetryInfo detail (and \<^verbatim>\<open>(0, false)\<close> when there is
  none), and \<^verbatim>\<open>FieldViolations\<close> is the concatenation of every BadRequest detail.
\<close>

theorem inspect_wrapped_connect:
  "Code (Some (wraps ms (EConnect c e ds))) = c \<and>
   RetryDelay (Some (wraps ms (EConnect c e ds))) =
     (case Detail as_retry_info (Some (EConnect c e ds)) of None \<Rightarrow> (0, False) | Some d \<Rightarrow> (d, True)) \<and>
   (Detail as_retry_info (Some (EConnect c e ds)) = Some d \<longleftrightarrow>
     (\<exists>as bs. ds = as @ RetryInfo d # bs \<and> list_all (\<lambda>a. as_retry_info a = None) as)) \<and>
   FieldViolations (Some (wraps ms (EConnect c e ds))) = concat (map violations_of ds)"
  by (simp add: inspect_defs retry_delay_loop_detail field_violations_loop_concat first_retry_info)

end
