(* ===== verification/Cache_Memory.thy ===== *)
theory Cache_Memory
  imports Errors "HOL-Library.Multiset"
begin

text \<open>
  The cache entry and the in-memory store of \<^verbatim>\<open>src/caching/caching.go\<close> and
  \<^verbatim>\<open>src/caching/memory.go\<close>. The store's map and its \<^verbatim>\<open>container/list\<close> share the list
  elements, and an entry is overwritten through the pointer both hold; elements are
  therefore addresses into an explicit heap. The refinement lemmas relate each operation to
  the same operation on an association list in recency order, and the locale \<open>cache_store\<close>
  is what the caching transport may assume of any store behind the \<^verbatim>\<open>Cache\<close> interface.
\<close>

section \<open>Entries\<close>

record entry =
  eHeaders :: header
  ETag :: string
  Created :: int
  Body :: string
  eTTL :: int
  eSWR :: int
  Status :: int

definition Expired :: "entry \<Rightarrow> int \<Rightarrow> bool" where
  "Expired e now \<longleftrightarrow> time_after now (time_add (Created e) (eTTL e))"

definition Stale :: "entry \<Rightarrow> int \<Rightarrow> bool" where
  "Stale e now \<longleftrightarrow>
     (if eSWR e \<le> 0 then False
      else let hardDeadline = time_add (Created e) (wrap64 (eTTL e + eSWR e))
           in Expired e now \<and> \<not> time_after now hardDeadline)"

definition hard_expired :: "entry \<Rightarrow> int \<Rightarrow> bool" where
  "hard_expired e now \<longleftrightarrow> time_after now (time_add (Created e) (wrap64 (eTTL e + eSWR e)))"

section \<open>The store\<close>

text \<open>What a list element's \<^verbatim>\<open>Value\<close> may hold: a \<^verbatim>\<open>*memoryNode\<close> or a value on which the
  type assertion fails.\<close>

datatype list_value = MemoryNode string entry | ForeignValue

record memory_cache =
  order :: "nat list"
  items :: "(string \<times> nat) list"
  mheap :: "nat \<Rightarrow> list_value"
  next_elem :: nat
  mmaxBytes :: int
  mbytes :: int
  mcapacity :: int

definition DefaultMemoryCapacity :: int where "DefaultMemoryCapacity = 1024"
definition DefaultMemoryMaxBytes :: int where "DefaultMemoryMaxBytes = 64 * 2 ^ 20"

definition ErrCorruptListEntry :: err where
  "ErrCorruptListEntry = ESentinel (Sentinel ''caching: corrupt list entry'')"

definition NewMemoryCacheWithLimits :: "int \<Rightarrow> int \<Rightarrow> memory_cache" where
  "NewMemoryCacheWithLimits capacity maxBytes =
     \<lparr>order = [], items = [], mheap = (\<lambda>_. ForeignValue), next_elem = 0,
      mmaxBytes = (if maxBytes \<le> 0 then DefaultMemoryMaxBytes else maxBytes), mbytes = 0,
      mcapacity = (if capacity \<le> 0 then DefaultMemoryCapacity else capacity)\<rparr>"

definition NewMemoryCache :: "int \<Rightarrow> memory_cache" where
  "NewMemoryCache capacity = NewMemoryCacheWithLimits capacity DefaultMemoryMaxBytes"

text \<open>Sizes are sums of lengths of live objects, which an \<^verbatim>\<open>int64\<close> holds.\<close>

definition entrySize :: "string \<Rightarrow> entry \<Rightarrow> int" where
  "entrySize key e =
     foldl (\<lambda>size (name, values).
         foldl (\<lambda>size v. size + int (length v)) (size + int (length name)) values)
       (int (length key) + int (length (Body e)) + int (length (ETag e))) (eHeaders e)"

text \<open>\<^verbatim>\<open>list.MoveToFront\<close>, \<^verbatim>\<open>list.Remove\<close> and \<^verbatim>\<open>list.PushFront\<close> on the addresses.\<close>

definition move_to_front :: "nat \<Rightarrow> nat list \<Rightarrow> nat list" where
  "move_to_front e xs = (if e \<in> set xs then e # remove1 e xs else xs)"

definition evictElement :: "nat \<Rightarrow> string \<Rightarrow> entry \<Rightarrow> memory_cache \<Rightarrow> memory_cache" where
  "evictElement elem key e c =
     (let c1 = c\<lparr>order := remove1 elem (order c), items := AList.delete key (items c),
                 mbytes := mbytes c - entrySize key e\<rparr>
      in if mbytes c1 < 0 then c1\<lparr>mbytes := 0\<rparr> else c1)"

definition mem_Get :: "int \<Rightarrow> string \<Rightarrow> memory_cache \<Rightarrow> (err + entry option) \<times> memory_cache" where
  "mem_Get now key c =
     (case map_of (items c) key of
        None \<Rightarrow> (Inr None, c)
      | Some elem \<Rightarrow>
          (case mheap c elem of
             ForeignValue \<Rightarrow> (Inl ErrCorruptListEntry, c)
           | MemoryNode k e \<Rightarrow>
               (let hardDeadline = time_add (Created e) (wrap64 (eTTL e + eSWR e)) in
                if time_after now hardDeadline then (Inr None, evictElement elem key e c)
                else (Inr (Some e), c\<lparr>order := move_to_front elem (order c)\<rparr>))))"

definition over_budget :: "memory_cache \<Rightarrow> bool" where
  "over_budget c \<longleftrightarrow>
     mcapacity c < int (length (order c)) \<or> mmaxBytes c < mbytes c \<and> 1 < length (order c)"

function evictToBudget :: "memory_cache \<Rightarrow> err option \<times> memory_cache" where
  "evictToBudget c =
     (if over_budget c then
        (if order c = [] then (None, c)
         else
           (case mheap c (last (order c)) of
              ForeignValue \<Rightarrow> (Some ErrCorruptListEntry, c)
            | MemoryNode k e \<Rightarrow> evictToBudget (evictElement (last (order c)) k e c)))
      else (None, c))"
  by pat_completeness auto
termination
  by (relation "measure (\<lambda>c. length (order c))")
    (auto simp: evictElement_def Let_def length_remove1)

declare evictToBudget.simps [simp del]

definition mem_Set :: "string \<Rightarrow> entry \<Rightarrow> memory_cache \<Rightarrow> err option \<times> memory_cache" where
  "mem_Set key e c =
     (case map_of (items c) key of
        Some existing \<Rightarrow>
          (case mheap c existing of
             ForeignValue \<Rightarrow> (Some ErrCorruptListEntry, c)
           | MemoryNode k old \<Rightarrow>
               evictToBudget
                 (c\<lparr>mbytes := mbytes c + (entrySize key e - entrySize key old),
                    mheap := (mheap c)(existing := MemoryNode k e),
                    order := move_to_front existing (order c)\<rparr>))
      | None \<Rightarrow>
          (let elem = next_elem c in
           evictToBudget
             (c\<lparr>mheap := (mheap c)(elem := MemoryNode key e), next_elem := Suc elem,
                order := elem # order c, items := AList.update key elem (items c),
                mbytes := mbytes c + entrySize key e\<rparr>)))"

definition mem_Delete :: "string \<Rightarrow> memory_cache \<Rightarrow> err option \<times> memory_cache" where
  "mem_Delete key c =
     (case map_of (items c) key of
        None \<Rightarrow> (None, c)
      | Some elem \<Rightarrow>
          (case mheap c elem of
             ForeignValue \<Rightarrow> (Some ErrCorruptListEntry, c)
           | MemoryNode k e \<Rightarrow> (None, evictElement elem key e c)))"

text \<open>
  The range loop of \<^verbatim>\<open>DeleteMatching\<close>: a Go map is iterated in an unspecified order, and an
  entry removed during the iteration is the current one, so the loop visits the pairs the map
  had at its start once each. \<open>ord\<close> is the order the runtime picks.
\<close>

fun delete_matching_loop :: "string \<Rightarrow> (string \<times> nat) list \<Rightarrow> memory_cache \<Rightarrow> err option \<times> memory_cache" where
  "delete_matching_loop p [] c = (None, c)"
| "delete_matching_loop p ((key, elem) # kvs) c =
     (if \<not> prefix p key then delete_matching_loop p kvs c
      else
        (case mheap c elem of
           ForeignValue \<Rightarrow> (Some ErrCorruptListEntry, c)
         | MemoryNode k e \<Rightarrow> delete_matching_loop p kvs (evictElement elem key e c)))"

definition mem_DeleteMatching ::
  "((string \<times> nat) list \<Rightarrow> (string \<times> nat) list) \<Rightarrow> string \<Rightarrow> memory_cache \<Rightarrow> err option \<times> memory_cache" where
  "mem_DeleteMatching ord p c =
     (if p = [] then (Some (EText ''caching: DeleteMatching prefix is empty''), c)
      else delete_matching_loop p (ord (items c)) c)"

definition map_order :: "((string \<times> nat) list \<Rightarrow> (string \<times> nat) list) \<Rightarrow> bool" where
  "map_order ord \<longleftrightarrow> (\<forall>kvs. mset (ord kvs) = mset kvs)"

section \<open>Well-formed stores and the abstraction to a recency list\<close>

definition node_ok :: "memory_cache \<Rightarrow> string \<times> nat \<Rightarrow> bool" where
  "node_ok c = (\<lambda>(k, a). \<exists>e. mheap c a = MemoryNode k e)"

fun node_pair :: "list_value \<Rightarrow> string \<times> entry" where
  "node_pair (MemoryNode k e) = (k, e)"
| "node_pair ForeignValue = undefined"

definition lru :: "memory_cache \<Rightarrow> (string \<times> entry) list" where
  "lru c = map (\<lambda>a. node_pair (mheap c a)) (order c)"

definition total_size :: "(string \<times> entry) list \<Rightarrow> int" where
  "total_size l = sum_list (map (\<lambda>(k, e). entrySize k e) l)"

definition store_ok :: "memory_cache \<Rightarrow> bool" where
  "store_ok c \<longleftrightarrow>
     distinct (order c) \<and> distinct (map fst (items c)) \<and> snd ` set (items c) = set (order c) \<and>
     list_all (node_ok c) (items c) \<and> list_all (\<lambda>a. a < next_elem c) (order c) \<and>
     mbytes c = total_size (lru c) \<and> 0 < mcapacity c \<and> 0 < mmaxBytes c"

definition mem_inv :: "memory_cache \<Rightarrow> bool" where
  "mem_inv c \<longleftrightarrow> store_ok c \<and> \<not> over_budget c"

text \<open>The abstract store: an association list, most recently used first.\<close>

definition aget :: "int \<Rightarrow> string \<Rightarrow> (string \<times> entry) list \<Rightarrow> entry option \<times> (string \<times> entry) list" where
  "aget now k l =
     (case map_of l k of
        None \<Rightarrow> (None, l)
      | Some e \<Rightarrow> if hard_expired e now then (None, AList.delete k l) else (Some e, (k, e) # AList.delete k l))"

function ashrink :: "int \<Rightarrow> int \<Rightarrow> (string \<times> entry) list \<Rightarrow> (string \<times> entry) list" where
  "ashrink cap maxb l =
     (if l \<noteq> [] \<and> (cap < int (length l) \<or> maxb < total_size l \<and> 1 < length l)
      then ashrink cap maxb (butlast l) else l)"
  by pat_completeness auto
termination by (relation "measure (\<lambda>(_, _, l). length l)") auto

declare ashrink.simps [simp del]

definition aset :: "int \<Rightarrow> int \<Rightarrow> string \<Rightarrow> entry \<Rightarrow> (string \<times> entry) list \<Rightarrow> (string \<times> entry) list" where
  "aset cap maxb k e l = ashrink cap maxb ((k, e) # AList.delete k l)"

lemma sum_foldl_lengths: "foldl (\<lambda>size v. size + int (length v)) s vs = s + sum_list (map (int \<circ> length) vs)"
  by (induction vs arbitrary: s) auto

lemma entrySize_ge: "int (length key) \<le> entrySize key e"
proof -
  have "s \<le> foldl (\<lambda>size (name, values).
      foldl (\<lambda>size v. size + int (length v)) (size + int (length name)) values) s hs"
    for s and hs :: header
  proof (induction hs arbitrary: s)
    case (Cons h hs)
    obtain n vs where h: "h = (n, vs)" by fastforce
    have "0 \<le> sum_list (map (int \<circ> length) vs)" by (intro sum_list_nonneg) auto
    then show ?case
      using Cons.IH [of "s + int (length n) + sum_list (map (int \<circ> length) vs)"]
      by (simp add: h sum_foldl_lengths)
  qed simp
  then show ?thesis unfolding entrySize_def by (smt (verit) of_nat_0_le_iff)
qed

lemma entrySize_nonneg [simp]: "0 \<le> entrySize key e"
  using entrySize_ge [of key e] by linarith

lemma total_size_simps [simp]:
  "total_size [] = 0" "total_size ((k, e) # l) = entrySize k e + total_size l"
  "total_size (l @ m) = total_size l + total_size m"
  by (simp_all add: total_size_def)

lemma total_size_nonneg [simp]: "0 \<le> total_size l"
  unfolding total_size_def by (intro sum_list_nonneg) auto

section \<open>Each operation refines its abstract counterpart\<close>

lemma delete_filter: "AList.delete k l = filter (\<lambda>(k', _). k' \<noteq> k) l"
  by (induction l) auto

lemma distinct_keys_delete [simp]: "distinct (map fst l) \<Longrightarrow> distinct (map fst (AList.delete k l))"
  by (rule distinct_delete)

lemma delete_set: "set (AList.delete k l) = {kv \<in> set l. fst kv \<noteq> k}"
  by (auto simp: delete_filter)

lemma total_size_delete:
  "distinct (map fst l) \<Longrightarrow> (k, e) \<in> set l \<Longrightarrow> total_size (AList.delete k l) = total_size l - entrySize k e"
proof (induction l)
  case (Cons x l)
  obtain k' e' where x: "x = (k', e')" by fastforce
  show ?case
  proof (cases "k' = k")
    case True
    with Cons.prems x have "e' = e" "k \<notin> fst ` set l" by force+
    with True x show ?thesis by simp
  next
    case False
    with Cons x show ?thesis by auto
  qed
qed simp

lemma store_ok_item:
  assumes "store_ok c" and "map_of (items c) k = Some a"
  obtains e where "mheap c a = MemoryNode k e" and "a \<in> set (order c)"
proof -
  have "(k, a) \<in> set (items c)" using assms(2) by (rule map_of_SomeD)
  then have "node_ok c (k, a)" "a \<in> set (order c)"
    using assms(1) by (auto simp: store_ok_def list_all_iff) (metis imageI snd_conv)
  then show ?thesis by (auto simp: node_ok_def intro: that)
qed

lemma store_ok_elem:
  assumes "store_ok c" and "a \<in> set (order c)"
  obtains k e where "mheap c a = MemoryNode k e" and "map_of (items c) k = Some a"
proof -
  obtain k where ka: "(k, a) \<in> set (items c)" using assms by (auto simp: store_ok_def) (metis imageE prod.collapse)
  then have "map_of (items c) k = Some a" "node_ok c (k, a)"
    using assms(1) by (auto simp: store_ok_def list_all_iff)
  then show ?thesis by (auto simp: node_ok_def intro: that)
qed

lemma store_ok_key_inj:
  assumes "store_ok c" and "a \<in> set (order c)" and "b \<in> set (order c)"
    and "mheap c a = MemoryNode k e" and "mheap c b = MemoryNode k e'"
  shows "a = b"
  using assms store_ok_elem [OF assms(1,2)] store_ok_elem [OF assms(1,3)] by (metis list_value.inject option.inject)

lemma lru_distinct: "store_ok c \<Longrightarrow> distinct (map fst (lru c))"
proof -
  assume ok: "store_ok c"
  have "inj_on (\<lambda>a. fst (node_pair (mheap c a))) (set (order c))"
  proof (rule inj_onI)
    fix a b assume ab: "a \<in> set (order c)" "b \<in> set (order c)"
      and eq: "fst (node_pair (mheap c a)) = fst (node_pair (mheap c b))"
    obtain k e where "mheap c a = MemoryNode k e" using store_ok_elem [OF ok ab(1)] by metis
    moreover obtain k' e' where "mheap c b = MemoryNode k' e'" using store_ok_elem [OF ok ab(2)] by metis
    ultimately show "a = b" using store_ok_key_inj [OF ok ab] eq by simp
  qed
  then show ?thesis using ok by (simp add: lru_def comp_def distinct_map store_ok_def)
qed

lemma lru_mem: "a \<in> set (order c) \<Longrightarrow> mheap c a = MemoryNode k e \<Longrightarrow> (k, e) \<in> set (lru c)"
  by (force simp: lru_def image_iff)

lemma lru_lookup_Some:
  assumes "store_ok c" and "map_of (items c) k = Some a" and "mheap c a = MemoryNode k e"
  shows "map_of (lru c) k = Some e"
proof -
  have "a \<in> set (order c)" using assms(1,2) by (rule store_ok_item)
  then show ?thesis using lru_mem assms(3) lru_distinct [OF assms(1)] by simp
qed

lemma lru_lookup_None:
  assumes "store_ok c" and "map_of (items c) k = None"
  shows "map_of (lru c) k = None"
proof (rule ccontr)
  assume "map_of (lru c) k \<noteq> None"
  then obtain e where "(k, e) \<in> set (lru c)" by (auto dest: map_of_SomeD)
  then obtain a where a: "a \<in> set (order c)" "node_pair (mheap c a) = (k, e)" by (auto simp: lru_def)
  obtain k' e' where "mheap c a = MemoryNode k' e'" "map_of (items c) k' = Some a"
    using store_ok_elem [OF assms(1) a(1)] by metis
  with a assms(2) show False by simp
qed

lemma lru_remove:
  assumes "store_ok c" and "a \<in> set (order c)" and "mheap c a = MemoryNode k e"
  shows "map (\<lambda>b. node_pair (mheap c b)) (remove1 a (order c)) = AList.delete k (lru c)"
proof -
  have key: "(fst (node_pair (mheap c b)) \<noteq> k) = (b \<noteq> a)" if "b \<in> set (order c)" for b
    using store_ok_elem [OF assms(1) that] store_ok_key_inj [OF assms(1) that assms(2)] assms(3)
    by (metis fst_conv node_pair.simps(1))
  have "remove1 a (order c) = filter (\<lambda>b. b \<noteq> a) (order c)"
    using assms(1) by (simp add: store_ok_def distinct_remove1_removeAll removeAll_filter_not_eq)
      (metis (mono_tags, lifting) filter_cong)
  also have "\<dots> = filter (\<lambda>b. fst (node_pair (mheap c b)) \<noteq> k) (order c)"
    by (rule filter_cong) (use key in auto)
  finally show ?thesis by (simp add: lru_def delete_filter filter_map comp_def case_prod_unfold)
qed

lemma evictElement_store_ok:
  assumes ok: "store_ok c" and a: "map_of (items c) k = Some a" "mheap c a = MemoryNode k e"
  shows "lru (evictElement a k e c) = AList.delete k (lru c)" and "store_ok (evictElement a k e c)"
    and "items (evictElement a k e c) = AList.delete k (items c)"
    and "mheap (evictElement a k e c) = mheap c"
    and "mcapacity (evictElement a k e c) = mcapacity c" "mmaxBytes (evictElement a k e c) = mmaxBytes c"
proof -
  have mem: "a \<in> set (order c)" using ok a(1) by (rule store_ok_item)
  have size: "mbytes c - entrySize k e = total_size (AList.delete k (lru c))"
    using total_size_delete [OF lru_distinct [OF ok] lru_mem [OF mem a(2)]] ok by (simp add: store_ok_def)
  have c': "evictElement a k e c = c\<lparr>order := remove1 a (order c), items := AList.delete k (items c),
      mbytes := total_size (AList.delete k (lru c))\<rparr>"
    by (simp add: evictElement_def Let_def size not_less [symmetric]) (metis total_size_nonneg not_less)
  show l: "lru (evictElement a k e c) = AList.delete k (lru c)"
    using lru_remove [OF ok mem a(2)] by (simp add: c' lru_def)
  have "snd ` set (AList.delete k (items c)) = set (order c) - {a}"
  proof -
    have "snd kv = a \<longleftrightarrow> fst kv = k" if "kv \<in> set (items c)" for kv
    proof -
      have "map_of (items c) (fst kv) = Some (snd kv)" "node_ok c kv"
        using that ok by (auto simp: store_ok_def list_all_iff)
      then show ?thesis using a by (auto simp: node_ok_def case_prod_unfold)
    qed
    then have "snd ` set (AList.delete k (items c)) = snd ` set (items c) - {a}"
      by (auto simp: delete_filter case_prod_unfold)
    then show ?thesis using ok by (simp add: store_ok_def)
  qed
  then show "store_ok (evictElement a k e c)"
    using ok l unfolding c' by (auto simp: store_ok_def list_all_iff node_ok_def delete_set)
qed (simp_all add: evictElement_def Let_def)

lemma mem_Get_refines:
  assumes "store_ok c"
  shows "fst (mem_Get now k c) = Inr (fst (aget now k (lru c)))"
    and "lru (snd (mem_Get now k c)) = snd (aget now k (lru c))"
    and "store_ok (snd (mem_Get now k c))"
    and "mcapacity (snd (mem_Get now k c)) = mcapacity c" "mmaxBytes (snd (mem_Get now k c)) = mmaxBytes c"
proof -
  have "fst (mem_Get now k c) = Inr (fst (aget now k (lru c))) \<and>
    lru (snd (mem_Get now k c)) = snd (aget now k (lru c)) \<and> store_ok (snd (mem_Get now k c)) \<and>
    mcapacity (snd (mem_Get now k c)) = mcapacity c \<and> mmaxBytes (snd (mem_Get now k c)) = mmaxBytes c"
  proof (cases "map_of (items c) k")
    case None
    then show ?thesis using lru_lookup_None [OF assms None] assms by (simp add: mem_Get_def aget_def)
  next
    case (Some a)
    obtain e where e: "mheap c a = MemoryNode k e" "a \<in> set (order c)" using assms Some by (rule store_ok_item)
    note look = lru_lookup_Some [OF assms Some e(1)]
    have "lru (c\<lparr>order := a # remove1 a (order c)\<rparr>) = (k, e) # AList.delete k (lru c)"
      using lru_remove [OF assms e(2,1)] e(1) by (simp add: lru_def)
    moreover from this have "store_ok (c\<lparr>order := a # remove1 a (order c)\<rparr>)"
      using assms e(2) total_size_delete [OF lru_distinct [OF assms] lru_mem [OF e(2,1)]]
      by (auto simp: store_ok_def list_all_iff node_ok_def)
    ultimately show ?thesis
      using evictElement_store_ok [OF assms Some e(1)] Some e look
      by (simp add: mem_Get_def aget_def hard_expired_def Let_def move_to_front_def)
  qed
  then show "fst (mem_Get now k c) = Inr (fst (aget now k (lru c)))"
    and "lru (snd (mem_Get now k c)) = snd (aget now k (lru c))"
    and "store_ok (snd (mem_Get now k c))"
    and "mcapacity (snd (mem_Get now k c)) = mcapacity c" "mmaxBytes (snd (mem_Get now k c)) = mmaxBytes c"
    by blast+
qed

lemma delete_last:
  "distinct (map fst l) \<Longrightarrow> l \<noteq> [] \<Longrightarrow> AList.delete (fst (last l)) l = butlast l"
  by (cases l rule: rev_cases) (auto simp: delete_filter filter_id_conv image_iff)

lemma over_budget_lru:
  "store_ok c \<Longrightarrow> over_budget c \<longleftrightarrow>
     mcapacity c < int (length (lru c)) \<or> mmaxBytes c < total_size (lru c) \<and> 1 < length (lru c)"
  by (simp add: over_budget_def store_ok_def lru_def)

lemma evictToBudget_refines:
  "store_ok c \<Longrightarrow> \<exists>c'. evictToBudget c = (None, c') \<and> mem_inv c' \<and>
     lru c' = ashrink (mcapacity c) (mmaxBytes c) (lru c) \<and>
     mcapacity c' = mcapacity c \<and> mmaxBytes c' = mmaxBytes c"
proof (induction c rule: evictToBudget.induct)
  case (1 c)
  show ?case
  proof (cases "over_budget c")
    case False
    then have "evictToBudget c = (None, c)" by (simp add: evictToBudget.simps [of c])
    moreover have "ashrink (mcapacity c) (mmaxBytes c) (lru c) = lru c"
      using False over_budget_lru [OF "1.prems"] by (subst ashrink.simps) auto
    ultimately show ?thesis using False "1.prems" by (simp add: mem_inv_def)
  next
    case True
    then have ne: "order c \<noteq> []" using "1.prems" by (auto simp: over_budget_def store_ok_def)
    then obtain k e where ke: "mheap c (last (order c)) = MemoryNode k e" "map_of (items c) k = Some (last (order c))"
      using store_ok_elem [OF "1.prems"] by (metis last_in_set)
    note ev = evictElement_store_ok [OF "1.prems" ke(2,1)]
    have "fst (last (lru c)) = k" using ne ke(1) by (simp add: lru_def last_map)
    then have "AList.delete k (lru c) = butlast (lru c)"
      using delete_last [OF lru_distinct [OF "1.prems"]] ne by (auto simp: lru_def)
    moreover have "evictToBudget c = evictToBudget (evictElement (last (order c)) k e c)"
      using True ne ke(1) by (subst evictToBudget.simps) simp
    moreover have "ashrink (mcapacity c) (mmaxBytes c) (lru c) = ashrink (mcapacity c) (mmaxBytes c) (butlast (lru c))"
      using True ne over_budget_lru [OF "1.prems"] by (subst ashrink.simps) (auto simp: lru_def)
    ultimately show ?thesis
      using "1.IH" [OF True ne ke(1) ev(2)] by (simp add: ev)
  qed
qed

lemma update_absent: "k \<notin> fst ` set l \<Longrightarrow> AList.update k v l = l @ [(k, v)]"
  by (induction l) auto

lemma mem_Set_refines:
  assumes ok: "store_ok c"
  shows "\<exists>c'. mem_Set k e c = (None, c') \<and> mem_inv c' \<and>
     lru c' = aset (mcapacity c) (mmaxBytes c) k e (lru c) \<and>
     mcapacity c' = mcapacity c \<and> mmaxBytes c' = mmaxBytes c"
proof (cases "map_of (items c) k")
  case None
  let ?c = "c\<lparr>mheap := (mheap c)(next_elem c := MemoryNode k e), next_elem := Suc (next_elem c),
      order := next_elem c # order c, items := AList.update k (next_elem c) (items c),
      mbytes := mbytes c + entrySize k e\<rparr>"
  have fresh: "next_elem c \<notin> set (order c)" using ok by (auto simp: store_ok_def list_all_iff)
  then have old: "map (\<lambda>a. node_pair (mheap ?c a)) (order c) = lru c" by (auto simp: lru_def)
  have absent: "k \<notin> fst ` set (items c)" using None by (simp add: map_of_eq_None_iff)
  have "AList.update k (next_elem c) (items c) = items c @ [(k, next_elem c)]"
    using absent by (rule update_absent)
  moreover have cons: "lru ?c = (k, e) # lru c" using old by (simp add: lru_def)
  moreover have "list_all (node_ok ?c) (items c)"
    using ok fresh unfolding store_ok_def list_all_iff node_ok_def by force
  ultimately have "store_ok ?c"
    using ok fresh absent by (auto simp: store_ok_def list_all_iff node_ok_def fun_upd_same simp del: fun_upd_apply)
  moreover have "lru ?c = (k, e) # AList.delete k (lru c)"
    using cons lru_lookup_None [OF ok None] by (simp add: map_of_eq_None_iff)
  ultimately show ?thesis
    using evictToBudget_refines [of ?c] None by (simp add: mem_Set_def Let_def aset_def)
next
  case (Some a)
  obtain old where old: "mheap c a = MemoryNode k old" "a \<in> set (order c)" using ok Some by (rule store_ok_item)
  let ?c = "c\<lparr>mbytes := mbytes c + (entrySize k e - entrySize k old),
      mheap := (mheap c)(a := MemoryNode k e), order := a # remove1 a (order c)\<rparr>"
  have "a \<notin> set (remove1 a (order c))" using ok by (simp add: store_ok_def)
  then have "map (\<lambda>b. node_pair (mheap ?c b)) (remove1 a (order c)) = map (\<lambda>b. node_pair (mheap c b)) (remove1 a (order c))"
    by (intro map_cong) auto
  then have lru': "lru ?c = (k, e) # AList.delete k (lru c)"
    using lru_remove [OF ok old(2,1)] by (simp add: lru_def)
  moreover have "store_ok ?c"
    using ok old lru' total_size_delete [OF lru_distinct [OF ok] lru_mem [OF old(2,1)]]
    by (auto simp: store_ok_def list_all_iff node_ok_def)
  ultimately show ?thesis
    using evictToBudget_refines [of ?c] Some old by (simp add: mem_Set_def move_to_front_def aset_def)
qed

lemma mem_Delete_refines:
  assumes ok: "store_ok c"
  shows "\<exists>c'. mem_Delete k c = (None, c') \<and> store_ok c' \<and> lru c' = AList.delete k (lru c) \<and>
     mcapacity c' = mcapacity c \<and> mmaxBytes c' = mmaxBytes c"
proof (cases "map_of (items c) k")
  case None
  moreover have "k \<notin> fst ` set (lru c)" using lru_lookup_None [OF ok None] by (simp add: map_of_eq_None_iff)
  ultimately show ?thesis using ok by (simp add: mem_Delete_def)
next
  case (Some a)
  obtain e where e: "mheap c a = MemoryNode k e" using ok Some by (rule store_ok_item)
  show ?thesis using evictElement_store_ok [OF ok Some e] Some e by (simp add: mem_Delete_def)
qed

lemma delete_matching_loop_refines:
  assumes "store_ok c" and "distinct (map fst kvs)"
    and "\<forall>(key, a)\<in>set kvs. map_of (items c) key = Some a"
  shows "\<exists>c'. delete_matching_loop p kvs c = (None, c') \<and> store_ok c' \<and>
     lru c' = filter (\<lambda>(k, _). \<not> (prefix p k \<and> k \<in> fst ` set kvs)) (lru c) \<and>
     mcapacity c' = mcapacity c \<and> mmaxBytes c' = mmaxBytes c"
  using assms
proof (induction kvs arbitrary: c)
  case (Cons kv kvs)
  obtain key a where kv: "kv = (key, a)" by fastforce
  show ?case
  proof (cases "prefix p key")
    case False
    have "filter (\<lambda>(k, _). \<not> (prefix p k \<and> k \<in> fst ` set kvs)) (lru c) =
        filter (\<lambda>(k, _). \<not> (prefix p k \<and> k \<in> fst ` set (kv # kvs))) (lru c)"
      using False kv by (intro filter_cong) auto
    then show ?thesis using Cons.IH [OF Cons.prems(1)] Cons.prems False kv by auto
  next
    case True
    have it: "map_of (items c) key = Some a" using Cons.prems(3) kv by auto
    obtain e where e: "mheap c a = MemoryNode key e" using Cons.prems(1) it by (rule store_ok_item)
    note ev = evictElement_store_ok [OF Cons.prems(1) it e]
    have "\<forall>(key', a')\<in>set kvs. map_of (items (evictElement a key e c)) key' = Some a'"
      using Cons.prems(2,3) kv by (force simp: ev(3) delete_conv')
    with Cons.IH [OF ev(2)] Cons.prems(2) obtain c' where
      c': "delete_matching_loop p kvs (evictElement a key e c) = (None, c')" "store_ok c'"
        "lru c' = filter (\<lambda>(k, _). \<not> (prefix p k \<and> k \<in> fst ` set kvs)) (AList.delete key (lru c))"
        "mcapacity c' = mcapacity c" "mmaxBytes c' = mmaxBytes c"
      by (auto simp: ev)
    moreover have "filter (\<lambda>(k, _). \<not> (prefix p k \<and> k \<in> fst ` set kvs)) (AList.delete key (lru c)) =
        filter (\<lambda>(k, _). \<not> (prefix p k \<and> k \<in> fst ` set (kv # kvs))) (lru c)"
      using True kv by (auto simp: delete_filter intro!: filter_cong)
    ultimately show ?thesis using True kv e by simp
  qed
qed (auto simp: filter_id_conv)

lemma lru_keys: "store_ok c \<Longrightarrow> fst ` set (lru c) = fst ` set (items c)"
proof -
  assume ok: "store_ok c"
  have "map_of (lru c) k = None \<longleftrightarrow> map_of (items c) k = None" for k
  proof (cases "map_of (items c) k")
    case (Some a)
    obtain e where "mheap c a = MemoryNode k e" using ok Some by (rule store_ok_item)
    from lru_lookup_Some [OF ok Some this] Some show ?thesis by simp
  qed (use lru_lookup_None [OF ok] in simp)
  then show ?thesis by (auto simp: map_of_eq_None_iff)
qed

lemma mem_DeleteMatching_refines:
  assumes ok: "store_ok c" and "map_order ord" and "p \<noteq> []"
  shows "\<exists>c'. mem_DeleteMatching ord p c = (None, c') \<and> store_ok c' \<and>
     lru c' = filter (\<lambda>(k, _). \<not> prefix p k) (lru c) \<and> mcapacity c' = mcapacity c \<and> mmaxBytes c' = mmaxBytes c"
proof -
  have perm: "mset (ord (items c)) = mset (items c)" using assms(2) by (simp add: map_order_def)
  then have same: "set (ord (items c)) = set (items c)" by (rule mset_eq_setD)
  have "mset (map fst (ord (items c))) = mset (map fst (items c))" using perm by simp
  then have dist: "distinct (map fst (ord (items c)))"
    using ok mset_eq_imp_distinct_iff [of "map fst (ord (items c))" "map fst (items c)"] by (simp add: store_ok_def)
  have it: "\<forall>(key, a)\<in>set (ord (items c)). map_of (items c) key = Some a"
    using ok same by (auto simp: store_ok_def)
  have "filter (\<lambda>(k, _). \<not> (prefix p k \<and> k \<in> fst ` set (ord (items c)))) (lru c) =
      filter (\<lambda>(k, _). \<not> prefix p k) (lru c)"
    using lru_keys [OF ok] same by (intro filter_cong) force+
  then show ?thesis
    using delete_matching_loop_refines [OF ok dist it, of p] assms(3) by (simp add: mem_DeleteMatching_def)
qed

lemma over_budget_mono:
  assumes "store_ok c" "store_ok c'" "\<not> over_budget c" "mcapacity c' = mcapacity c" "mmaxBytes c' = mmaxBytes c"
    and "length (lru c') \<le> length (lru c)" "total_size (lru c') \<le> total_size (lru c)"
  shows "\<not> over_budget c'"
  using assms by (auto simp: over_budget_lru)

lemma total_size_filter: "total_size (filter P l) \<le> total_size l"
  by (induction l) (auto simp: total_size_def add_increasing split: prod.splits)

lemma total_size_move: "map_of l k = Some e \<Longrightarrow> distinct (map fst l) \<Longrightarrow>
    length ((k, e) # AList.delete k l) = length l \<and> total_size ((k, e) # AList.delete k l) = total_size l"
proof -
  assume a: "map_of l k = Some e" "distinct (map fst l)"
  have "length (AList.delete k l) + 1 = length l"
    using a by (induction l) (auto split: if_splits)
  with a total_size_delete [of l k e] show ?thesis by (auto dest: map_of_SomeD)
qed

section \<open>The interface the transport uses\<close>

text \<open>
  What \<^verbatim>\<open>Cache\<close> promises its callers, for a store of any kind: \<open>look\<close> is the contents, an
  operation may drop entries (eviction, failure) but never invents or alters one, a hit is
  within its hard deadline, and deletions remove every entry they name unless they report an
  error.
\<close>

locale cache_store =
  fixes cget :: "int \<Rightarrow> string \<Rightarrow> 's \<Rightarrow> (err + entry option) \<times> 's"
    and cset :: "string \<Rightarrow> entry \<Rightarrow> 's \<Rightarrow> err option \<times> 's"
    and cdelete :: "string \<Rightarrow> 's \<Rightarrow> err option \<times> 's"
    and cdelete_matching :: "string \<Rightarrow> 's \<Rightarrow> err option \<times> 's"
    and look :: "'s \<Rightarrow> string \<Rightarrow> entry option"
    and sinv :: "'s \<Rightarrow> bool"
  assumes get_inv: "sinv s \<Longrightarrow> cget now k s = (r, s') \<Longrightarrow> sinv s' \<and> look s' \<subseteq>\<^sub>m look s"
    and get_hit: "sinv s \<Longrightarrow> cget now k s = (Inr (Some e), s') \<Longrightarrow> look s k = Some e \<and> \<not> hard_expired e now"
    and set_inv: "sinv s \<Longrightarrow> cset k e s = (er, s') \<Longrightarrow> sinv s' \<and> look s' \<subseteq>\<^sub>m (look s)(k \<mapsto> e)"
    and delete_inv: "sinv s \<Longrightarrow> cdelete k s = (er, s') \<Longrightarrow>
      sinv s' \<and> look s' \<subseteq>\<^sub>m look s \<and> (er = None \<longrightarrow> look s' k = None)"
    and delete_matching_inv: "sinv s \<Longrightarrow> cdelete_matching p s = (er, s') \<Longrightarrow>
      sinv s' \<and> look s' \<subseteq>\<^sub>m look s \<and> (\<forall>k. \<not> prefix p k \<longrightarrow> look s' k = look s k) \<and>
      (er = None \<longrightarrow> (\<forall>k. prefix p k \<longrightarrow> look s' k = None))"

definition mem_look :: "memory_cache \<Rightarrow> string \<Rightarrow> entry option" where
  "mem_look c = map_of (lru c)"

lemma map_of_filter_keys: "map_of (filter (\<lambda>(k, _). P k) l) k = (if P k then map_of l k else None)"
  by (induction l) auto

lemma ashrink_prefix: "prefix (ashrink cap maxb l) l"
proof (induction cap maxb l rule: ashrink.induct)
  case (1 cap maxb l)
  then show ?case
    by (subst ashrink.simps) (auto intro: prefix_order.trans prefixeq_butlast)
qed

lemma ashrink_nonempty: "0 < cap \<Longrightarrow> l \<noteq> [] \<Longrightarrow> ashrink cap maxb l \<noteq> []"
proof (induction cap maxb l rule: ashrink.induct)
  case (1 cap maxb l)
  show ?case
  proof (cases "cap < int (length l) \<or> maxb < total_size l \<and> 1 < length l")
    case True
    then have "1 < length l" using "1.prems" by auto
    then have "butlast l \<noteq> []" by (cases l rule: rev_cases) auto
    with "1.IH" True "1.prems" show ?thesis by (subst ashrink.simps) simp
  qed (use "1.prems" in \<open>subst ashrink.simps, auto\<close>)
qed

text \<open>Eviction drops nothing it could have kept: every longer prefix is over budget.\<close>

lemma ashrink_maximal:
  "length (ashrink cap maxb l) < n \<Longrightarrow> n \<le> length l \<Longrightarrow>
     cap < int n \<or> maxb < total_size (take n l) \<and> 1 < n"
proof (induction cap maxb l rule: ashrink.induct)
  case (1 cap maxb l)
  then have over: "l \<noteq> [] \<and> (cap < int (length l) \<or> maxb < total_size l \<and> 1 < length l)"
    by (subst (asm) (2) ashrink.simps) (auto split: if_splits)
  show ?case
  proof (cases "n = length l")
    case False
    then have "n \<le> length (butlast l)" using "1.prems"(2) by simp
    moreover have "length (ashrink cap maxb (butlast l)) < n"
      using "1.prems"(1) over by (subst (asm) ashrink.simps) simp
    ultimately show ?thesis using "1.IH" [OF over] by (simp add: take_butlast)
  qed (use over in auto)
qed

lemma map_of_prefix_le: "prefix m l \<Longrightarrow> map_of m \<subseteq>\<^sub>m map_of l"
  by (auto simp: prefix_def map_le_def)

lemma mem_look_Set:
  assumes "mem_inv c" and "mem_Set k e c = (r, c')"
  shows "mem_inv c' \<and> mem_look c' \<subseteq>\<^sub>m (mem_look c)(k \<mapsto> e) \<and> mem_look c' k = Some e"
proof -
  have ok: "store_ok c" using assms(1) by (simp add: mem_inv_def)
  let ?l = "(k, e) # AList.delete k (lru c)"
  from mem_Set_refines [OF ok, of k e] assms(2)
  have c': "mem_inv c'" "lru c' = ashrink (mcapacity c) (mmaxBytes c) ?l" by (auto simp: aset_def)
  then have p: "prefix (lru c') ?l" by (simp add: ashrink_prefix)
  have "0 < mcapacity c" using ok by (simp add: store_ok_def)
  then have "lru c' \<noteq> []" using c'(2) ashrink_nonempty by simp
  with p obtain m where "lru c' = (k, e) # m" by (cases "lru c'") auto
  then have "mem_look c' k = Some e" by (simp add: mem_look_def)
  moreover have "map_of ?l = (mem_look c)(k \<mapsto> e)" by (rule ext) (auto simp: mem_look_def delete_conv')
  ultimately show ?thesis using c'(1) map_of_prefix_le [OF p] by (simp add: mem_look_def)
qed

lemma mem_inv_Get:
  assumes "mem_inv c"
  shows "mem_inv (snd (mem_Get now k c))"
proof -
  have ok: "store_ok c" using assms by (simp add: mem_inv_def)
  note g = mem_Get_refines [OF ok, of now k]
  have "length (snd (aget now k (lru c))) \<le> length (lru c) \<and> total_size (snd (aget now k (lru c))) \<le> total_size (lru c)"
    using total_size_move [OF _ lru_distinct [OF ok], of k] total_size_filter length_filter_le
    by (auto simp: aget_def delete_filter split: option.splits)
  then show ?thesis
    using over_budget_mono [OF ok g(3) _ g(4,5)] assms g(2,3) by (simp add: mem_inv_def)
qed

lemma mem_inv_filter:
  assumes "mem_inv c" and "store_ok c'" and "lru c' = filter P (lru c)"
    and "mcapacity c' = mcapacity c" "mmaxBytes c' = mmaxBytes c"
  shows "mem_inv c'"
  using over_budget_mono [of c c'] assms total_size_filter by (simp add: mem_inv_def)

text \<open>\<^verbatim>\<open>MemoryCache\<close> is such a store, whatever order the runtime iterates its map in.\<close>

locale go_map_iteration =
  fixes ord :: "(string \<times> nat) list \<Rightarrow> (string \<times> nat) list"
  assumes visits_all: "map_order ord"
begin

sublocale mem: cache_store mem_Get mem_Set mem_Delete "mem_DeleteMatching ord" mem_look mem_inv
proof unfold_locales
  fix c :: memory_cache and now k r c'
  assume inv: "mem_inv c" and run: "mem_Get now k c = (r, c')"
  then have ok: "store_ok c" by (simp add: mem_inv_def)
  have "mem_inv c'" using mem_inv_Get [OF inv, of now k] run by simp
  moreover have "lru c' = snd (aget now k (lru c))" using mem_Get_refines(2) [OF ok, of now k] run by simp
  ultimately show "mem_inv c' \<and> mem_look c' \<subseteq>\<^sub>m mem_look c"
    by (auto simp: mem_look_def aget_def delete_conv' map_le_def split: option.splits if_splits)
next
  fix c :: memory_cache and now k e c'
  assume inv: "mem_inv c" and run: "mem_Get now k c = (Inr (Some e), c')"
  then have ok: "store_ok c" by (simp add: mem_inv_def)
  have "fst (aget now k (lru c)) = Some e" using mem_Get_refines(1) [OF ok, of now k] run by simp
  then show "mem_look c k = Some e \<and> \<not> hard_expired e now"
    by (auto simp: mem_look_def aget_def split: option.splits if_splits)
next
  fix c :: memory_cache and k e r c'
  assume "mem_inv c" and "mem_Set k e c = (r, c')"
  then show "mem_inv c' \<and> mem_look c' \<subseteq>\<^sub>m (mem_look c)(k \<mapsto> e)" using mem_look_Set by blast
next
  fix c :: memory_cache and k r c'
  assume inv: "mem_inv c" and "mem_Delete k c = (r, c')"
  then have "store_ok c'" "lru c' = AList.delete k (lru c)" "mcapacity c' = mcapacity c" "mmaxBytes c' = mmaxBytes c"
    using mem_Delete_refines [of c k] by (auto simp: mem_inv_def)
  with mem_inv_filter [OF inv] show "mem_inv c' \<and> mem_look c' \<subseteq>\<^sub>m mem_look c \<and> (r = None \<longrightarrow> mem_look c' k = None)"
    by (auto simp: mem_look_def delete_filter map_le_def map_of_filter_keys)
next
  fix c :: memory_cache and p r c'
  assume inv: "mem_inv c" and run: "mem_DeleteMatching ord p c = (r, c')"
  show "mem_inv c' \<and> mem_look c' \<subseteq>\<^sub>m mem_look c \<and> (\<forall>k. \<not> prefix p k \<longrightarrow> mem_look c' k = mem_look c k) \<and>
      (r = None \<longrightarrow> (\<forall>k. prefix p k \<longrightarrow> mem_look c' k = None))"
  proof (cases "p = []")
    case True
    then show ?thesis using inv run by (auto simp: mem_DeleteMatching_def)
  next
    case False
    then have "store_ok c'" "lru c' = filter (\<lambda>(k, _). \<not> prefix p k) (lru c)"
        "mcapacity c' = mcapacity c" "mmaxBytes c' = mmaxBytes c"
      using mem_DeleteMatching_refines [OF _ visits_all, of c p] inv run by (auto simp: mem_inv_def)
    with mem_inv_filter [OF inv] show ?thesis by (auto simp: mem_look_def map_le_def map_of_filter_keys)
  qed
qed

lemma is_cache_store: "cache_store mem_Get mem_Set mem_Delete (mem_DeleteMatching ord) mem_look mem_inv"
  by (fact mem.cache_store_axioms)

end

interpretation oldest_first: go_map_iteration id
  by unfold_locales (simp add: map_order_def)

interpretation newest_first: go_map_iteration rev
  by unfold_locales (simp add: map_order_def)

section \<open>Properties\<close>

text \<open>
  [C5] The memory store implements the LRU specification: with the map, the list and the
  shared heap in step, each operation returns what the recency list says and leaves the
  recency list the specification gives, never reporting a corrupt entry and never leaving
  the budget. In particular \<^verbatim>\<open>DeleteMatching\<close> removes exactly the keys with the prefix,
  in whatever order the runtime iterates the map.
\<close>

theorem memory_cache_refines_lru:
  assumes "mem_inv c" and "map_order ord" and "p \<noteq> []"
  shows "(case mem_Get now k c of (r, c') \<Rightarrow>
        mem_inv c' \<and> r = Inr (fst (aget now k (lru c))) \<and> lru c' = snd (aget now k (lru c))) \<and>
    (case mem_Set k e c of (r, c') \<Rightarrow>
        mem_inv c' \<and> r = None \<and> lru c' = aset (mcapacity c) (mmaxBytes c) k e (lru c)) \<and>
    (case mem_Delete k c of (r, c') \<Rightarrow> mem_inv c' \<and> r = None \<and> lru c' = AList.delete k (lru c)) \<and>
    (case mem_DeleteMatching ord p c of (r, c') \<Rightarrow>
        mem_inv c' \<and> r = None \<and> lru c' = filter (\<lambda>(k, _). \<not> prefix p k) (lru c))"
proof -
  have ok: "store_ok c" using assms(1) by (simp add: mem_inv_def)
  obtain c1 where "mem_Delete k c = (None, c1)" "store_ok c1" "lru c1 = AList.delete k (lru c)"
      "mcapacity c1 = mcapacity c" "mmaxBytes c1 = mmaxBytes c"
    using mem_Delete_refines [OF ok] by blast
  moreover obtain c2 where "mem_DeleteMatching ord p c = (None, c2)" "store_ok c2"
      "lru c2 = filter (\<lambda>(k, _). \<not> prefix p k) (lru c)" "mcapacity c2 = mcapacity c" "mmaxBytes c2 = mmaxBytes c"
    using mem_DeleteMatching_refines [OF ok assms(2,3)] by blast
  ultimately show ?thesis
    using mem_Get_refines [OF ok, of now k] mem_inv_Get [OF assms(1), of now k] mem_Set_refines [OF ok, of k e]
      mem_inv_filter [OF assms(1)]
    by (auto simp: delete_filter split: prod.splits)
qed

text \<open>The operations other goroutines may run between two calls; the mutex makes each one
  step.\<close>

inductive mem_step :: "((string \<times> nat) list \<Rightarrow> (string \<times> nat) list) \<Rightarrow> memory_cache \<Rightarrow> memory_cache \<Rightarrow> bool"
  for ord where
  step_get: "mem_step ord c (snd (mem_Get now k c))"
| step_set: "mem_step ord c (snd (mem_Set k e c))"
| step_delete: "mem_step ord c (snd (mem_Delete k c))"
| step_delete_matching: "mem_step ord c (snd (mem_DeleteMatching ord p c))"

definition mem_init :: "memory_cache \<Rightarrow> bool" where
  "mem_init c \<longleftrightarrow> (\<exists>capacity maxBytes. c = NewMemoryCacheWithLimits capacity maxBytes)"

lemma mem_inv_New: "mem_inv (NewMemoryCacheWithLimits capacity maxBytes)"
  by (simp add: mem_inv_def store_ok_def over_budget_def NewMemoryCacheWithLimits_def lru_def
      DefaultMemoryCapacity_def DefaultMemoryMaxBytes_def)

context go_map_iteration begin

sublocale reach: inductive_invariant mem_init "mem_step ord" mem_inv
proof unfold_locales
  fix c assume "mem_init c"
  then show "mem_inv c" by (auto simp: mem_init_def mem_inv_New)
next
  fix c c' assume inv: "mem_inv c" and "mem_step ord c c'"
  from this(2) show "mem_inv c'"
    using mem.get_inv [OF inv] mem.set_inv [OF inv] mem.delete_inv [OF inv] mem.delete_matching_inv [OF inv]
    by (cases rule: mem_step.cases) (metis prod.collapse)+
qed

lemma reachable_mem_inv: "reachable mem_init (mem_step ord) c \<Longrightarrow> mem_inv c"
  by (rule reach.inv_reachable)

end


text \<open>
  [C9] Insert and look up: what was just stored is found again until its hard deadline, even
  when it alone exceeds the byte budget, and the eviction that made room dropped only the
  least recently used entries and no more of them than both limits required.
\<close>

theorem memory_cache_set_get:
  assumes "mem_inv c" and "mem_Set k e c = (r, c')" and "\<not> hard_expired e now"
  shows "r = None \<and> fst (mem_Get now k c') = Inr (Some e) \<and>
    (let l = (k, e) # AList.delete k (lru c) in
       prefix (lru c') l \<and>
       (\<forall>n. length (lru c') < n \<and> n \<le> length l \<longrightarrow>
          mcapacity c < int n \<or> mmaxBytes c < total_size (take n l) \<and> 1 < n))"
proof -
  have ok: "store_ok c" using assms(1) by (simp add: mem_inv_def)
  have c': "mem_inv c'" "mem_look c' k = Some e" using mem_look_Set [OF assms(1,2)] by auto
  from mem_Set_refines [OF ok, of k e] assms(2)
  have l: "r = None" "lru c' = ashrink (mcapacity c) (mmaxBytes c) ((k, e) # AList.delete k (lru c))"
    by (auto simp: aset_def)
  have "fst (mem_Get now k c') = Inr (Some e)"
    using mem_Get_refines(1) [of c' now k] c' assms(3) by (simp add: mem_inv_def aget_def mem_look_def)
  then show ?thesis using l ashrink_prefix ashrink_maximal by (simp add: Let_def del: take_Suc_Cons)
qed

section \<open>Concrete stores\<close>

definition demo_entry :: "string \<Rightarrow> entry" where
  "demo_entry b = \<lparr>eHeaders = [(''Etag'', [''v1''])], ETag = ''v1'', Created = 0, Body = b, eTTL = 10, eSWR = 5, Status = 200\<rparr>"

definition demo_store :: memory_cache where
  "demo_store = snd (mem_Set ''a:m:1'' (demo_entry ''one'') (NewMemoryCacheWithLimits 2 64))"

lemma demo_store_inv: "mem_inv demo_store"
  using mem_look_Set [OF mem_inv_New] unfolding demo_store_def by (metis prod.collapse)

theorem memory_cache_refines_lru_witness:
  "mem_inv demo_store \<and> map fst (lru (snd (mem_DeleteMatching rev ''a:m:'' demo_store))) = []"
proof -
  have "map_order rev" by (simp add: map_order_def)
  from memory_cache_refines_lru [OF demo_store_inv this, of "''a:m:''" 0 "''x''" "demo_entry []"]
  have "lru (snd (mem_DeleteMatching rev ''a:m:'' demo_store)) = filter (\<lambda>(k, _). \<not> prefix ''a:m:'' k) (lru demo_store)"
    by (auto split: prod.splits)
  moreover have "lru demo_store = [(''a:m:1'', demo_entry ''one'')]"
    by (simp add: demo_store_def mem_Set_def NewMemoryCacheWithLimits_def evictToBudget.simps over_budget_def
        entrySize_def demo_entry_def lru_def)
  ultimately show ?thesis using demo_store_inv by simp
qed


theorem memory_cache_set_get_witness:
  "fst (mem_Get 15 ''a:m:2'' (snd (mem_Set ''a:m:2'' (demo_entry ''two'') demo_store))) = Inr (Some (demo_entry ''two''))"
proof -
  obtain r c' where run: "mem_Set ''a:m:2'' (demo_entry ''two'') demo_store = (r, c')" by fastforce
  have "\<not> hard_expired (demo_entry ''two'') 15"
    by (simp add: hard_expired_def demo_entry_def time_defs int64_defs)
  from memory_cache_set_get [OF demo_store_inv run this] run show ?thesis by simp
qed

end
