(* ===== verification/Rpc.thy ===== *)
theory Rpc
  imports Errors
begin

text \<open>
  The unary RPC as an interceptor sees it (\<^verbatim>\<open>connect.UnaryFunc\<close>, \<^verbatim>\<open>connect.AnyRequest\<close>,
  \<^verbatim>\<open>connect.Spec\<close>). A request's specification never changes; its header map is one mutable
  object that every interceptor of the chain and every attempt share, so it is threaded
  through a call beside the world. The locale \<open>call_bound\<close> is the contract an interceptor
  gives its caller about how often it invokes the next function; the chain theorems use
  its composition.
\<close>

datatype idempotency_level =
    IdempotencyUnknown | IdempotencyNoSideEffects | IdempotencyIdempotent

record spec =
  Procedure :: string
  IdempotencyLevel :: idempotency_level

record ctx =
  ctxDeadline :: "int option"
  ctxValues :: "(string \<times> string) list"

record 'm response =
  rspHeader :: header
  rspMsg :: 'm

type_synonym 'm rpc_result = "(err, 'm response) go_result"

type_synonym ('w, 'm) unary = "ctx \<Rightarrow> spec \<Rightarrow> (header \<times> 'w, 'm rpc_result) io"

text \<open>A client stream: its request header and its operations on messages of type \<open>'p\<close>.\<close>

record ('w, 'p) stream_conn =
  scHeader :: header
  scSend :: "'p \<Rightarrow> ('w, err option) io"
  scReceive :: "'p \<Rightarrow> ('w, err option) io"
  scCloseRequest :: "('w, err option) io"
  scCloseResponse :: "('w, err option) io"

type_synonym ('w, 'p) stream_client = "ctx \<Rightarrow> spec \<Rightarrow> ('w, ('w, 'p) stream_conn) io"

text \<open>
  Ghost instrumentation of a world: an operation of the environment leaves the ghost
  component alone, and the instrumented next function appends to it what each invocation
  was given (context, headers) and returned.
\<close>

definition lift_io :: "('w, 'a) io \<Rightarrow> ('g \<times> 'w, 'a) io" where
  "lift_io f = (\<lambda>(g, w). case f w of (a, w') \<Rightarrow> (a, g, w'))"

text \<open>An operation keeps an observation of the world when it never changes it.\<close>

definition keeps :: "('w \<Rightarrow> 'c) \<Rightarrow> ('w, 'a) io \<Rightarrow> bool" where
  "keeps obs f \<longleftrightarrow> (\<forall>w. obs (snd (f w)) = obs w)"

lemma keepsD: "keeps obs f \<Longrightarrow> f w = (a, w') \<Longrightarrow> obs w' = obs w"
  unfolding keeps_def by (metis snd_conv)

lemma keepsI: "(\<And>w a w'. f w = (a, w') \<Longrightarrow> obs w' = obs w) \<Longrightarrow> keeps obs f"
  unfolding keeps_def by (metis prod.collapse)

lemma keeps_lift [simp]: "keeps fst (lift_io f)"
  by (auto simp: keeps_def lift_io_def split: prod.splits)

lemma keeps_lift_snd [simp]: "keeps (\<lambda>w. obs (snd w)) (lift_io f) \<longleftrightarrow> keeps obs f"
  by (simp add: keeps_def lift_io_def case_prod_unfold)

record 'm attempt =
  attCtx :: ctx
  attHeader :: header
  attResult :: "'m rpc_result"

definition logged :: "('w, 'm) unary \<Rightarrow> ('m attempt list \<times> 'w, 'm) unary" where
  "logged next ctx sp =
     (\<lambda>(h, l, w). case next ctx sp (h, w) of
        (r, h', w') \<Rightarrow> (r, h', l @ [\<lparr>attCtx = ctx, attHeader = h, attResult = r\<rparr>], w'))"

definition counted :: "('w, 'm) unary \<Rightarrow> (nat \<times> 'w, 'm) unary" where
  "counted next ctx sp =
     (\<lambda>(h, n, w). case next ctx sp (h, w) of (r, h', w') \<Rightarrow> (r, h', Suc n, w'))"

lemma lift_ioE:
  assumes "lift_io f gw = (a, gw')"
  obtains w' where "f (snd gw) = (a, w')" and "gw' = (fst gw, w')"
  using assms by (cases gw) (auto simp: lift_io_def split: prod.splits)

lemma lift_io_fst: "lift_io f gw = (a, gw') \<Longrightarrow> fst gw' = fst gw"
  by (auto elim: lift_ioE)

definition adds_calls :: "('w \<Rightarrow> nat) \<Rightarrow> ('w, 'm) unary \<Rightarrow> nat \<Rightarrow> bool" where
  "adds_calls cost f m \<longleftrightarrow>
     (\<forall>ctx sp h w r h' w'. f ctx sp (h, w) = (r, h', w') \<longrightarrow> cost w' \<le> cost w + m)"

lemma adds_callsD: "adds_calls cost f m \<Longrightarrow> f ctx sp (h, w) = (r, h', w') \<Longrightarrow> cost w' \<le> cost w + m"
  unfolding adds_calls_def by blast

lemma adds_callsI:
  "(\<And>ctx sp h w r h' w'. f ctx sp (h, w) = (r, h', w') \<Longrightarrow> cost w' \<le> cost w + m) \<Longrightarrow> adds_calls cost f m"
  by (auto simp: adds_calls_def)

lemma adds_calls_counted: "adds_calls fst (counted next) 1"
  by (auto simp: adds_calls_def counted_def split: prod.splits)

locale call_bound =
  fixes cost :: "'w \<Rightarrow> nat"
    and wrap :: "('w, 'm) unary \<Rightarrow> ('w, 'm) unary"
    and k :: nat
  assumes wrap_calls: "adds_calls cost next m \<Longrightarrow> adds_calls cost (wrap next) (k * m)"

locale call_bound_pair =
  outer: call_bound cost wrap1 k1 + inner: call_bound cost wrap2 k2
  for cost :: "'w \<Rightarrow> nat" and wrap1 wrap2 :: "('w, 'm) unary \<Rightarrow> ('w, 'm) unary" and k1 k2
begin

sublocale both: call_bound cost "\<lambda>next. wrap1 (wrap2 next)" "k1 * k2"
proof unfold_locales
  fix "next" :: "('w, 'm) unary" and m
  assume "adds_calls cost next m"
  then have "adds_calls cost (wrap1 (wrap2 next)) (k1 * (k2 * m))"
    by (intro outer.wrap_calls inner.wrap_calls)
  then show "adds_calls cost (wrap1 (wrap2 next)) (k1 * k2 * m)"
    by (simp add: mult.assoc)
qed

lemma both_bound: "call_bound cost (\<lambda>next. wrap1 (wrap2 next)) (k1 * k2)"
  by (rule both.call_bound_axioms)

end

end
