(* ===== verification/Http.thy ===== *)
theory Http
  imports Rpc
begin

text \<open>
  What the HTTP-level components (the caching transport and the OAuth package) share of
  \<^verbatim>\<open>net/http\<close> and \<^verbatim>\<open>io\<close>: a response whose body is the bytes that can be read and the error, if
  any, behind them, and the bounded read of such a body.
\<close>

record http_response =
  StatusCode :: int
  respHeader :: header
  respBytes :: string
  respErr :: "err option"

text \<open>\<^verbatim>\<open>io.ReadAll(io.LimitReader(r, n))\<close> on a reader with these bytes and, behind them, an error or
  the end: a reader that stops at the limit never sees the error behind it, and a limit of zero or
  less is the empty stream.\<close>

definition limit_read :: "string \<Rightarrow> err option \<Rightarrow> int \<Rightarrow> err + string" where
  "limit_read bytes e n =
     (if n \<le> 0 then Inr []
      else if nat n \<le> length bytes then Inr (take (nat n) bytes)
      else case e of None \<Rightarrow> Inr bytes | Some e \<Rightarrow> Inl e)"

definition read_limited :: "http_response \<Rightarrow> int \<Rightarrow> err + string" where
  read_limited_eq: "read_limited resp n = limit_read (respBytes resp) (respErr resp) n"

lemmas read_limited_def = read_limited_eq [unfolded limit_read_def]

lemma read_limited_length: "read_limited resp n = Inr bs \<Longrightarrow> int (length bs) \<le> max 0 n"
  by (auto simp: read_limited_def split: if_splits option.splits)

abbreviation status_ok :: "int \<Rightarrow> bool" where
  "status_ok s \<equiv> 200 \<le> s \<and> s < 300"

end
