(* ===== verification/Cache_Transport.thy ===== *)
theory Cache_Transport
  imports Cache_Memory Http
begin

text \<open>
  The caching round tripper of \<^verbatim>\<open>src/caching/transport.go\<close>, with the keys of
  \<^verbatim>\<open>keys.go\<close> and the policies of \<^verbatim>\<open>options.go\<close>. The store is reached only through the
  operations of the \<^verbatim>\<open>Cache\<close> interface (record \<open>store_ops\<close>); SHA-256, the inner round
  tripper, the singleflight group and the two clocks are fields of the transport. A
  background refresh is a task queued in the state and run by \<open>run_background\<close>. The lemmas on
  where a served body comes from are proved once in the locale \<open>cache_store\<close>.
\<close>

section \<open>Requests, responses and policies\<close>

text \<open>A request body is nil, or bytes, or a reader that fails. A response body delivers bytes
  and then ends or fails.\<close>

datatype req_body = NilBody | BytesBody string | FailingBody err

record http_request =
  urlPath :: string
  urlQuery :: string
  reqHeader :: header
  reqBody :: req_body
  reqCtx :: ctx

record cache_spec =
  Invalidates :: "string list"
  sTTL :: int
  sSWR :: int
  NegativeTTL :: int

definition Cacheable :: "cache_spec \<Rightarrow> bool" where
  "Cacheable s \<longleftrightarrow> 0 < sTTL s"

definition DefaultMaxBodyBytes :: int where "DefaultMaxBodyBytes = 2 ^ 20"

record 's store_ops =
  opGet :: "int \<Rightarrow> string \<Rightarrow> 's \<Rightarrow> (err + entry option) \<times> 's"
  opSet :: "string \<Rightarrow> entry \<Rightarrow> 's \<Rightarrow> err option \<times> 's"
  opDeleteMatching :: "string \<Rightarrow> 's \<Rightarrow> err option \<times> 's"

record ('s, 'w) cache_options =
  Store :: "'s store_ops option"
  KeyScope :: "(ctx \<Rightarrow> string) option"
  MethodConfig :: "(string \<times> cache_spec) list"
  Logger :: bool
  Now :: "'w clock option"
  MaxBodyBytes :: int

text \<open>The dynamic type of a singleflight result.\<close>

datatype sf_value = SfEntry entry | SfOther

record ('s, 'w) transport =
  tInner :: "http_request \<Rightarrow> ('w, err + http_response) io"
  tJoin :: "string \<Rightarrow> ('w, (err + sf_value) option) io"
  tStore :: "'s store_ops"
  tScope :: "ctx \<Rightarrow> string"
  tMethods :: "(string \<times> cache_spec) list"
  tLogger :: bool
  tNow :: "'w clock"
  tStoreNow :: "'w clock"
  tMaxBody :: int
  tSha256 :: "string \<Rightarrow> string"

record bg_task =
  bgReq :: http_request
  bgKey :: string
  bgSpec :: cache_spec
  bgPrev :: entry
  bgBody :: string

record ('s, 'w) tstate =
  tsStore :: 's
  tsBackground :: "bg_task list"
  tsLog :: "(string \<times> string \<times> int option) list"
  tsWorld :: 'w

definition ErrCorruptSingleflight :: err where
  "ErrCorruptSingleflight = ESentinel (Sentinel ''caching: corrupt singleflight result'')"

definition ErrBodyTooLarge :: err where
  "ErrBodyTooLarge = ESentinel (Sentinel ''caching: response body too large'')"

section \<open>Keys\<close>

definition BuildKey :: "(string \<Rightarrow> string) \<Rightarrow> string \<Rightarrow> string \<Rightarrow> string \<Rightarrow> string" where
  "BuildKey sha256 scope method body = scope @ '':'' @ method @ '':'' @ hex_encode (sha256 body)"

text \<open>Returns the bytes to hash and the request with a fresh reader over them.\<close>

definition readAndRestoreBody :: "http_request \<Rightarrow> err + (string \<times> http_request)" where
  "readAndRestoreBody req =
     (case reqBody req of
        NilBody \<Rightarrow> Inr ([], req)
      | FailingBody e \<Rightarrow> Inl (EWrap ''caching: read request body'' e)
      | BytesBody bs \<Rightarrow> Inr (bs, req\<lparr>reqBody := BytesBody bs\<rparr>))"

definition serviceFromMethod :: "string \<Rightarrow> string" where
  "serviceFromMethod method =
     (let i = LastIndex method CHR ''/'' in if i \<le> 0 then method else take (nat (i + 1)) method)"

section \<open>Responses and entries\<close>

definition cloneHeaders :: "header \<Rightarrow> header" where
  "cloneHeaders h = foldl (\<lambda>out (k, v). AList.update k v out) [] h"

definition pickETag :: "header \<Rightarrow> string \<Rightarrow> string" where
  "pickETag respHeaders fallback = (let e = hdr_get respHeaders ''ETag'' in if e \<noteq> [] then e else fallback)"

definition bufferResponse :: "http_response \<Rightarrow> int \<Rightarrow> int \<Rightarrow> int \<Rightarrow> int \<Rightarrow> err + entry" where
  "bufferResponse resp ttl swr now maxBody =
     (case read_limited resp (wrap64 (maxBody + 1)) of
        Inl e \<Rightarrow> Inl (EWrap ''caching: read response body'' e)
      | Inr body \<Rightarrow>
          if maxBody < int (length body) then Inl (EWrap ''response exceeds limit'' ErrBodyTooLarge)
          else Inr \<lparr>eHeaders = cloneHeaders (respHeader resp), ETag = hdr_get (respHeader resp) ''ETag'',
                    Created = now, Body = body, eTTL = ttl, eSWR = swr, Status = StatusCode resp\<rparr>)"

text \<open>The response a caller sees; the status line, the protocol fields and \<^verbatim>\<open>Request\<close> are
  functions of these.\<close>

definition responseFromEntry :: "entry \<Rightarrow> http_response" where
  "responseFromEntry e =
     \<lparr>StatusCode = Status e, respHeader = cloneHeaders (eHeaders e), respBytes = Body e, respErr = None\<rparr>"

definition maxBodyBytes :: "('s, 'w) transport \<Rightarrow> int" where
  "maxBodyBytes t = (if 0 < tMaxBody t then tMaxBody t else DefaultMaxBodyBytes)"

text \<open>\<^verbatim>\<open>Duration.Milliseconds\<close> truncates towards zero.\<close>

definition Milliseconds :: "int \<Rightarrow> int" where
  "Milliseconds d = (if 0 \<le> d then d div 1000000 else - ((- d) div 1000000))"

definition cache_log :: "('s, 'w) transport \<Rightarrow> string \<Rightarrow> string \<Rightarrow> entry option \<Rightarrow> int \<Rightarrow>
    ('s, 'w) tstate \<Rightarrow> ('s, 'w) tstate" where
  "cache_log t outcome method e now st =
     (if \<not> tLogger t then st
      else st\<lparr>tsLog := tsLog st @
        [(outcome, method, map_option (\<lambda>e. Milliseconds (time_sub now (Created e))) e)]\<rparr>)"

section \<open>Fetching\<close>

definition read_now :: "('s, 'w) transport \<Rightarrow> ('s, 'w) tstate \<Rightarrow> int \<times> ('s, 'w) tstate" where
  "read_now t st = (case tNow t (tsWorld st) of (now, w) \<Rightarrow> (now, st\<lparr>tsWorld := w\<rparr>))"

definition store_set :: "('s, 'w) transport \<Rightarrow> string \<Rightarrow> entry \<Rightarrow> ('s, 'w) tstate \<Rightarrow> ('s, 'w) tstate" where
  "store_set t key e st = (case opSet (tStore t) key e (tsStore st) of (_, s) \<Rightarrow> st\<lparr>tsStore := s\<rparr>)"

definition store_buffered ::
  "('s, 'w) transport \<Rightarrow> string \<Rightarrow> err + entry \<Rightarrow> ('s, 'w) tstate \<Rightarrow> (err + entry) \<times> ('s, 'w) tstate" where
  "store_buffered t key r st =
     (case r of Inl e \<Rightarrow> (Inl e, st) | Inr en \<Rightarrow> (Inr en, store_set t key en st))"

definition processResponse ::
  "('s, 'w) transport \<Rightarrow> string \<Rightarrow> cache_spec \<Rightarrow> entry \<Rightarrow> bool \<Rightarrow> http_response \<Rightarrow>
   ('s, 'w) tstate \<Rightarrow> (err + entry) \<times> ('s, 'w) tstate" where
  "processResponse t key spec prev hadPrev resp st =
     (case read_now t st of
        (now, st1) \<Rightarrow>
          if StatusCode resp = 304 \<and> hadPrev then
            (let refreshed = \<lparr>eHeaders = eHeaders prev, ETag = pickETag (respHeader resp) (ETag prev),
                   Created = now, Body = Body prev, eTTL = sTTL spec, eSWR = sSWR spec, Status = Status prev\<rparr>
             in (Inr refreshed, store_set t key refreshed st1))
          else if StatusCode resp = 404 \<and> 0 < NegativeTTL spec then
            store_buffered t key (bufferResponse resp (NegativeTTL spec) 0 now (maxBodyBytes t)) st1
          else if 200 \<le> StatusCode resp \<and> StatusCode resp < 300 then
            store_buffered t key (bufferResponse resp (sTTL spec) (sSWR spec) now (maxBodyBytes t)) st1
          else (bufferResponse resp 0 0 now (maxBodyBytes t), st1))"

definition singleflightFetch ::
  "('s, 'w) transport \<Rightarrow> ctx \<Rightarrow> http_request \<Rightarrow> cache_spec \<Rightarrow> string \<Rightarrow> entry \<Rightarrow> bool \<Rightarrow> string \<Rightarrow>
   ('s, 'w) tstate \<Rightarrow> (err + entry) \<times> ('s, 'w) tstate" where
  "singleflightFetch t ctx req spec body prev hadPrev key st =
     (let cloned = req\<lparr>reqCtx := ctx, reqBody := BytesBody body\<rparr>;
          cloned = (if hadPrev \<and> ETag prev \<noteq> []
                    then cloned\<lparr>reqHeader := hdr_set (reqHeader cloned) ''If-None-Match'' (ETag prev)\<rparr>
                    else cloned)
      in case tInner t cloned (tsWorld st) of
           (Inl e, w) \<Rightarrow> (Inl (EWrap ''caching: inner roundtrip'' e), st\<lparr>tsWorld := w\<rparr>)
         | (Inr resp, w) \<Rightarrow> processResponse t key spec prev hadPrev resp (st\<lparr>tsWorld := w\<rparr>))"

text \<open>
  \<^verbatim>\<open>sf.Do(key, fn)\<close>: when a call with the same key is in flight, its result is shared
  (\<open>tJoin\<close> gives it); otherwise \<^verbatim>\<open>fn\<close> runs.
\<close>

definition sf_Do ::
  "('s, 'w) transport \<Rightarrow> string \<Rightarrow> (('s, 'w) tstate \<Rightarrow> (err + entry) \<times> ('s, 'w) tstate) \<Rightarrow>
   ('s, 'w) tstate \<Rightarrow> (err + sf_value) \<times> ('s, 'w) tstate" where
  "sf_Do t key fn st =
     (case tJoin t key (tsWorld st) of
        (Some r, w) \<Rightarrow> (r, st\<lparr>tsWorld := w\<rparr>)
      | (None, w) \<Rightarrow>
          (case fn (st\<lparr>tsWorld := w\<rparr>) of
             (Inl e, st') \<Rightarrow> (Inl e, st')
           | (Inr en, st') \<Rightarrow> (Inr (SfEntry en), st')))"

definition fetchAndCache ::
  "('s, 'w) transport \<Rightarrow> http_request \<Rightarrow> string \<Rightarrow> cache_spec \<Rightarrow> string \<Rightarrow> entry \<Rightarrow> bool \<Rightarrow>
   ('s, 'w) tstate \<Rightarrow> (err + http_response) \<times> ('s, 'w) tstate" where
  "fetchAndCache t req key spec body prev hadPrev st =
     (case sf_Do t key (singleflightFetch t (reqCtx req) req spec body prev hadPrev key) st of
        (Inl e, st') \<Rightarrow> (Inl (EWrap ''caching: singleflight'' e), st')
      | (Inr (SfEntry cached), st') \<Rightarrow> (Inr (responseFromEntry cached), st')
      | (Inr SfOther, st') \<Rightarrow> (Inl ErrCorruptSingleflight, st'))"

definition WithoutCancel :: "ctx \<Rightarrow> ctx" where
  "WithoutCancel ctx = ctx\<lparr>ctxDeadline := None\<rparr>"

definition refreshAsync ::
  "http_request \<Rightarrow> string \<Rightarrow> cache_spec \<Rightarrow> entry \<Rightarrow> string \<Rightarrow> ('s, 'w) tstate \<Rightarrow> ('s, 'w) tstate" where
  "refreshAsync req key spec prev body st =
     st\<lparr>tsBackground := tsBackground st @
        [\<lparr>bgReq = req, bgKey = key, bgSpec = spec, bgPrev = prev, bgBody = body\<rparr>]\<rparr>"

text \<open>The goroutine \<^verbatim>\<open>refreshAsync\<close> starts: one queued refresh runs to its end.\<close>

definition run_task :: "('s, 'w) transport \<Rightarrow> bg_task \<Rightarrow> ('s, 'w) tstate \<Rightarrow> ('s, 'w) tstate" where
  "run_task t b st =
     snd (sf_Do t (bgKey b)
       (singleflightFetch t (WithoutCancel (reqCtx (bgReq b))) (bgReq b) (bgSpec b) (bgBody b) (bgPrev b) True (bgKey b)) st)"

section \<open>Round trips\<close>

fun invalidate_loop :: "('s, 'w) transport \<Rightarrow> string \<Rightarrow> string \<Rightarrow> string list \<Rightarrow> ('s, 'w) tstate \<Rightarrow> ('s, 'w) tstate" where
  "invalidate_loop t scope service [] st = st"
| "invalidate_loop t scope service (m # ms) st =
     (case opDeleteMatching (tStore t) (scope @ '':'' @ service @ m @ '':'') (tsStore st) of
        (_, s) \<Rightarrow> invalidate_loop t scope service ms (st\<lparr>tsStore := s\<rparr>))"

definition forwardAndInvalidate ::
  "('s, 'w) transport \<Rightarrow> http_request \<Rightarrow> cache_spec \<Rightarrow> string \<Rightarrow> string \<Rightarrow>
   ('s, 'w) tstate \<Rightarrow> (err + http_response) \<times> ('s, 'w) tstate" where
  "forwardAndInvalidate t req spec scope writeMethod st =
     (case tInner t req (tsWorld st) of
        (Inl e, w) \<Rightarrow> (Inl (EWrap ''caching: inner roundtrip'' e), st\<lparr>tsWorld := w\<rparr>)
      | (Inr resp, w) \<Rightarrow>
          if StatusCode resp < 200 \<or> 300 \<le> StatusCode resp then (Inr resp, st\<lparr>tsWorld := w\<rparr>)
          else (Inr resp, invalidate_loop t scope (serviceFromMethod writeMethod) (Invalidates spec) (st\<lparr>tsWorld := w\<rparr>)))"

definition forward :: "('s, 'w) transport \<Rightarrow> http_request \<Rightarrow> ('s, 'w) tstate \<Rightarrow> (err + http_response) \<times> ('s, 'w) tstate" where
  "forward t req st =
     (case tInner t req (tsWorld st) of
        (Inl e, w) \<Rightarrow> (Inl (EWrap ''caching: inner roundtrip'' e), st\<lparr>tsWorld := w\<rparr>)
      | (Inr resp, w) \<Rightarrow> (Inr resp, st\<lparr>tsWorld := w\<rparr>))"

text \<open>The zero \<^verbatim>\<open>Entry{}\<close> a miss returns.\<close>

definition zero_entry :: entry where
  "zero_entry = \<lparr>eHeaders = [], ETag = [], Created = 0, Body = [], eTTL = 0, eSWR = 0, Status = 0\<rparr>"

definition store_get :: "('s, 'w) transport \<Rightarrow> string \<Rightarrow> ('s, 'w) tstate \<Rightarrow> entry option \<times> ('s, 'w) tstate" where
  "store_get t key st =
     (case tStoreNow t (tsWorld st) of
        (now, w) \<Rightarrow>
          (case opGet (tStore t) now key (tsStore st) of
             (Inr r, s) \<Rightarrow> (r, st\<lparr>tsStore := s, tsWorld := w\<rparr>)
           | (Inl _, s) \<Rightarrow> (None, st\<lparr>tsStore := s, tsWorld := w\<rparr>)))"

definition RoundTrip ::
  "('s, 'w) transport \<Rightarrow> http_request \<Rightarrow> ('s, 'w) tstate \<Rightarrow> (err + http_response) \<times> ('s, 'w) tstate" where
  "RoundTrip t req st =
     (let method = urlPath req in
      case map_of (tMethods t) method of
        None \<Rightarrow> forward t req st
      | Some spec \<Rightarrow>
          (let scope = tScope t (reqCtx req) in
           if \<not> Cacheable spec then forwardAndInvalidate t req spec scope method st
           else
             (case readAndRestoreBody req of
                Inl e \<Rightarrow> (Inl e, st)
              | Inr (body, req') \<Rightarrow>
                  (let key = BuildKey (tSha256 t) scope method body in
                   case read_now t st of
                     (now, st1) \<Rightarrow>
                       (case store_get t key st1 of
                          (Some e, st2) \<Rightarrow>
                            if \<not> Expired e now
                            then (Inr (responseFromEntry e), cache_log t ''hit'' method (Some e) now st2)
                            else if Stale e now
                            then (Inr (responseFromEntry e),
                                  cache_log t ''swr-hit'' method (Some e) now (refreshAsync req' key spec e body st2))
                            else fetchAndCache t req' key spec body e True (cache_log t ''miss'' method None now st2)
                        | (None, st2) \<Rightarrow>
                            fetchAndCache t req' key spec body zero_entry False
                              (cache_log t ''miss'' method None now st2))))))"

definition cache_Transport ::
  "(http_request \<Rightarrow> ('w, err + http_response) io) \<Rightarrow> (string \<Rightarrow> ('w, (err + sf_value) option) io) \<Rightarrow>
   (string \<Rightarrow> string) \<Rightarrow> 'w clock \<Rightarrow> 'w clock \<Rightarrow> ('s, 'w) cache_options \<Rightarrow>
   http_request \<Rightarrow> ('s, 'w) tstate \<Rightarrow> (err + http_response) \<times> ('s, 'w) tstate" where
  "cache_Transport inner join sha wallclock storeclock opts req st =
     (case (Store opts, KeyScope opts) of
        (Some store, Some scope) \<Rightarrow>
          RoundTrip \<lparr>tInner = inner, tJoin = join, tStore = store, tScope = scope, tMethods = MethodConfig opts,
             tLogger = Logger opts, tNow = (case Now opts of None \<Rightarrow> wallclock | Some clk \<Rightarrow> clk),
             tStoreNow = storeclock, tMaxBody = MaxBodyBytes opts, tSha256 = sha\<rparr> req st
      | _ \<Rightarrow> (case inner req (tsWorld st) of (r, w) \<Rightarrow> (r, st\<lparr>tsWorld := w\<rparr>)))"

section \<open>Keys identify scope, method and body digest\<close>

lemma colon_split:
  "CHR '':'' \<notin> set a \<Longrightarrow> CHR '':'' \<notin> set b \<Longrightarrow> a @ CHR '':'' # x = b @ CHR '':'' # y \<Longrightarrow> a = b \<and> x = y"
proof (induction a arbitrary: b)
  case Nil
  then show ?case by (cases b) auto
next
  case (Cons c a)
  then show ?case by (cases b) auto
qed


section \<open>Where a served body comes from\<close>

text \<open>
  The world is instrumented with the list of exchanges the inner round tripper completed.
  \<open>produced\<close> says that an entry holds the status, headers and body of an exchange whose
  request has the entry's key.
\<close>

type_synonym exchanges = "(http_request \<times> http_response) list"

definition request_key :: "('s, 'w) transport \<Rightarrow> http_request \<Rightarrow> string \<Rightarrow> string" where
  "request_key t req body = BuildKey (tSha256 t) (tScope t (reqCtx req)) (urlPath req) body"

definition fetched :: "('s, 'w) transport \<Rightarrow> string \<Rightarrow> http_response \<Rightarrow> exchanges \<Rightarrow> bool" where
  "fetched t key resp xlog \<longleftrightarrow>
     (\<exists>req body. (req, resp) \<in> set xlog \<and> reqBody req = BytesBody body \<and> request_key t req body = key \<and>
        urlPath req \<in> fst ` set (tMethods t))"

definition produced :: "('s, 'w) transport \<Rightarrow> string \<Rightarrow> entry \<Rightarrow> exchanges \<Rightarrow> bool" where
  "produced t key e xlog \<longleftrightarrow>
     (\<exists>resp. fetched t key resp xlog \<and> respErr resp = None \<and> Status e = StatusCode resp \<and>
        Body e = respBytes resp \<and> eHeaders e = cloneHeaders (respHeader resp))"

lemma fetched_mono: "fetched t k r l \<Longrightarrow> set l \<subseteq> set l' \<Longrightarrow> fetched t k r l'"
  unfolding fetched_def by blast

lemma produced_mono: "produced t k e l \<Longrightarrow> set l \<subseteq> set l' \<Longrightarrow> produced t k e l'"
  unfolding produced_def by (blast intro: fetched_mono)

text \<open>What is assumed of the surroundings: the inner round tripper's exchanges are the ones
  recorded, the clocks record none, and singleflight shares the result of a call with the same
  key.\<close>

definition observed :: "('s, exchanges \<times> 'w) transport \<Rightarrow> bool" where
  "observed t \<longleftrightarrow>
     (\<forall>req l w r l' w'. tInner t req (l, w) = (r, l', w') \<longrightarrow>
        l' = (case r of Inl _ \<Rightarrow> l | Inr resp \<Rightarrow> l @ [(req, resp)])) \<and>
     (\<forall>w. fst (snd (tNow t w)) = fst w) \<and> (\<forall>w. fst (snd (tStoreNow t w)) = fst w) \<and>
     (\<forall>key l w r l' w'. tJoin t key (l, w) = (r, l', w') \<longrightarrow>
        set l \<subseteq> set l' \<and> (\<forall>e. r = Some (Inr (SfEntry e)) \<longrightarrow> produced t key e l'))"

lemma observed_inner:
  assumes "observed t" and "tInner t req w = (r, w')"
  shows "fst w' = (case r of Inl _ \<Rightarrow> fst w | Inr resp \<Rightarrow> fst w @ [(req, resp)])"
  using assms unfolding observed_def by (metis prod.collapse)

lemma observed_clocks:
  assumes "observed t"
  shows "tNow t w = (n, w') \<Longrightarrow> fst w' = fst w" and "tStoreNow t w = (n, w') \<Longrightarrow> fst w' = fst w"
  using assms unfolding observed_def by (metis fst_conv snd_conv)+

lemma observed_join:
  assumes "observed t" and "tJoin t key w = (r, w')"
  shows "set (fst w) \<subseteq> set (fst w')" and "r = Some (Inr (SfEntry e)) \<Longrightarrow> produced t key e (fst w')"
  using assms unfolding observed_def by (metis prod.collapse)+

definition scope_from_values :: "(ctx \<Rightarrow> string) \<Rightarrow> bool" where
  "scope_from_values f \<longleftrightarrow> (\<forall>c. f (WithoutCancel c) = f c)"

definition task_ok :: "('s, 'w) transport \<Rightarrow> exchanges \<Rightarrow> bg_task \<Rightarrow> bool" where
  "task_ok t xlog b \<longleftrightarrow> bgKey b = request_key t (bgReq b) (bgBody b) \<and>
     urlPath (bgReq b) \<in> fst ` set (tMethods t) \<and> produced t (bgKey b) (bgPrev b) xlog"

definition tinv :: "('s \<Rightarrow> string \<Rightarrow> entry option) \<Rightarrow> ('s \<Rightarrow> bool) \<Rightarrow> ('s, exchanges \<times> 'w) transport \<Rightarrow>
    ('s, exchanges \<times> 'w) tstate \<Rightarrow> bool" where
  "tinv look sinv t st \<longleftrightarrow> sinv (tsStore st) \<and>
     (\<forall>k e. look (tsStore st) k = Some e \<longrightarrow> produced t k e (fst (tsWorld st))) \<and>
     (\<forall>b\<in>set (tsBackground st). task_ok t (fst (tsWorld st)) b)"

lemma task_ok_mono: "task_ok t l b \<Longrightarrow> set l \<subseteq> set l' \<Longrightarrow> task_ok t l' b"
  unfolding task_ok_def by (blast intro: produced_mono)

lemma bufferResponse_full:
  assumes "bufferResponse resp ttl swr now mb = Inr e" and "0 < mb" and "mb < max_int64"
  shows "respErr resp = None \<and> Status e = StatusCode resp \<and> Body e = respBytes resp \<and>
    eHeaders e = cloneHeaders (respHeader resp)"
proof -
  have "wrap64 (mb + 1) = mb + 1" using assms(2,3) by (intro wrap64_id) (simp add: in_int64_def min_int64_def)
  with assms show ?thesis
    by (auto simp: bufferResponse_def read_limited_def split: if_splits option.splits sum.splits)
qed

lemma maxBodyBytes_pos: "0 < maxBodyBytes t"
  by (simp add: maxBodyBytes_def DefaultMaxBodyBytes_def)

lemma RoundTrip_cached:
  assumes "map_of (tMethods t) (urlPath req) = Some spec" and "Cacheable spec"
    and "readAndRestoreBody req = Inr (body, req')"
    and "read_now t st = (now, st1)" and "store_get t (request_key t req body) st1 = (g, st2)"
  shows "RoundTrip t req st =
    (case g of
       Some e \<Rightarrow>
         if \<not> Expired e now
         then (Inr (responseFromEntry e), cache_log t ''hit'' (urlPath req) (Some e) now st2)
         else if Stale e now
         then (Inr (responseFromEntry e), cache_log t ''swr-hit'' (urlPath req) (Some e) now
                 (refreshAsync req' (request_key t req body) spec e body st2))
         else fetchAndCache t req' (request_key t req body) spec body e True
                (cache_log t ''miss'' (urlPath req) None now st2)
     | None \<Rightarrow> fetchAndCache t req' (request_key t req body) spec body zero_entry False
                (cache_log t ''miss'' (urlPath req) None now st2))"
  using assms unfolding request_key_def by (simp add: RoundTrip_def Let_def)

text \<open>The transport's steps: a whole round trip, or one queued refresh, in any order.\<close>

inductive tstep :: "('s, 'w) transport \<Rightarrow> ('s, 'w) tstate \<Rightarrow> ('s, 'w) tstate \<Rightarrow> bool" for t where
  tstep_call: "RoundTrip t req st = (r, st') \<Longrightarrow> tstep t st st'"
| tstep_refresh: "tsBackground st = as @ b # bs \<Longrightarrow> tstep t st (run_task t b (st\<lparr>tsBackground := as @ bs\<rparr>))"

locale caching = cache_store cget cset cdelete cdelete_matching look sinv
  for cget cset cdelete cdelete_matching and look :: "'s \<Rightarrow> string \<Rightarrow> entry option" and sinv +
  fixes t :: "('s, exchanges \<times> 'w) transport"
  assumes store: "tStore t = \<lparr>opGet = cget, opSet = cset, opDeleteMatching = cdelete_matching\<rparr>"
    and obs: "observed t"
    and scope: "scope_from_values (tScope t)"
    and body_cap: "maxBodyBytes t < max_int64"
begin

abbreviation inv where "inv \<equiv> tinv look sinv t"

abbreviation grows :: "('s, exchanges \<times> 'w) tstate \<Rightarrow> ('s, exchanges \<times> 'w) tstate \<Rightarrow> bool" where
  "grows st st' \<equiv> set (fst (tsWorld st)) \<subseteq> set (fst (tsWorld st'))"

lemma inv_world: "inv st \<Longrightarrow> set (fst (tsWorld st)) \<subseteq> set (fst w) \<Longrightarrow> inv (st\<lparr>tsWorld := w\<rparr>)"
  unfolding tinv_def by (simp, blast intro: produced_mono task_ok_mono)

lemma inv_log: "inv (st\<lparr>tsLog := l\<rparr>) \<longleftrightarrow> inv st"
  by (simp add: tinv_def)

lemma inv_store: "inv st \<Longrightarrow> sinv s \<Longrightarrow> look s \<subseteq>\<^sub>m look (tsStore st) \<Longrightarrow> inv (st\<lparr>tsStore := s\<rparr>)"
  unfolding tinv_def by (auto simp: map_le_def dom_def)

lemma store_set_inv:
  assumes "inv st" and "produced t key e (fst (tsWorld st))"
  shows "inv (store_set t key e st) \<and> tsWorld (store_set t key e st) = tsWorld st"
proof -
  obtain r s where run: "cset key e (tsStore st) = (r, s)" by (metis surj_pair)
  have "sinv s" "look s \<subseteq>\<^sub>m (look (tsStore st))(key \<mapsto> e)" using set_inv [OF _ run] assms(1) by (auto simp: tinv_def)
  moreover have "produced t k e' (fst (tsWorld st))" if "look s k = Some e'" for k e'
  proof -
    have "((look (tsStore st))(key \<mapsto> e)) k = Some e'" using calculation(2) that by (metis domI map_le_def)
    then show ?thesis using assms by (auto simp: tinv_def split: if_splits)
  qed
  ultimately have "inv (st\<lparr>tsStore := s\<rparr>)" using assms(1) by (simp add: tinv_def)
  then show ?thesis by (simp add: store_set_def store run)
qed

lemma read_now_inv: "inv st \<Longrightarrow> read_now t st = (now, st') \<Longrightarrow> inv st' \<and> fst (tsWorld st') = fst (tsWorld st)"
proof -
  assume inv: "inv st" and run: "read_now t st = (now, st')"
  obtain n w where n: "tNow t (tsWorld st) = (n, w)" by (metis surj_pair)
  have "fst w = fst (tsWorld st)" using observed_clocks(1) [OF obs n] .
  then show ?thesis using inv_world [OF inv, of w] run n by (auto simp: read_now_def)
qed

lemma buffer_produced:
  "bufferResponse resp ttl swr now (maxBodyBytes t) = Inr e \<Longrightarrow> fetched t key resp l \<Longrightarrow> produced t key e l"
  using bufferResponse_full [OF _ maxBodyBytes_pos body_cap] unfolding produced_def by blast

lemma store_buffered_inv:
  assumes "inv st" and "fetched t key resp (fst (tsWorld st))"
    and "store_buffered t key (bufferResponse resp ttl swr now (maxBodyBytes t)) st = (r, st')"
  shows "inv st' \<and> fst (tsWorld st') = fst (tsWorld st) \<and> (\<forall>e. r = Inr e \<longrightarrow> produced t key e (fst (tsWorld st')))"
proof (cases "bufferResponse resp ttl swr now (maxBodyBytes t)")
  case (Inl e)
  then show ?thesis using assms by (auto simp: store_buffered_def)
next
  case (Inr e)
  from buffer_produced [OF Inr assms(2)] store_set_inv [OF assms(1)] Inr assms(3) show ?thesis
    by (auto simp: store_buffered_def)
qed

lemma processResponse_inv:
  assumes inv: "inv st" and f: "fetched t key resp (fst (tsWorld st))"
    and prev: "hadPrev \<Longrightarrow> produced t key prev (fst (tsWorld st))"
    and run: "processResponse t key spec prev hadPrev resp st = (r, st')"
  shows "inv st' \<and> fst (tsWorld st') = fst (tsWorld st) \<and> (\<forall>e. r = Inr e \<longrightarrow> produced t key e (fst (tsWorld st')))"
proof -
  obtain now st1 where n: "read_now t st = (now, st1)" by (metis surj_pair)
  have st1: "inv st1" "fst (tsWorld st1) = fst (tsWorld st)" using read_now_inv [OF inv n] by auto
  consider "StatusCode resp = 304 \<and> hadPrev"
    | ttl swr where "store_buffered t key (bufferResponse resp ttl swr now (maxBodyBytes t)) st1 = (r, st')"
    | "r = bufferResponse resp 0 0 now (maxBodyBytes t)" "st' = st1"
    using run unfolding processResponse_def n prod.case by (metis prod.inject)
  then show ?thesis
  proof cases
    case 1
    let ?e = "\<lparr>eHeaders = eHeaders prev, ETag = pickETag (respHeader resp) (ETag prev), Created = now,
       Body = Body prev, eTTL = sTTL spec, eSWR = sSWR spec, Status = Status prev\<rparr>"
    have p: "produced t key ?e (fst (tsWorld st1))" using prev 1 st1(2) by (simp add: produced_def)
    then show ?thesis using store_set_inv [OF st1(1) p] run 1 st1(2)
      by (auto simp: processResponse_def n Let_def)
  next
    case 2
    then show ?thesis using store_buffered_inv [OF st1(1) _ 2] f st1(2) by auto
  next
    case 3
    then show ?thesis using st1 f buffer_produced by metis
  qed
qed

lemma singleflightFetch_inv:
  assumes inv: "inv st" and prev: "hadPrev \<Longrightarrow> produced t key prev (fst (tsWorld st))"
    and key: "key = BuildKey (tSha256 t) (tScope t ctx) (urlPath req) body"
    and m: "urlPath req \<in> fst ` set (tMethods t)"
    and run: "singleflightFetch t ctx req spec body prev hadPrev key st = (r, st')"
  shows "inv st' \<and> grows st st' \<and> (\<forall>e. r = Inr e \<longrightarrow> produced t key e (fst (tsWorld st')))"
proof -
  define cl where "cl = (let c = req\<lparr>reqCtx := ctx, reqBody := BytesBody body\<rparr> in
     if hadPrev \<and> ETag prev \<noteq> [] then c\<lparr>reqHeader := hdr_set (reqHeader c) ''If-None-Match'' (ETag prev)\<rparr> else c)"
  have cl: "reqBody cl = BytesBody body" "request_key t cl body = key" "urlPath cl \<in> fst ` set (tMethods t)"
    using key m by (auto simp: cl_def Let_def request_key_def)
  have run': "(case tInner t cl (tsWorld st) of
      (Inl e, w) \<Rightarrow> (Inl (EWrap ''caching: inner roundtrip'' e), st\<lparr>tsWorld := w\<rparr>)
    | (Inr resp, w) \<Rightarrow> processResponse t key spec prev hadPrev resp (st\<lparr>tsWorld := w\<rparr>)) = (r, st')"
    using run by (simp add: singleflightFetch_def cl_def Let_def)
  obtain ir w where i: "tInner t cl (tsWorld st) = (ir, w)" by (metis surj_pair)
  note fw = observed_inner [OF obs i]
  then have sub: "set (fst (tsWorld st)) \<subseteq> set (fst w)" by (auto split: sum.splits)
  note inv' = inv_world [OF inv sub]
  show ?thesis
  proof (cases ir)
    case (Inl e)
    then show ?thesis using run' i inv' sub by auto
  next
    case (Inr resp)
    have "fetched t key resp (fst w)" using fw Inr cl by (auto simp: fetched_def)
    moreover have "hadPrev \<Longrightarrow> produced t key prev (fst w)" using prev sub by (blast intro: produced_mono)
    ultimately show ?thesis
      using processResponse_inv [OF inv', of key resp hadPrev prev spec r st'] run' i Inr sub by auto
  qed
qed

lemma sf_Do_inv:
  assumes inv: "inv st"
    and fn: "\<And>st1 r st'. inv st1 \<Longrightarrow> grows st st1 \<Longrightarrow> fn st1 = (r, st') \<Longrightarrow>
       inv st' \<and> grows st1 st' \<and> (\<forall>e. r = Inr e \<longrightarrow> produced t key e (fst (tsWorld st')))"
    and run: "sf_Do t key fn st = (r, st')"
  shows "inv st' \<and> grows st st' \<and> (\<forall>e. r = Inr (SfEntry e) \<longrightarrow> produced t key e (fst (tsWorld st')))"
proof -
  obtain j w where j: "tJoin t key (tsWorld st) = (j, w)" by (metis surj_pair)
  note jo = observed_join [OF obs j]
  note inv' = inv_world [OF inv jo(1)]
  show ?thesis
  proof (cases j)
    case (Some r0)
    then show ?thesis using run j inv' jo by (auto simp: sf_Do_def)
  next
    case None
    obtain r1 st1 where f: "fn (st\<lparr>tsWorld := w\<rparr>) = (r1, st1)" by (metis surj_pair)
    from fn [OF inv' _ f] jo(1) have "inv st1 \<and> set (fst w) \<subseteq> set (fst (tsWorld st1)) \<and>
      (\<forall>e. r1 = Inr e \<longrightarrow> produced t key e (fst (tsWorld st1)))" by auto
    then show ?thesis using run j None f jo(1) by (auto simp: sf_Do_def split: sum.splits)
  qed
qed

lemma run_task_inv:
  assumes "inv st" and "task_ok t (fst (tsWorld st)) b"
  shows "inv (run_task t b st) \<and> grows st (run_task t b st)"
proof -
  obtain r st' where run: "sf_Do t (bgKey b) (singleflightFetch t (WithoutCancel (reqCtx (bgReq b))) (bgReq b)
      (bgSpec b) (bgBody b) (bgPrev b) True (bgKey b)) st = (r, st')" by (metis surj_pair)
  have key: "bgKey b = BuildKey (tSha256 t) (tScope t (WithoutCancel (reqCtx (bgReq b)))) (urlPath (bgReq b)) (bgBody b)"
    using assms(2) scope by (simp add: task_ok_def request_key_def scope_from_values_def)
  have "inv st' \<and> grows st st' \<and> (\<forall>e. r = Inr (SfEntry e) \<longrightarrow> produced t (bgKey b) e (fst (tsWorld st')))"
  proof (rule sf_Do_inv [OF assms(1) _ run])
    fix st1 r st' assume "inv st1" "grows st st1"
      and f: "singleflightFetch t (WithoutCancel (reqCtx (bgReq b))) (bgReq b) (bgSpec b) (bgBody b) (bgPrev b) True (bgKey b) st1 = (r, st')"
    moreover have "produced t (bgKey b) (bgPrev b) (fst (tsWorld st1))"
      using assms(2) \<open>grows st st1\<close> by (auto simp: task_ok_def intro: produced_mono)
    ultimately show "inv st' \<and> grows st1 st' \<and> (\<forall>e. r = Inr e \<longrightarrow> produced t (bgKey b) e (fst (tsWorld st')))"
      using singleflightFetch_inv [OF _ _ key _ f] assms(2) by (auto simp: task_ok_def)
  qed
  then show ?thesis by (simp add: run_task_def run)
qed

lemma fetchAndCache_inv:
  assumes inv: "inv st" and prev: "hadPrev \<Longrightarrow> produced t key prev (fst (tsWorld st))"
    and key: "key = request_key t req body" and m: "urlPath req \<in> fst ` set (tMethods t)"
    and run: "fetchAndCache t req key spec body prev hadPrev st = (r, st')"
  shows "inv st' \<and> grows st st' \<and>
    (\<forall>resp. r = Inr resp \<longrightarrow> (\<exists>e. resp = responseFromEntry e \<and> produced t key e (fst (tsWorld st'))))"
proof -
  obtain r1 st1 where d: "sf_Do t key (singleflightFetch t (reqCtx req) req spec body prev hadPrev key) st = (r1, st1)"
    by (metis surj_pair)
  have "inv st1 \<and> grows st st1 \<and> (\<forall>e. r1 = Inr (SfEntry e) \<longrightarrow> produced t key e (fst (tsWorld st1)))"
  proof (rule sf_Do_inv [OF inv _ d])
    fix st2 r st' assume "inv st2" "grows st st2"
      and f: "singleflightFetch t (reqCtx req) req spec body prev hadPrev key st2 = (r, st')"
    moreover have "hadPrev \<Longrightarrow> produced t key prev (fst (tsWorld st2))"
      using prev \<open>grows st st2\<close> by (blast intro: produced_mono)
    ultimately show "inv st' \<and> grows st2 st' \<and> (\<forall>e. r = Inr e \<longrightarrow> produced t key e (fst (tsWorld st')))"
      using singleflightFetch_inv [OF _ _ _ m f] key by (simp add: request_key_def)
  qed
  then show ?thesis using run by (auto simp: fetchAndCache_def d split: sum.splits sf_value.splits)
qed

lemma store_get_inv:
  assumes inv: "inv st" and run: "store_get t key st = (r, st')"
  shows "inv st' \<and> fst (tsWorld st') = fst (tsWorld st) \<and> (\<forall>e. r = Some e \<longrightarrow> produced t key e (fst (tsWorld st')))"
proof -
  obtain now w where n: "tStoreNow t (tsWorld st) = (now, w)" by (metis surj_pair)
  obtain g s where g: "cget now key (tsStore st) = (g, s)" by (metis surj_pair)
  have w: "fst w = fst (tsWorld st)" using observed_clocks(2) [OF obs n] .
  have "sinv (tsStore st)" using inv by (simp add: tinv_def)
  note gi = get_inv [OF this g]
  have st': "st' = st\<lparr>tsStore := s, tsWorld := w\<rparr>"
    using run by (auto simp: store_get_def n store g split: sum.splits)
  have "inv (st\<lparr>tsStore := s\<rparr>)" using inv gi by (intro inv_store) auto
  from inv_world [OF this] w have "inv st'" by (simp add: st')
  moreover have "produced t key e (fst w)" if "r = Some e" for e
  proof -
    have "g = Inr (Some e)" using run that by (auto simp: store_get_def n store g split: sum.splits)
    then have "look (tsStore st) key = Some e" using get_hit g \<open>sinv (tsStore st)\<close> by blast
    then show ?thesis using inv w by (simp add: tinv_def)
  qed
  ultimately show ?thesis using w st' by simp
qed

lemma invalidate_loop_inv:
  "inv st \<Longrightarrow> inv (invalidate_loop t sc sv ms st) \<and> tsWorld (invalidate_loop t sc sv ms st) = tsWorld st"
proof (induction ms arbitrary: st)
  case (Cons m ms)
  obtain r s where d: "cdelete_matching (sc @ '':'' @ sv @ m @ '':'') (tsStore st) = (r, s)" by (metis surj_pair)
  have "inv (st\<lparr>tsStore := s\<rparr>)"
    using delete_matching_inv [OF _ d] Cons.prems by (intro inv_store) (auto simp: tinv_def)
  from Cons.IH [OF this] show ?case using d by (simp add: store)
qed simp

lemma refreshAsync_inv:
  assumes "inv st" and "key = request_key t req body" and "urlPath req \<in> fst ` set (tMethods t)"
    and "produced t key e (fst (tsWorld st))"
  shows "inv (refreshAsync req key spec e body st)"
  using assms by (auto simp: refreshAsync_def tinv_def task_ok_def)

lemma cache_log_same [simp]: "inv (cache_log t oc m e n st) = inv st" "tsWorld (cache_log t oc m e n st) = tsWorld st"
  by (simp_all add: cache_log_def inv_log)

text \<open>A round trip keeps the invariant, and what it serves for a cached method holds the body
  of an exchange with the request's own key.\<close>

lemma RoundTrip_inv:
  assumes inv: "inv st" and run: "RoundTrip t req st = (r, st')"
  shows "inv st' \<and> grows st st' \<and>
    (\<forall>spec body req' resp. map_of (tMethods t) (urlPath req) = Some spec \<and> Cacheable spec \<and>
       readAndRestoreBody req = Inr (body, req') \<and> r = Inr resp \<longrightarrow>
       (\<exists>e. resp = responseFromEntry e \<and> produced t (request_key t req body) e (fst (tsWorld st'))))"
proof (cases "\<exists>spec body req'. map_of (tMethods t) (urlPath req) = Some spec \<and> Cacheable spec \<and>
       readAndRestoreBody req = Inr (body, req')")
  case False
  obtain ir w where i: "tInner t req (tsWorld st) = (ir, w)" by (metis surj_pair)
  have sub: "set (fst (tsWorld st)) \<subseteq> set (fst w)" using observed_inner [OF obs i] by (auto split: sum.splits)
  note inv' = inv_world [OF inv sub]
  have "st' = st \<or> st' = st\<lparr>tsWorld := w\<rparr> \<or> (\<exists>sc sv ms. st' = invalidate_loop t sc sv ms (st\<lparr>tsWorld := w\<rparr>))"
    using run False i by (auto simp: RoundTrip_def Let_def forward_def forwardAndInvalidate_def
        split: option.splits if_splits sum.splits)
  then have "inv st' \<and> grows st st'"
    using inv inv' sub invalidate_loop_inv [OF inv'] by auto
  then show ?thesis using False by blast
next
  case True
  then obtain spec body req' where t: "map_of (tMethods t) (urlPath req) = Some spec" "Cacheable spec"
    "readAndRestoreBody req = Inr (body, req')" by blast
  have req': "urlPath req' = urlPath req" "reqCtx req' = reqCtx req"
    using t(3) by (auto simp: readAndRestoreBody_def split: req_body.splits)
  have m: "urlPath req \<in> fst ` set (tMethods t)" using t(1) by (metis domI dom_map_of_conv_image_fst)
  let ?k = "request_key t req body"
  have k: "request_key t req' body = ?k" using req' by (simp add: request_key_def)
  obtain now st1 where n: "read_now t st = (now, st1)" by (metis surj_pair)
  obtain g st2 where g: "store_get t ?k st1 = (g, st2)" by (metis surj_pair)
  have s1: "inv st1" "fst (tsWorld st1) = fst (tsWorld st)" using read_now_inv [OF inv n] by auto
  have s2: "inv st2" "fst (tsWorld st2) = fst (tsWorld st)" "\<And>e. g = Some e \<Longrightarrow> produced t ?k e (fst (tsWorld st2))"
    using store_get_inv [OF s1(1) g] s1(2) by auto
  have "inv st' \<and> grows st st' \<and>
      (\<forall>resp. r = Inr resp \<longrightarrow> (\<exists>e. resp = responseFromEntry e \<and> produced t ?k e (fst (tsWorld st'))))"
  proof (cases g)
    case None
    then have f: "fetchAndCache t req' ?k spec body zero_entry False (cache_log t ''miss'' (urlPath req) None now st2) = (r, st')"
      using run unfolding RoundTrip_cached [OF t n g] by simp
    show ?thesis using fetchAndCache_inv [OF _ _ k [symmetric] _ f] s2 m req' by simp
  next
    case (Some e)
    consider "\<not> Expired e now" | "Expired e now" "Stale e now" | "Expired e now" "\<not> Stale e now" by blast
    then show ?thesis
    proof cases
      case 1
      then show ?thesis using run Some s2 unfolding RoundTrip_cached [OF t n g] by auto
    next
      case 2
      then have "r = Inr (responseFromEntry e) \<and>
          st' = cache_log t ''swr-hit'' (urlPath req) (Some e) now (refreshAsync req' ?k spec e body st2)"
        using run Some unfolding RoundTrip_cached [OF t n g] by simp
      then show ?thesis
        using s2 refreshAsync_inv [OF s2(1) k [symmetric], of e spec] m req' Some by (auto simp: refreshAsync_def)
    next
      case 3
      then have f: "fetchAndCache t req' ?k spec body e True (cache_log t ''miss'' (urlPath req) None now st2) = (r, st')"
        using run Some unfolding RoundTrip_cached [OF t n g] by simp
      show ?thesis using fetchAndCache_inv [OF _ _ k [symmetric] _ f] s2 m req' Some by simp
    qed
  qed
  then show ?thesis using t by auto
qed

lemma tstep_inv: "tstep t st st' \<Longrightarrow> inv st \<Longrightarrow> inv st'"
proof (induction rule: tstep.induct)
  case (tstep_call req st r st')
  then show ?case using RoundTrip_inv by blast
next
  case (tstep_refresh st as b bs)
  then have "inv (st\<lparr>tsBackground := as @ bs\<rparr>)" "task_ok t (fst (tsWorld st)) b" by (auto simp: tinv_def)
  then show ?case using run_task_inv by auto
qed

sublocale reach: inductive_invariant
  "\<lambda>st. sinv (tsStore st) \<and> look (tsStore st) = Map.empty \<and> tsBackground st = []" "tstep t" inv
  by unfold_locales (simp add: tinv_def, rule tstep_inv)

lemma reachable_serves:
  assumes "reachable (\<lambda>st. sinv (tsStore st) \<and> look (tsStore st) = Map.empty \<and> tsBackground st = []) (tstep t) st"
    and "RoundTrip t req st = (Inr resp, st')" and "map_of (tMethods t) (urlPath req) = Some spec"
    and "Cacheable spec" and "readAndRestoreBody req = Inr (body, req')"
  shows "\<exists>e. resp = responseFromEntry e \<and> produced t (request_key t req body) e (fst (tsWorld st'))"
  using RoundTrip_inv [OF reach.inv_reachable [OF assms(1)] assms(2)] assms(3-5) by blast

end

section \<open>Properties over the memory store\<close>

definition mem_ops :: "((string \<times> nat) list \<Rightarrow> (string \<times> nat) list) \<Rightarrow> memory_cache store_ops" where
  "mem_ops ord = \<lparr>opGet = mem_Get, opSet = mem_Set, opDeleteMatching = mem_DeleteMatching ord\<rparr>"


definition colon_free :: "('s, 'w) transport \<Rightarrow> bool" where
  "colon_free t \<longleftrightarrow> (\<forall>c. CHR '':'' \<notin> set (tScope t c)) \<and> (\<forall>m\<in>fst ` set (tMethods t). CHR '':'' \<notin> set m)"

lemma caching_mem:
  assumes "observed t" and "scope_from_values (tScope t)" and "maxBodyBytes t < max_int64"
    and "tStore t = mem_ops ord" and "map_order ord"
  shows "caching mem_Get mem_Set mem_Delete (mem_DeleteMatching ord) mem_look mem_inv t"
proof -
  have "go_map_iteration ord" by unfold_locales (rule assms(5))
  then have "cache_store mem_Get mem_Set mem_Delete (mem_DeleteMatching ord) mem_look mem_inv"
    by (rule go_map_iteration.is_cache_store)
  then show ?thesis using assms by (intro caching.intro caching_axioms.intro) (auto simp: mem_ops_def)
qed




lemma invalidate_loop_mem:
  assumes "mem_inv (tsStore st)" and "tStore t = mem_ops ord" and "map_order ord"
  shows "lru (tsStore (invalidate_loop t sc sv ms st)) =
      filter (\<lambda>(k, _). \<not> (\<exists>m\<in>set ms. prefix (sc @ '':'' @ sv @ m @ '':'') k)) (lru (tsStore st)) \<and>
    tsWorld (invalidate_loop t sc sv ms st) = tsWorld st"
  using assms(1)
proof (induction ms arbitrary: st)
  case Nil
  then show ?case by (simp add: case_prod_unfold)
next
  case (Cons m ms)
  let ?p = "sc @ '':'' @ sv @ m @ '':''"
  obtain c where c: "mem_DeleteMatching ord ?p (tsStore st) = (None, c)" "store_ok c"
      "lru c = filter (\<lambda>(k, _). \<not> prefix ?p k) (lru (tsStore st))"
      "mcapacity c = mcapacity (tsStore st)" "mmaxBytes c = mmaxBytes (tsStore st)"
    using mem_DeleteMatching_refines [OF _ assms(3), of "tsStore st" ?p] Cons.prems by (auto simp: mem_inv_def)
  have "mem_inv c" using mem_inv_filter [OF Cons.prems c(2-5)] .
  then have "mem_inv (tsStore (st\<lparr>tsStore := c\<rparr>))" by simp
  from Cons.IH [OF this] show ?case
    using c(1,3) assms(2) by (simp add: mem_ops_def case_prod_unfold conj_commute)
qed

text \<open>
  [C7] Write-triggered invalidation: after a write method answers 2xx, the store holds exactly
  what it held before less the entries of the invalidated read methods of the writer's own
  service and scope; no entry of another scope is dropped (scopes free of colons); and a write
  that fails or answers outside 2xx leaves the store as it was.
\<close>

theorem cache_write_invalidates:
  assumes "mem_inv (tsStore st)" and "tStore t = mem_ops ord" and "map_order ord" and "colon_free t"
    and "map_of (tMethods t) (urlPath req) = Some spec" and "\<not> Cacheable spec"
    and "RoundTrip t req st = (r, st')"
    and "tInner t req (tsWorld st) = (r0, w')"
  shows "let scope = tScope t (reqCtx req);
      hit = (\<lambda>k. \<exists>m\<in>set (Invalidates spec).
        prefix (scope @ '':'' @ serviceFromMethod (urlPath req) @ m @ '':'') k)
    in (case r0 of
          Inl e \<Rightarrow> r = Inl (EWrap ''caching: inner roundtrip'' e) \<and> tsStore st' = tsStore st
        | Inr resp \<Rightarrow> r = Inr resp \<and>
            (if 200 \<le> StatusCode resp \<and> StatusCode resp < 300
             then lru (tsStore st') = filter (\<lambda>(k, _). \<not> hit k) (lru (tsStore st))
             else tsStore st' = tsStore st)) \<and>
       tsWorld st' = w' \<and>
       (\<forall>c m b. tScope t c \<noteq> scope \<longrightarrow> \<not> hit (BuildKey (tSha256 t) (tScope t c) m b))"
proof -
  let ?sc = "tScope t (reqCtx req)"
  have run: "forwardAndInvalidate t req spec ?sc (urlPath req) st = (r, st')"
    using assms(5-7) by (simp add: RoundTrip_def)
  note loop = invalidate_loop_mem [OF _ assms(2,3), of "st\<lparr>tsWorld := w'\<rparr>" ?sc
      "serviceFromMethod (urlPath req)" "Invalidates spec"]
  have "\<not> prefix (?sc @ '':'' @ x) (BuildKey (tSha256 t) (tScope t c) m b)" if "tScope t c \<noteq> ?sc" for c m b x
  proof
    assume "prefix (?sc @ '':'' @ x) (BuildKey (tSha256 t) (tScope t c) m b)"
    then obtain y where "?sc @ CHR '':'' # (x @ y) = tScope t c @ CHR '':'' # (m @ '':'' @ hex_encode (tSha256 t b))"
      by (auto simp: prefix_def BuildKey_def)
    from colon_split [OF _ _ this] that assms(4) show False by (auto simp: colon_free_def)
  qed
  then have iso: "\<forall>c m b. tScope t c \<noteq> ?sc \<longrightarrow> \<not> (\<exists>i\<in>set (Invalidates spec).
      prefix (?sc @ '':'' @ serviceFromMethod (urlPath req) @ i @ '':'') (BuildKey (tSha256 t) (tScope t c) m b))"
    by blast
  consider e where "r0 = Inl e" | resp where "r0 = Inr resp" "200 \<le> StatusCode resp \<and> StatusCode resp < 300"
    | resp where "r0 = Inr resp" "\<not> (200 \<le> StatusCode resp \<and> StatusCode resp < 300)"
    by (cases r0) auto
  then show ?thesis
  proof cases
    case 2
    then have "r = Inr resp" "st' = invalidate_loop t ?sc (serviceFromMethod (urlPath req)) (Invalidates spec) (st\<lparr>tsWorld := w'\<rparr>)"
      using run assms(8) by (simp_all add: forwardAndInvalidate_def)
    then show ?thesis unfolding Let_def using 2 loop assms(1) iso by simp
  next
    case 1
    then have "r = Inl (EWrap ''caching: inner roundtrip'' e)" "st' = st\<lparr>tsWorld := w'\<rparr>"
      using run assms(8) by (simp_all add: forwardAndInvalidate_def)
    then show ?thesis unfolding Let_def using 1 iso by simp
  next
    case 3
    then have "r = Inr resp" "st' = st\<lparr>tsWorld := w'\<rparr>"
      using run assms(8) by (auto simp: forwardAndInvalidate_def split: if_splits)
    then show ?thesis unfolding Let_def using 3 iso by auto
  qed
qed

text \<open>
  With the memory store and clocks that do not run backwards, a cached entry that is found
  is either fresh or in its stale-while-revalidate window: the store drops an entry the moment
  it could only be revalidated. The foreground conditional request (\<^verbatim>\<open>If-None-Match\<close> for an
  expired entry) is therefore never sent.
\<close>

theorem cache_foreground_revalidation_unreachable:
  assumes "mem_inv c" and "mem_Get storeNow key c = (Inr (Some e), c')" and "now \<le> storeNow"
    and "0 \<le> eSWR e" and "in_int64 (eTTL e + eSWR e)"
  shows "\<not> Expired e now \<or> Stale e now"
proof -
  have "\<not> hard_expired e storeNow" using oldest_first.mem.get_hit [OF assms(1,2)] by blast
  then show ?thesis using assms(3-5) by (auto simp: hard_expired_def Expired_def Stale_def time_defs Let_def)
qed

text \<open>
  \<^verbatim>\<open>bufferResponse\<close> reads one byte past the cap, and at \<^verbatim>\<open>MaxBodyBytes = math.MaxInt64\<close> that
  sum wraps to the smallest \<^verbatim>\<open>int64\<close>: the limited reader yields nothing and every successful
  response, whatever its body, is returned and stored with an empty one.
\<close>

theorem cache_max_body_wraps_to_empty:
  assumes "tMaxBody t = max_int64" and "200 \<le> StatusCode resp" and "StatusCode resp < 300"
    and "processResponse t key spec prev hadPrev resp st = (r, st')"
  shows "\<exists>e st1. r = Inr e \<and> Body e = [] \<and> Status e = StatusCode resp \<and> st' = store_set t key e st1"
proof -
  obtain now st1 where n: "read_now t st = (now, st1)" by (metis surj_pair)
  have "wrap64 (max_int64 + 1) < 0" by (simp add: int64_defs)
  then obtain e where e: "bufferResponse resp (sTTL spec) (sSWR spec) now (maxBodyBytes t) = Inr e" "Body e = []"
      "Status e = StatusCode resp"
    using assms(1) by (simp add: bufferResponse_def read_limited_def maxBodyBytes_def max_int64_def)
  then have "r = Inr e \<and> st' = store_set t key e st1"
    using assms(2-4) n by (auto simp: processResponse_def store_buffered_def)
  with e show ?thesis by blast
qed

section \<open>A concrete transport\<close>

text \<open>A server that echoes the query string, cached for a minute under one tenant.\<close>

definition demo_sha :: "string \<Rightarrow> string" where
  "demo_sha b = take 32 (b @ replicate 32 CHR 0x00)"

definition demo_transport :: "(memory_cache, exchanges \<times> int) transport" where
  "demo_transport =
     \<lparr>tInner = (\<lambda>req (l, w). let resp = \<lparr>StatusCode = 200, respHeader = [], respBytes = urlQuery req, respErr = None\<rparr>
                in (Inr resp, l @ [(req, resp)], w + 1)),
      tJoin = (\<lambda>_ w. (None, w)), tStore = mem_ops id, tScope = (\<lambda>_. ''acme''),
      tMethods = [(''/s.S/Get'', \<lparr>Invalidates = [], sTTL = 60 * second, sSWR = 0, NegativeTTL = 0\<rparr>),
                  (''/s.S/Put'', \<lparr>Invalidates = [''Get''], sTTL = 0, sSWR = 0, NegativeTTL = 0\<rparr>)],
      tLogger = False, tNow = (\<lambda>w. (snd w, w)), tStoreNow = (\<lambda>w. (snd w, w)), tMaxBody = 0, tSha256 = demo_sha\<rparr>"

definition demo_request :: "string \<Rightarrow> string \<Rightarrow> http_request" where
  "demo_request path q = \<lparr>urlPath = path, urlQuery = q, reqHeader = [], reqBody = NilBody,
     reqCtx = \<lparr>ctxDeadline = None, ctxValues = []\<rparr>\<rparr>"

definition demo_start :: "(memory_cache, exchanges \<times> int) tstate" where
  "demo_start = \<lparr>tsStore = NewMemoryCacheWithLimits 8 1024, tsBackground = [], tsLog = [], tsWorld = ([], 0)\<rparr>"

lemmas cache_run_simps = demo_transport_def demo_request_def demo_start_def RoundTrip_def Cacheable_def
  readAndRestoreBody_def read_now_def store_get_def mem_ops_def mem_Get_def NewMemoryCacheWithLimits_def
  cache_log_def fetchAndCache_def sf_Do_def singleflightFetch_def processResponse_def store_buffered_def
  bufferResponse_def read_limited_def maxBodyBytes_def DefaultMaxBodyBytes_def store_set_def mem_Set_def
  evictToBudget.simps over_budget_def entrySize_def hdr_get_def cloneHeaders_def responseFromEntry_def Let_def
  int64_defs time_defs Expired_def move_to_front_def

text \<open>
  The key has the procedure path and the request body but not the query string. With
  Connect's GET mode, where the message travels in the query and the body is empty, two
  different messages to the same procedure share a key: the second request here asks for
  \<^verbatim>\<open>message=b\<close> and is served the answer to \<^verbatim>\<open>message=a\<close> from the cache, and the server is
  called once.
\<close>

theorem cache_key_ignores_query:
  "case RoundTrip demo_transport (demo_request ''/s.S/Get'' ''message=a'') demo_start of (r1, st1) \<Rightarrow>
   case RoundTrip demo_transport (demo_request ''/s.S/Get'' ''message=b'') st1 of (r2, st2) \<Rightarrow>
     map_sum id respBytes r1 = Inr ''message=a'' \<and> map_sum id respBytes r2 = Inr ''message=a'' \<and>
     length (fst (tsWorld st2)) = 1"
  by (simp add: cache_run_simps)

lemma observed_demo: "observed demo_transport"
  by (auto simp: observed_def demo_transport_def Let_def split: prod.splits)

lemma demo_ok:
  "scope_from_values (tScope demo_transport)" "maxBodyBytes demo_transport < max_int64"
  "tStore demo_transport = mem_ops id" "colon_free demo_transport" "map_order id"
  by (simp_all add: scope_from_values_def demo_transport_def maxBodyBytes_def DefaultMaxBodyBytes_def
      max_int64_def colon_free_def map_order_def)

interpretation echo: caching mem_Get mem_Set mem_Delete "mem_DeleteMatching id" mem_look mem_inv demo_transport
  by (rule caching_mem [OF observed_demo demo_ok(1-3,5)])


theorem cache_write_invalidates_witness:
  "lru (tsStore (snd (RoundTrip demo_transport (demo_request ''/s.S/Put'' ''x'') demo_start))) = []"
proof -
  obtain r st' where run: "RoundTrip demo_transport (demo_request ''/s.S/Put'' ''x'') demo_start = (r, st')"
    by (metis surj_pair)
  obtain r0 w' where i: "tInner demo_transport (demo_request ''/s.S/Put'' ''x'') (tsWorld demo_start) = (Inr r0, w')"
      "StatusCode r0 = 200" by (simp add: demo_transport_def demo_start_def Let_def)
  have inv: "mem_inv (tsStore demo_start)" "lru (tsStore demo_start) = []"
    using mem_inv_New [of 8 1024] by (simp_all add: demo_start_def lru_def NewMemoryCacheWithLimits_def)
  have spec: "map_of (tMethods demo_transport) (urlPath (demo_request ''/s.S/Put'' ''x'')) =
      Some \<lparr>Invalidates = [''Get''], sTTL = 0, sSWR = 0, NegativeTTL = 0\<rparr>"
    by (simp add: demo_transport_def demo_request_def)
  from cache_write_invalidates [OF inv(1) demo_ok(3,5,4) spec _ run i(1)] i(2) inv(2) run
  show ?thesis by (simp add: Cacheable_def Let_def)
qed

theorem cache_foreground_revalidation_unreachable_witness:
  "fst (mem_Get 12 ''a:m:1'' demo_store) = Inr (Some (demo_entry ''one'')) \<and> Stale (demo_entry ''one'') 12"
proof -
  obtain c' where g: "mem_Get 12 ''a:m:1'' demo_store = (Inr (Some (demo_entry ''one'')), c')"
    by (simp add: demo_store_def mem_Set_def NewMemoryCacheWithLimits_def evictToBudget.simps over_budget_def
        entrySize_def demo_entry_def mem_Get_def Let_def time_defs int64_defs)
  have "Expired (demo_entry ''one'') 12" by (simp add: Expired_def demo_entry_def time_defs)
  with cache_foreground_revalidation_unreachable [OF demo_store_inv g, of 12] g show ?thesis
    by (simp add: demo_entry_def int64_defs)
qed

theorem cache_max_body_wraps_to_empty_witness:
  "\<exists>e. fst (processResponse (demo_transport\<lparr>tMaxBody := max_int64\<rparr>) ''k''
      \<lparr>Invalidates = [], sTTL = 1, sSWR = 0, NegativeTTL = 0\<rparr> zero_entry False
      \<lparr>StatusCode = 200, respHeader = [], respBytes = ''payload'', respErr = None\<rparr> demo_start) = Inr e \<and> Body e = []"
proof -
  obtain r st' where run: "processResponse (demo_transport\<lparr>tMaxBody := max_int64\<rparr>) ''k''
      \<lparr>Invalidates = [], sTTL = 1, sSWR = 0, NegativeTTL = 0\<rparr> zero_entry False
      \<lparr>StatusCode = 200, respHeader = [], respBytes = ''payload'', respErr = None\<rparr> demo_start = (r, st')"
    by (metis surj_pair)
  from cache_max_body_wraps_to_empty [OF _ _ _ run] run show ?thesis by auto
qed

end
