(* ===== verification/Race.thy ===== *)
theory Race
  imports Rpc
begin

text \<open>
  The race both hedge interceptors run: a loop that waits in a \<^verbatim>\<open>select\<close> for a result, a timer
  or the end of the context, and attempts on their own goroutines that report through a
  buffered channel. \<open>race_step\<close> interleaves them; what a loop iteration does with an event is
  its argument \<open>tick\<close>. The locale \<open>race\<close> states what a tick has to do and derives safety
  and termination of the race; the two interceptors interpret it with their own ticks.
\<close>

type_synonym 'a attempt_result = "(err, 'a) go_result"

datatype 'a race_event = EvCtxDone err | EvResult "'a attempt_result" | EvTimer

record race_state =
  lastErr :: "err option"
  launched :: int
  completed :: int

text \<open>The loop's counters, the attempts still running, the channel, the results the loop has
  received and the value it returned.\<close>

record 'a race_sys =
  rState :: race_state
  rInflight :: nat
  rChan :: "'a attempt_result list"
  rSeen :: "'a attempt_result list"
  rDone :: "'a attempt_result option"

definition race_start :: "'a race_sys" where
  "race_start = \<lparr>rState = \<lparr>lastErr = None, launched = 1, completed = 0\<rparr>, rInflight = 1, rChan = [],
     rSeen = [], rDone = None\<rparr>"

text \<open>A tick returns the value to return from the loop, if any, the counters and how many
  attempts it launched.\<close>

type_synonym 'a race_tick = "race_state \<Rightarrow> 'a race_event \<Rightarrow> 'a attempt_result option \<times> race_state \<times> nat"

definition after_tick ::
  "'a race_sys \<Rightarrow> 'a attempt_result option \<times> race_state \<times> nat \<Rightarrow> 'a race_sys" where
  "after_tick s = (\<lambda>(fin, st, k). s\<lparr>rState := st, rInflight := rInflight s + k, rDone := fin\<rparr>)"

inductive race_step ::
  "int \<Rightarrow> (race_state \<Rightarrow> bool) \<Rightarrow> (race_state \<Rightarrow> bool) \<Rightarrow> 'a race_tick \<Rightarrow> (race_state \<Rightarrow> 'a attempt_result) \<Rightarrow>
   'a race_sys \<Rightarrow> 'a race_sys \<Rightarrow> bool"
  for limit pending armed tick final where
  send: "rInflight s = Suc n \<Longrightarrow> int (length (rChan s)) < limit \<Longrightarrow>
     race_step limit pending armed tick final s (s\<lparr>rInflight := n, rChan := rChan s @ [r]\<rparr>)"
| recv: "rDone s = None \<Longrightarrow> pending (rState s) \<Longrightarrow> rChan s = r # q \<Longrightarrow>
     race_step limit pending armed tick final s
       (after_tick (s\<lparr>rChan := q, rSeen := rSeen s @ [r]\<rparr>) (tick (rState s) (EvResult r)))"
| timer: "rDone s = None \<Longrightarrow> pending (rState s) \<Longrightarrow> armed (rState s) \<Longrightarrow>
     race_step limit pending armed tick final s (after_tick s (tick (rState s) EvTimer))"
| ctx_done: "rDone s = None \<Longrightarrow> pending (rState s) \<Longrightarrow>
     race_step limit pending armed tick final s (after_tick s (tick (rState s) (EvCtxDone e)))"
| leave: "rDone s = None \<Longrightarrow> \<not> pending (rState s) \<Longrightarrow>
     race_step limit pending armed tick final s (s\<lparr>rDone := Some (final (rState s))\<rparr>)"

inductive_cases race_stepE: "race_step limit pending armed tick final s s'"

section \<open>The contract of a tick\<close>

locale race =
  fixes limit :: int and pending armed :: "race_state \<Rightarrow> bool" and tick :: "'a race_tick"
    and final :: "race_state \<Rightarrow> 'a attempt_result"
    and relaunch rearm :: "race_state \<Rightarrow> nat"
  assumes limit_pos: "1 \<le> limit"
    and pending_iff: "pending s \<longleftrightarrow> completed s < launched s \<or> launched s < limit"
    and armed_if: "launched s < limit \<Longrightarrow> armed s"
    and tick_won: "snd r = None \<Longrightarrow> tick s (EvResult r) = (Some r, s\<lparr>completed := completed s + 1\<rparr>, 0)"
    and tick_lost: "snd r = Some e \<Longrightarrow> tick s (EvResult r) =
      (None, s\<lparr>completed := completed s + 1, lastErr := Some e, launched := launched s + int (relaunch s)\<rparr>, relaunch s)"
    and relaunch_le: "launched s \<le> limit \<Longrightarrow> launched s + int (relaunch s) \<le> limit"
    and tick_timer: "armed s \<Longrightarrow> tick s EvTimer = (None, s\<lparr>launched := launched s + int (rearm s)\<rparr>, rearm s)"
    and rearm_le: "armed s \<Longrightarrow> launched s \<le> limit \<Longrightarrow> launched s + int (rearm s) \<le> limit"
    and tick_ctx: "tick s (EvCtxDone e) = (Some (None, Some (EWrap ''hedge'' e)), s, 0)"
    and final_err: "lastErr s = Some e \<Longrightarrow> final s = (None, Some e)"
begin

abbreviation step where "step \<equiv> race_step limit pending armed tick final"

definition rinv :: "'a race_sys \<Rightarrow> bool" where
  "rinv s \<longleftrightarrow> (let st = rState s in
     1 \<le> launched st \<and> launched st \<le> limit \<and> completed st = int (length (rSeen s)) \<and>
     launched st = completed st + int (length (rChan s)) + int (rInflight s) \<and>
     (case rDone s of
        None \<Rightarrow> (\<forall>r\<in>set (rSeen s). snd r \<noteq> None) \<and> (lastErr st = None \<longleftrightarrow> rSeen s = []) \<and>
          (rSeen s \<noteq> [] \<longrightarrow> lastErr st = snd (last (rSeen s)))
      | Some res \<Rightarrow>
          (\<exists>rs. rSeen s = rs @ [res] \<and> snd res = None \<and> (\<forall>r\<in>set rs. snd r \<noteq> None)) \<or>
          (\<exists>e. res = (None, Some (EWrap ''hedge'' e))) \<or>
          (completed st = limit \<and> (\<forall>r\<in>set (rSeen s). snd r \<noteq> None) \<and> res = (None, snd (last (rSeen s))))))"

lemma rinv_start: "rinv race_start"
  using limit_pos by (simp add: rinv_def race_start_def)

lemma rinv_recv:
  assumes inv: "rinv s" and d: "rDone s = None" and c: "rChan s = r # q"
  shows "rinv (after_tick (s\<lparr>rChan := q, rSeen := rSeen s @ [r]\<rparr>) (tick (rState s) (EvResult r)))"
proof (cases "snd r")
  case None
  then show ?thesis using inv d c by (auto simp: rinv_def tick_won after_tick_def Let_def)
next
  case (Some e)
  have "launched (rState s) + int (relaunch (rState s)) \<le> limit"
    using inv by (intro relaunch_le) (simp add: rinv_def Let_def)
  with Some inv d c show ?thesis by (auto simp: rinv_def tick_lost after_tick_def Let_def)
qed

lemma rinv_leave:
  assumes inv: "rinv s" and d: "rDone s = None" and p: "\<not> pending (rState s)"
  shows "rinv (s\<lparr>rDone := Some (final (rState s))\<rparr>)"
proof -
  have c: "completed (rState s) = limit" "rSeen s \<noteq> []"
    using inv p limit_pos by (auto simp: rinv_def pending_iff Let_def)
  then obtain e where "lastErr (rState s) = Some e" "snd (last (rSeen s)) = Some e"
    using inv d by (cases "lastErr (rState s)") (auto simp: rinv_def Let_def)
  moreover from this have "final (rState s) = (None, Some e)" by (intro final_err)
  ultimately show ?thesis using inv d c unfolding rinv_def Let_def by simp
qed

lemma rinv_step: "step s s' \<Longrightarrow> rinv s \<Longrightarrow> rinv s'"
proof (induction rule: race_step.induct)
  case (send s n r)
  then show ?case by (auto simp: rinv_def Let_def split: option.splits)
next
  case (recv s r q)
  then show ?case by (intro rinv_recv)
next
  case (timer s)
  then have "launched (rState s) + int (rearm (rState s)) \<le> limit"
    by (intro rearm_le) (auto simp: rinv_def Let_def)
  with timer show ?case by (auto simp: rinv_def tick_timer after_tick_def Let_def)
next
  case (ctx_done s e)
  then show ?case by (auto simp: rinv_def tick_ctx after_tick_def Let_def)
next
  case (leave s)
  then show ?case by (intro rinv_leave)
qed

sublocale reach: inductive_invariant "\<lambda>s. s = race_start" step rinv
  by unfold_locales (auto intro: rinv_start rinv_step)

text \<open>An attempt that ends can always report: its send never blocks on a full channel.\<close>

lemma send_never_blocks: "rinv s \<Longrightarrow> rInflight s = Suc n \<Longrightarrow> int (length (rChan s)) < limit"
  by (auto simp: rinv_def Let_def)

lemma not_stuck:
  assumes "rinv s" and "rDone s = None"
  shows "\<exists>s'. step s s'"
proof -
  consider "\<not> pending (rState s)" | n where "rInflight s = Suc n" | r q where "pending (rState s)" "rChan s = r # q"
    | "pending (rState s)" "rInflight s = 0" "rChan s = []"
    by (metis gr0_implies_Suc list.exhaust not_gr_zero)
  then show ?thesis
  proof cases
    case 4
    then have "armed (rState s)"
      using assms by (intro armed_if) (auto simp: rinv_def pending_iff Let_def)
    then show ?thesis using 4 assms(2) race_step.timer by blast
  qed (use assms send_never_blocks in \<open>blast intro: race_step.intros\<close>)+
qed

text \<open>Every step that is not an idle wake-up of the timer uses up some of a finite budget.\<close>

definition budget :: "'a race_sys \<Rightarrow> nat" where
  "budget s = 3 * nat (limit - launched (rState s)) + 2 * rInflight s + length (rChan s) +
     (if rDone s = None then 1 else 0)"

lemma budget_step:
  assumes "step s s'" and "rinv s"
  shows "budget s' < budget s \<or> s' = s"
  using assms
proof (induction rule: race_step.induct)
  case (recv s r q)
  then show ?case
  proof (cases "snd r")
    case (Some e)
    have "launched (rState s) + int (relaunch (rState s)) \<le> limit"
      using recv.prems by (intro relaunch_le) (simp add: rinv_def Let_def)
    then show ?thesis using recv Some by (simp add: budget_def after_tick_def tick_lost) arith
  qed (simp add: budget_def after_tick_def tick_won)
next
  case (timer s)
  have le: "launched (rState s) + int (rearm (rState s)) \<le> limit"
    using timer by (intro rearm_le) (auto simp: rinv_def Let_def)
  show ?case
  proof (cases "rearm (rState s) = 0")
    case True
    then show ?thesis using timer by (simp add: after_tick_def tick_timer)
  next
    case False
    then show ?thesis using timer le by (simp add: budget_def after_tick_def tick_timer) arith
  qed
qed (auto simp: budget_def after_tick_def tick_ctx)

definition moves :: "'a race_sys \<Rightarrow> 'a race_sys \<Rightarrow> bool" where
  "moves s s' \<longleftrightarrow> step s s' \<and> s' \<noteq> s"

lemma run_bound: "(moves ^^ n) race_start s \<Longrightarrow> rinv s \<and> int (n + budget s) \<le> 3 * limit"
proof (induction n arbitrary: s)
  case 0
  then show ?case using limit_pos rinv_start by (auto simp: budget_def race_start_def)
next
  case (Suc n)
  then obtain t where t: "(moves ^^ n) race_start t" "moves t s" by auto
  from Suc.IH [OF t(1)] t(2) budget_step [of t s] rinv_step [of t s] show ?case
    by (auto simp: moves_def)
qed

lemma returned_shape:
  assumes "reachable (\<lambda>s. s = race_start) step s" and "rDone s = Some res"
  shows "(\<exists>rs. rSeen s = rs @ [res] \<and> snd res = None \<and> (\<forall>r\<in>set rs. snd r \<noteq> None)) \<or>
    (\<exists>e. res = (None, Some (EWrap ''hedge'' e))) \<or>
    (int (length (rSeen s)) = limit \<and> (\<forall>r\<in>set (rSeen s). snd r \<noteq> None) \<and> res = (None, snd (last (rSeen s))))"
  using reach.inv_reachable [OF assms(1)] assms(2) by (auto simp: rinv_def Let_def)

lemma counters:
  assumes "reachable (\<lambda>s. s = race_start) step s"
  shows "launched (rState s) \<le> limit \<and> completed (rState s) \<le> launched (rState s) \<and>
    int (rInflight s) \<le> limit \<and> (0 < rInflight s \<longrightarrow> int (length (rChan s)) < limit)"
  using reach.inv_reachable [OF assms] by (auto simp: rinv_def Let_def)

end

end
