(* ===== verification/Hedge.thy ===== *)
theory Hedge
  imports Race
begin

text \<open>
  The hedge interceptor of \<^verbatim>\<open>src/hedge/hedge.go\<close> and its prototype successor of
  \<^verbatim>\<open>src/experimental/hedgev2/hedge.go\<close>. Each gives its own tick (what one iteration of its
  loop does with the event its \<^verbatim>\<open>select\<close> chose) to the race of theory \<open>Race\<close> and interprets the
  locale \<open>race\<close> with it.
\<close>

section \<open>hedge\<close>

record hedge_config =
  hDelay :: int
  hMaxAttempts :: int
  HedgeIdempotent :: bool

definition hedge_DefaultMaxAttempts :: int where "hedge_DefaultMaxAttempts = 3"
definition DefaultDelay :: int where "DefaultDelay = 50 * millisecond"

definition hedge_DefaultConfig :: hedge_config where
  "hedge_DefaultConfig = \<lparr>hDelay = DefaultDelay, hMaxAttempts = hedge_DefaultMaxAttempts, HedgeIdempotent = False\<rparr>"

definition hedge_Interceptor :: "hedge_config \<Rightarrow> hedge_config" where
  "hedge_Interceptor cfg =
     (let c1 = (if hMaxAttempts cfg < 1 then cfg\<lparr>hMaxAttempts := 1\<rparr> else cfg)
      in if hDelay c1 < 0 then c1\<lparr>hDelay := 0\<rparr> else c1)"

definition shouldHedge :: "hedge_config \<Rightarrow> spec \<Rightarrow> bool" where
  "shouldHedge cfg sp =
     (case IdempotencyLevel sp of
        IdempotencyNoSideEffects \<Rightarrow> True
      | IdempotencyIdempotent \<Rightarrow> HedgeIdempotent cfg
      | IdempotencyUnknown \<Rightarrow> False)"

text \<open>The interceptor's choice; \<open>runHedged\<close> stands for the value the race returns.\<close>

definition hedge_WrapUnary ::
  "hedge_config \<Rightarrow> (ctx \<Rightarrow> spec \<Rightarrow> (header \<times> 'w, 'm rpc_result) io) \<Rightarrow> ('w, 'm) unary \<Rightarrow> ('w, 'm) unary" where
  "hedge_WrapUnary cfg runHedged next ctx sp st =
     (if \<not> shouldHedge cfg sp \<or> hMaxAttempts cfg \<le> 1 then next ctx sp st else runHedged ctx sp st)"

definition hedge_armed :: "hedge_config \<Rightarrow> race_state \<Rightarrow> bool" where
  "hedge_armed cfg s \<longleftrightarrow> launched s < hMaxAttempts cfg"

definition hedge_tick :: "hedge_config \<Rightarrow> 'a race_tick" where
  "hedge_tick cfg s ev =
     (case ev of
        EvCtxDone e \<Rightarrow> (Some (None, Some (EWrap ''hedge'' e)), s, 0)
      | EvResult r \<Rightarrow>
          (let s1 = s\<lparr>completed := completed s + 1\<rparr> in
           case snd r of
             None \<Rightarrow> (Some r, s1, 0)
           | Some e \<Rightarrow> (None, s1\<lparr>lastErr := Some e\<rparr>, 0))
      | EvTimer \<Rightarrow> (None, s\<lparr>launched := launched s + 1\<rparr>, 1))"

definition hedge_pending :: "hedge_config \<Rightarrow> race_state \<Rightarrow> bool" where
  "hedge_pending cfg s \<longleftrightarrow> completed s < launched s \<or> launched s < hMaxAttempts cfg"

definition hedge_final :: "race_state \<Rightarrow> 'a attempt_result" where
  "hedge_final s = (case lastErr s of None \<Rightarrow> (None, Some (EText ''hedge: no result'')) | Some e \<Rightarrow> (None, Some e))"

definition hedge_step :: "hedge_config \<Rightarrow> 'a race_sys \<Rightarrow> 'a race_sys \<Rightarrow> bool" where
  "hedge_step cfg = race_step (hMaxAttempts cfg) (hedge_pending cfg) (hedge_armed cfg) (hedge_tick cfg) hedge_final"

lemma hedge_MaxAttempts_pos: "1 \<le> hMaxAttempts (hedge_Interceptor cfg)"
  by (simp add: hedge_Interceptor_def Let_def)

interpretation v1: race "hMaxAttempts (hedge_Interceptor cfg)" "hedge_pending (hedge_Interceptor cfg)"
  "hedge_armed (hedge_Interceptor cfg)" "hedge_tick (hedge_Interceptor cfg)" hedge_final "\<lambda>_. 0" "\<lambda>_. 1" for cfg
  by unfold_locales
    (auto simp: hedge_MaxAttempts_pos hedge_pending_def hedge_armed_def hedge_tick_def hedge_final_def Let_def)

lemma race_sys_neqI:
  "rInflight s' \<noteq> rInflight s \<Longrightarrow> s' \<noteq> s" "rChan s' \<noteq> rChan s \<Longrightarrow> s' \<noteq> s" "rDone s' \<noteq> rDone s \<Longrightarrow> s' \<noteq> s"
  by auto

lemma hedge_step_changes: "hedge_step cfg s s' \<Longrightarrow> s' \<noteq> s"
  unfolding hedge_step_def
proof (induction rule: race_step.induct)
  case (recv s r q)
  have "rChan (after_tick (s\<lparr>rChan := q, rSeen := rSeen s @ [r]\<rparr>) (hedge_tick cfg (rState s) (EvResult r))) = q"
    by (auto simp: after_tick_def split: prod.splits)
  then show ?case using recv(3) by (metis not_Cons_self)
next
  case (send s n r)
  then show ?case by (intro race_sys_neqI(1)) simp
next
  case (timer s)
  then show ?case by (intro race_sys_neqI(1)) (simp add: after_tick_def hedge_tick_def)
next
  case (ctx_done s e)
  then show ?case by (intro race_sys_neqI(3)) (simp add: after_tick_def hedge_tick_def)
next
  case (leave s)
  then show ?case by (intro race_sys_neqI(3)) simp
qed

text \<open>
  [C10] The hedged race is safe under every interleaving of attempts, timer and context: never
  more than \<^verbatim>\<open>MaxAttempts\<close> attempts are launched, an attempt that ends never blocks on the
  channel (so no goroutine leaks), and the caller gets the first successful result received,
  the context's error, or, when all \<^verbatim>\<open>MaxAttempts\<close> attempts failed, the last error; the
  defensive \<^verbatim>\<open>hedge: no result\<close> is never returned.
\<close>

theorem hedge_race_safe:
  assumes "reachable (\<lambda>s. s = race_start) (hedge_step (hedge_Interceptor cfg)) s"
  shows "launched (rState s) \<le> hMaxAttempts (hedge_Interceptor cfg) \<and>
    (0 < rInflight s \<longrightarrow> int (length (rChan s)) < hMaxAttempts (hedge_Interceptor cfg)) \<and>
    (\<forall>res. rDone s = Some res \<longrightarrow>
       (\<exists>rs. rSeen s = rs @ [res] \<and> snd res = None \<and> (\<forall>r\<in>set rs. snd r \<noteq> None)) \<or>
       (\<exists>e. res = (None, Some (EWrap ''hedge'' e))) \<or>
       (int (length (rSeen s)) = hMaxAttempts (hedge_Interceptor cfg) \<and> (\<forall>r\<in>set (rSeen s). snd r \<noteq> None) \<and>
        res = (None, snd (last (rSeen s)))))"
  using v1.counters [OF assms [unfolded hedge_step_def]] v1.returned_shape [OF assms [unfolded hedge_step_def]] by blast


text \<open>The primary fails, the hedge is launched and wins.\<close>

lemma hedge_demo_run:
  "\<exists>s. (hedge_step (hedge_Interceptor hedge_DefaultConfig) ^^ 5) race_start s \<and>
     rDone s = Some (Some (7 :: nat), None)"
proof -
  let ?c = "hedge_Interceptor hedge_DefaultConfig"
  have max: "hMaxAttempts ?c = 3"
    by (simp add: hedge_Interceptor_def hedge_DefaultConfig_def hedge_DefaultMaxAttempts_def DefaultDelay_def)
  let ?f = "(None, Some (EText ''down'')) :: nat attempt_result"
  define s1 where "s1 = race_start\<lparr>rInflight := 0, rChan := [?f]\<rparr>"
  define s2 where "s2 = after_tick (s1\<lparr>rChan := [], rSeen := rSeen s1 @ [?f]\<rparr>) (hedge_tick ?c (rState s1) (EvResult ?f))"
  define s3 where "s3 = after_tick s2 (hedge_tick ?c (rState s2) EvTimer)"
  define s4 where "s4 = s3\<lparr>rInflight := 0, rChan := [(Some 7, None)]\<rparr>"
  define s5 where "s5 = after_tick (s4\<lparr>rChan := [], rSeen := rSeen s4 @ [(Some 7, None)]\<rparr>) (hedge_tick ?c (rState s4) (EvResult (Some 7, None)))"
  note defs = s1_def s2_def s3_def s4_def s5_def race_start_def after_tick_def hedge_tick_def hedge_pending_def
    hedge_armed_def max
  have "hedge_step ?c race_start s1"
    unfolding hedge_step_def s1_def using race_step.send [of race_start 0 "hMaxAttempts ?c" _ _ _ _ ?f]
    by (simp add: race_start_def max)
  moreover have "hedge_step ?c s1 s2"
    unfolding hedge_step_def s2_def by (rule race_step.recv)
      (simp_all add: s1_def race_start_def hedge_pending_def)
  moreover have "hedge_step ?c s2 s3"
    unfolding hedge_step_def s3_def by (intro race_step.timer) (simp_all add: defs)
  moreover have "hedge_step ?c s3 s4"
    unfolding hedge_step_def s4_def using race_step.send [of s3 0 "hMaxAttempts ?c" _ _ _ _ "(Some 7, None)"]
    by (simp add: defs)
  moreover have "hedge_step ?c s4 s5"
    unfolding hedge_step_def s5_def by (rule race_step.recv)
      (simp_all add: s1_def s2_def s3_def s4_def race_start_def after_tick_def hedge_tick_def hedge_pending_def)
  moreover have "rDone s5 = Some (Some 7, None)" by (simp add: defs)
  ultimately have "(hedge_step ?c ^^ Suc (Suc (Suc (Suc (Suc 0))))) race_start s5 \<and> rDone s5 = Some (Some 7, None)"
    by (meson relpowp_0_I relpowp_Suc_I)
  moreover have "5 = Suc (Suc (Suc (Suc (Suc 0))))" by simp
  ultimately show ?thesis by metis
qed


theorem hedge_race_safe_witness:
  "\<exists>s :: nat race_sys. reachable (\<lambda>s. s = race_start) (hedge_step (hedge_Interceptor hedge_DefaultConfig)) s \<and>
     rDone s = Some (Some 7, None) \<and> launched (rState s) \<le> 3"
proof -
  let ?c = "hedge_Interceptor hedge_DefaultConfig"
  obtain s :: "nat race_sys" where s: "(hedge_step ?c ^^ 5) race_start s" "rDone s = Some (Some 7, None)"
    using hedge_demo_run by blast
  have "reachable (\<lambda>s. s = race_start) (hedge_step ?c) s"
    using s(1) relpowp_imp_rtranclp reachable_steps reach_init by (metis (mono_tags))
  moreover have "hMaxAttempts ?c = 3"
    by (simp add: hedge_Interceptor_def hedge_DefaultConfig_def hedge_DefaultMaxAttempts_def DefaultDelay_def)
  ultimately show ?thesis using hedge_race_safe s(2) by (metis (mono_tags, lifting))
qed

section \<open>hedgev2\<close>

datatype stream_type = StreamTypeUnary | StreamTypeClient | StreamTypeServer | StreamTypeBidi

definition errNoResult :: err where
  "errNoResult = ESentinel (Sentinel ''hedge: no result'')"

definition v2_DefaultMaxAttempts :: int where "v2_DefaultMaxAttempts = 3"
definition v2_DefaultDelay :: int where "v2_DefaultDelay = 50 * millisecond"

text \<open>The fields are those of the released package.\<close>

type_synonym v2_config = hedge_config

definition v2_DefaultConfig :: v2_config where
  "v2_DefaultConfig = \<lparr>hDelay = v2_DefaultDelay, hMaxAttempts = v2_DefaultMaxAttempts, HedgeIdempotent = False\<rparr>"

definition v2_fill :: "v2_config \<Rightarrow> v2_config" where
  "v2_fill cfg =
     (let c1 = (if hMaxAttempts cfg < 1 then cfg\<lparr>hMaxAttempts := 1\<rparr> else cfg)
      in if hDelay c1 < 0 then c1\<lparr>hDelay := 0\<rparr> else c1)"

lemma v2_fill_eq: "v2_fill = hedge_Interceptor"
  by (intro ext) (simp add: v2_fill_def hedge_Interceptor_def)

definition eligible :: "hedge_config \<Rightarrow> stream_type \<Rightarrow> spec \<Rightarrow> bool" where
  "eligible cfg st sp =
     (if hMaxAttempts cfg \<le> 1 \<or> st \<noteq> StreamTypeUnary then False
      else
        (case IdempotencyLevel sp of
           IdempotencyNoSideEffects \<Rightarrow> True
         | IdempotencyIdempotent \<Rightarrow> HedgeIdempotent cfg
         | IdempotencyUnknown \<Rightarrow> False))"

definition v2_pending :: "int \<Rightarrow> race_state \<Rightarrow> bool" where
  "v2_pending limit st \<longleftrightarrow> completed st < launched st \<or> launched st < limit"

text \<open>\<^verbatim>\<open>fire\<close> returns the counters and the number of attempts launched.\<close>

definition v2_fire :: "int \<Rightarrow> race_state \<Rightarrow> race_state \<times> nat" where
  "v2_fire limit st = (if launched st < limit then (st\<lparr>launched := launched st + 1\<rparr>, 1) else (st, 0))"

definition v2_record :: "int \<Rightarrow> race_state \<Rightarrow> 'a attempt_result \<Rightarrow> bool \<times> race_state \<times> nat" where
  "v2_record limit st r =
     (let st1 = st\<lparr>completed := completed st + 1\<rparr> in
      case snd r of
        None \<Rightarrow> (True, st1, 0)
      | Some e \<Rightarrow>
          (let st2 = st1\<lparr>lastErr := Some e\<rparr> in
           if completed st2 = launched st2 then (False, v2_fire limit st2) else (False, st2, 0)))"

definition v2_final :: "race_state \<Rightarrow> 'a attempt_result" where
  "v2_final st = (case lastErr st of None \<Rightarrow> (None, Some errNoResult) | Some e \<Rightarrow> (None, Some e))"

definition v2_tick :: "hedge_config \<Rightarrow> 'a race_tick" where
  "v2_tick cfg st ev =
     (case ev of
        EvResult r \<Rightarrow>
          (case v2_record (hMaxAttempts cfg) st r of
             (True, st', k) \<Rightarrow> (Some r, st', k)
           | (False, st', k) \<Rightarrow> (None, st', k))
      | EvTimer \<Rightarrow> (None, v2_fire (hMaxAttempts cfg) st)
      | EvCtxDone e \<Rightarrow> (Some (None, Some (EWrap ''hedge'' e)), st, 0))"

text \<open>The loop of \<^verbatim>\<open>race\<close>: the timer is created in every iteration.\<close>

definition v2_race :: "hedge_config \<Rightarrow> 'a race_sys \<Rightarrow> 'a race_sys \<Rightarrow> bool" where
  "v2_race cfg = race_step (hMaxAttempts cfg) (v2_pending (hMaxAttempts cfg)) (\<lambda>_. True) (v2_tick cfg) v2_final"

definition v2_relaunch :: "hedge_config \<Rightarrow> race_state \<Rightarrow> nat" where
  "v2_relaunch cfg st = (if completed st + 1 = launched st \<and> launched st < hMaxAttempts cfg then 1 else 0)"

interpretation v2: race "hMaxAttempts (hedge_Interceptor cfg)" "v2_pending (hMaxAttempts (hedge_Interceptor cfg))"
  "\<lambda>_. True" "v2_tick (hedge_Interceptor cfg)" v2_final "v2_relaunch (hedge_Interceptor cfg)"
  "\<lambda>s. if launched s < hMaxAttempts (hedge_Interceptor cfg) then 1 else 0" for cfg
  by unfold_locales
    (auto simp: hedge_MaxAttempts_pos v2_pending_def v2_tick_def v2_record_def v2_fire_def v2_final_def v2_relaunch_def Let_def)

text \<open>
  The prototype's race gives the same guarantees as the released one: the attempt limit,
  sends that never block, and first success, context error or last error as the only results.
\<close>

theorem hedgev2_race_safe:
  assumes "reachable (\<lambda>s. s = race_start) (v2_race (hedge_Interceptor cfg)) s"
  shows "launched (rState s) \<le> hMaxAttempts (hedge_Interceptor cfg) \<and>
    (0 < rInflight s \<longrightarrow> int (length (rChan s)) < hMaxAttempts (hedge_Interceptor cfg)) \<and>
    (\<forall>res. rDone s = Some res \<longrightarrow>
       (\<exists>rs. rSeen s = rs @ [res] \<and> snd res = None \<and> (\<forall>r\<in>set rs. snd r \<noteq> None)) \<or>
       (\<exists>e. res = (None, Some (EWrap ''hedge'' e))) \<or>
       (int (length (rSeen s)) = hMaxAttempts (hedge_Interceptor cfg) \<and> (\<forall>r\<in>set (rSeen s). snd r \<noteq> None) \<and>
        res = (None, snd (last (rSeen s)))))"
  using v2.counters [OF assms [unfolded v2_race_def]] v2.returned_shape [OF assms [unfolded v2_race_def]] by blast

theorem hedgev2_race_safe_witness:
  "launched (rState (race_start :: nat race_sys)) \<le> hMaxAttempts (hedge_Interceptor hedge_DefaultConfig)"
proof -
  have "reachable (\<lambda>s. s = race_start) (v2_race (hedge_Interceptor hedge_DefaultConfig)) (race_start :: nat race_sys)"
    by (rule reach_init) (rule refl)
  from hedgev2_race_safe [OF this] show ?thesis by blast
qed

text \<open>
  The prototype creates its timer also when every attempt has been launched; the timer
  then fires into a no-op, so a race that waits for its last attempts can wake up any number of
  times without progress (with \<^verbatim>\<open>Delay = 0\<close>, continuously). The released interceptor has no
  such step: each of its steps changes the state.
\<close>

theorem hedgev2_idle_wakeups:
  assumes "rDone s = None" and "launched (rState s) = hMaxAttempts cfg" and "completed (rState s) < launched (rState s)"
  shows "(v2_race cfg ^^ n) s s \<and> \<not> hedge_step cfg s s"
proof -
  have "v2_race cfg s (after_tick s (v2_tick cfg (rState s) EvTimer))"
    unfolding v2_race_def using assms by (intro race_step.timer) (auto simp: v2_pending_def)
  moreover have "after_tick s (v2_tick cfg (rState s) EvTimer) = s"
    using assms(1,2) by (simp add: after_tick_def v2_tick_def v2_fire_def)
  ultimately have "v2_race cfg s s" by simp
  then have "(v2_race cfg ^^ n) s s" by (induction n) auto
  then show ?thesis using hedge_step_changes by blast
qed

theorem hedgev2_idle_wakeups_witness:
  "\<exists>s :: nat race_sys. (v2_race hedge_DefaultConfig ^^ 1000) s s"
proof -
  let ?s = "\<lparr>rState = \<lparr>lastErr = None, launched = 3, completed = 0\<rparr>, rInflight = 3, rChan = [], rSeen = [], rDone = None\<rparr> :: nat race_sys"
  have "(v2_race hedge_DefaultConfig ^^ 1000) ?s ?s"
    using hedgev2_idle_wakeups [of ?s hedge_DefaultConfig 1000]
    by (simp add: hedge_DefaultConfig_def hedge_DefaultMaxAttempts_def)
  then show ?thesis by blast
qed

section \<open>The prototype's stream\<close>

text \<open>
  A client stream of the next function, and the deferred stream the interceptor hands out. A
  message is a protobuf message or a value of another codec; \<open>'p\<close> is the type of protobuf
  messages, whose clones are the same value. Opening the next stream with the call's context
  and spec is \<open>open_next\<close>, and \<open>run_race\<close> is the race on a request. \<open>hsCancel\<close> is the race's
  cancel function: absent before the race, otherwise whether it was called (the race itself
  calls it on return).
\<close>

datatype 'p any_msg = ProtoMsg 'p | OtherMsg

record ('w, 'p) client_stream =
  csSend :: "'p any_msg \<Rightarrow> ('w, err option) io"
  csCloseSend :: "('w, err option) io"
  csReceive :: "('w, 'p option \<times> err option) io"
  csClose :: "('w, err option) io"

record ('w, 'p) hedged_stream =
  hsReq :: "'p option"
  hsCancel :: "bool option"
  hsFallback :: "('w, 'p) client_stream option"
  hsReceived :: bool

definition wrapStreamErr :: "string \<Rightarrow> err option \<Rightarrow> err option" where
  "wrapStreamErr opn e =
     (case e of
        None \<Rightarrow> None
      | Some x \<Rightarrow> if errors_is x IoEOF then Some x else Some (EWrap (''hedge: '' @ opn) x))"

text \<open>\<^verbatim>\<open>errors.Join\<close> drops nil arguments.\<close>

fun errors_Join :: "err option \<Rightarrow> err option \<Rightarrow> err option" where
  "errors_Join None None = None"
| "errors_Join (Some a) None = Some (EWrap [] a)"
| "errors_Join None (Some b) = Some (EWrap [] b)"
| "errors_Join (Some a) (Some b) = Some (EJoin a b)"

definition v2_attempt ::
  "('w, err + ('w, 'p) client_stream) io \<Rightarrow> 'p \<Rightarrow> ('w, 'p option \<times> err option) io" where
  "v2_attempt open_next req w =
     (case open_next w of
        (Inl e, w1) \<Rightarrow> ((None, Some (EWrap ''hedge: open attempt'' e)), w1)
      | (Inr stream, w1) \<Rightarrow>
          (case csSend stream (ProtoMsg req) w1 of
             (sendErr, w2) \<Rightarrow>
               let body =
                 (if sendErr \<noteq> None \<and> \<not> errors_is (the sendErr) IoEOF
                  then ((None, wrapStreamErr ''send attempt'' sendErr), w2)
                  else
                    (case csCloseSend stream w2 of
                       (Some closeErr, w3) \<Rightarrow> ((None, wrapStreamErr ''close send attempt'' (Some closeErr)), w3)
                     | (None, w3) \<Rightarrow>
                         (case csReceive stream w3 of
                            ((resp, e), w4) \<Rightarrow> ((resp, wrapStreamErr ''receive attempt'' e), w4))))
               in (case body of
                     ((resp, e), w5) \<Rightarrow>
                       (case csClose stream w5 of
                          (c, w6) \<Rightarrow> ((resp, errors_Join e (wrapStreamErr ''close attempt'' c)), w6)))))"

definition hs_open :: "('w, 'p) hedged_stream" where
  "hs_open = \<lparr>hsReq = None, hsCancel = None, hsFallback = None, hsReceived = False\<rparr>"

text \<open>The interceptor: an ineligible call opens the next stream at once.\<close>

definition v2_ClientInterceptor ::
  "hedge_config \<Rightarrow> stream_type \<Rightarrow> spec \<Rightarrow> ('w, err + ('w, 'p) client_stream) io \<Rightarrow>
   ('w, err + (('w, 'p) client_stream + ('w, 'p) hedged_stream)) io" where
  "v2_ClientInterceptor cfg0 st sp open_next w =
     (let cfg = v2_fill cfg0 in
      if \<not> eligible cfg st sp then
        (case open_next w of
           (Inl e, w') \<Rightarrow> (Inl (EWrap ''hedge: open stream'' e), w')
         | (Inr stream, w') \<Rightarrow> (Inr (Inl stream), w'))
      else (Inr (Inr hs_open), w))"

definition hs_SendHeaders :: "('w, 'p) hedged_stream \<Rightarrow> err option" where
  "hs_SendHeaders s = None"

definition hs_Send ::
  "('w, err + ('w, 'p) client_stream) io \<Rightarrow> 'p any_msg \<Rightarrow> ('w, 'p) hedged_stream \<Rightarrow>
   ('w, err option \<times> ('w, 'p) hedged_stream) io" where
  "hs_Send open_next msg s w =
     (case hsFallback s of
        Some f \<Rightarrow> (case csSend f msg w of (e, w') \<Rightarrow> ((wrapStreamErr ''send'' e, s), w'))
      | None \<Rightarrow>
          (case msg of
             ProtoMsg p \<Rightarrow> ((None, s\<lparr>hsReq := Some p\<rparr>), w)
           | OtherMsg \<Rightarrow>
               (case open_next w of
                  (Inl e, w') \<Rightarrow> ((Some (EWrap ''hedge: open stream'' e), s), w')
                | (Inr stream, w') \<Rightarrow>
                    (case csSend stream msg w' of
                       (e, w2) \<Rightarrow> ((wrapStreamErr ''send'' e, s\<lparr>hsFallback := Some stream\<rparr>), w2)))))"

definition hs_CloseSend :: "('w, 'p) hedged_stream \<Rightarrow> ('w, err option) io" where
  "hs_CloseSend s w =
     (case hsFallback s of
        Some f \<Rightarrow> (case csCloseSend f w of (e, w') \<Rightarrow> (wrapStreamErr ''close send'' e, w'))
      | None \<Rightarrow> (None, w))"

definition hs_Receive ::
  "('p \<Rightarrow> ('w, 'p option \<times> err option) io) \<Rightarrow> bool \<Rightarrow> ('w, 'p) hedged_stream \<Rightarrow>
   ('w, ('p option \<times> err option) \<times> ('w, 'p) hedged_stream) io" where
  "hs_Receive run_race out_is_proto s w =
     (case hsFallback s of
        Some f \<Rightarrow> (case csReceive f w of ((p, e), w') \<Rightarrow> (((p, wrapStreamErr ''receive'' e), s), w'))
      | None \<Rightarrow>
          if hsReceived s then (((None, Some (ESentinel IoEOF)), s), w)
          else
            (let s1 = s\<lparr>hsReceived := True\<rparr> in
             case hsReq s1 of
               Some req \<Rightarrow>
                 if \<not> out_is_proto
                 then (((None, Some (EConnect CodeInternal (EText ''hedge: receive before a protobuf send'') [])), s1), w)
                 else (case run_race req w of (r, w') \<Rightarrow> ((r, s1\<lparr>hsCancel := Some True\<rparr>), w'))
             | None \<Rightarrow> (((None, Some (EConnect CodeInternal (EText ''hedge: receive before a protobuf send'') [])), s1), w)))"

definition hs_Close :: "('w, 'p) hedged_stream \<Rightarrow> ('w, err option \<times> ('w, 'p) hedged_stream) io" where
  "hs_Close s w =
     (let s1 = (case hsCancel s of None \<Rightarrow> s | Some _ \<Rightarrow> s\<lparr>hsCancel := Some True\<rparr>) in
      case hsFallback s of
        Some f \<Rightarrow> (case csClose f w of (e, w') \<Rightarrow> ((wrapStreamErr ''close'' e, s1), w'))
      | None \<Rightarrow> ((None, s1), w))"

lemma wrapStreamErr_eof: "e = Some x \<Longrightarrow> errors_is x IoEOF \<Longrightarrow> wrapStreamErr opn e = e"
  by (simp add: wrapStreamErr_def)

text \<open>
  The deferred stream drives one race per call: after Send of a protobuf message nothing has
  been opened, the first Receive runs the race on exactly that message and returns its result,
  a second Receive is the end of the stream, and a Receive before any Send fails without
  opening an attempt.
\<close>

theorem hedgev2_stream_races_once:
  "(case hs_Send open_next (ProtoMsg p) hs_open w of
     ((e1, s1), w1) \<Rightarrow> e1 = None \<and> w1 = w \<and> hs_CloseSend s1 w1 = (None, w) \<and>
       (case hs_Receive run_race True s1 w1 of
          ((r, s2), w2) \<Rightarrow> (r, w2) = run_race p w \<and>
            hs_Receive run_race True s2 w2 = (((None, Some (ESentinel IoEOF)), s2), w2))) \<and>
   fst (fst (hs_Receive run_race True hs_open w)) =
     (None, Some (EConnect CodeInternal (EText ''hedge: receive before a protobuf send'') [])) \<and>
   snd (hs_Receive run_race True hs_open w) = w"
  by (auto simp: hs_Send_def hs_open_def hs_CloseSend_def hs_Receive_def split: prod.splits)

end
