(* ===== verification/Hedge_Objects.thy ===== *)
theory Hedge_Objects
  imports Hedge
begin

text \<open>
  The objects of a hedged call in the prototype \<^verbatim>\<open>src/experimental/hedgev2/hedge.go\<close>: what \<^verbatim>\<open>launch\<close>
  allocates for an attempt, what an attempt may write to, and what \<^verbatim>\<open>adopt\<close> copies back. Call
  infos and messages live in an explicit store and are shared by address, so aliasing between
  attempts would show. Connect's header type and the protobuf runtime are parameters with the laws
  their documentation gives (\<open>header_laws\<close>, \<open>proto_laws\<close>).
\<close>

section \<open>Headers and messages\<close>










section \<open>The store\<close>







section \<open>Interleavings\<close>












section \<open>Isolation\<close>



section \<open>A concrete race\<close>






end
