(* ===== verification/Pagination.thy ===== *)
theory Pagination
  imports Errors
begin

text \<open>
  The pagination helpers of \<^verbatim>\<open>src/pagination/pagination.go\<close>. A fetch returns the items, the
  next token and an error; a consumer is the \<^verbatim>\<open>yield\<close> function of a range loop, which answers
  whether to go on. \<open>iter_loop\<close> need not end (a server may always name a next page), so it is a
  partial function into option, and the theorems prove that it returns. The parallel variant
  is a step relation over the producer, the channel and the consumer.
\<close>

type_synonym 'a page = "'a list \<times> string \<times> err option"

text \<open>What the iterator yields: an item, or the zero value with an error.\<close>

datatype 'a yielded = Item 'a | Fail err

section \<open>Sequential iteration\<close>

fun yield_items :: "('a yielded \<Rightarrow> ('w, bool) io) \<Rightarrow> 'a list \<Rightarrow> ('w, bool) io" where
  "yield_items yield [] w = (True, w)"
| "yield_items yield (x # xs) w =
     (case yield (Item x) w of (True, w') \<Rightarrow> yield_items yield xs w' | (False, w') \<Rightarrow> (False, w'))"

partial_function (option) iter_loop ::
  "('w, err option) io \<Rightarrow> (string \<Rightarrow> ('w, 'a page) io) \<Rightarrow> ('a yielded \<Rightarrow> ('w, bool) io) \<Rightarrow> string \<Rightarrow> 'w \<Rightarrow> 'w option" where
  "iter_loop ctxErr fetch yield token w =
     (case ctxErr w of
        (Some e, w1) \<Rightarrow> Some (snd (yield (Fail e) w1))
      | (None, w1) \<Rightarrow>
          (case fetch token w1 of
             ((its, nxt, Some e), w2) \<Rightarrow> Some (snd (yield (Fail e) w2))
           | ((its, nxt, None), w2) \<Rightarrow>
               (case yield_items yield its w2 of
                  (more, w3) \<Rightarrow>
                    if \<not> more then Some w3
                    else if nxt = [] then Some w3 else iter_loop ctxErr fetch yield nxt w3)))"

definition Iter ::
  "('w, err option) io \<Rightarrow> (string \<Rightarrow> ('w, 'a page) io) \<Rightarrow> ('a yielded \<Rightarrow> ('w, bool) io) \<Rightarrow> 'w \<Rightarrow> 'w option" where
  "Iter ctxErr fetch yield w = iter_loop ctxErr fetch yield [] w"

text \<open>The loop body of \<^verbatim>\<open>Collect\<close> as a consumer over the slice and the error collected so far.\<close>

definition collect_yield :: "'a yielded \<Rightarrow> (('a list \<times> err option) \<times> 'w, bool) io" where
  "collect_yield y = (\<lambda>((xs, e), w).
     case y of Item x \<Rightarrow> (True, (xs @ [x], e), w) | Fail er \<Rightarrow> (False, (xs, Some er), w))"

definition Collect_pages ::
  "('w, err option) io \<Rightarrow> (string \<Rightarrow> ('w, 'a page) io) \<Rightarrow> 'w \<Rightarrow> (('a list \<times> err option) \<times> 'w) option" where
  "Collect_pages ctxErr fetch w =
     Iter (\<lambda>(g, w). case ctxErr w of (e, w') \<Rightarrow> (e, g, w'))
       (\<lambda>tok (g, w). case fetch tok w of (p, w') \<Rightarrow> (p, g, w')) collect_yield (([], None), w)"

section \<open>Pages in order\<close>

definition terminal :: "'a page \<Rightarrow> bool" where
  "terminal = (\<lambda>(its, nxt, e). e \<noteq> None \<or> nxt = [])"

definition next_token :: "'a page \<Rightarrow> string" where
  "next_token = (\<lambda>(its, nxt, e). nxt)"

text \<open>The pages of a server \<open>f\<close> from a token to the last one.\<close>

fun page_path :: "(string \<Rightarrow> 'a page) \<Rightarrow> string \<Rightarrow> 'a page list \<Rightarrow> bool" where
  "page_path f tok [] = False"
| "page_path f tok (p # ps) \<longleftrightarrow> f tok = p \<and> (if terminal p then ps = [] else page_path f (next_token p) ps)"

definition page_yields :: "'a page \<Rightarrow> 'a yielded list" where
  "page_yields = (\<lambda>(its, nxt, e). case e of None \<Rightarrow> map Item its | Some er \<Rightarrow> [Fail er])"

text \<open>A consumer that records what it gets and stops after \<open>k\<close> values.\<close>

definition recording :: "nat \<Rightarrow> 'a yielded \<Rightarrow> ('a yielded list \<times> 'w, bool) io" where
  "recording k y = (\<lambda>(l, w). (Suc (length l) < k, l @ [y], w))"

lemma yield_items_recording:
  assumes "length l < k"
  shows "yield_items (recording k) its (l, w) =
    (length l + length its < k, take k (l @ map Item its), w)"
  using assms
proof (induction its arbitrary: l)
  case (Cons x its)
  show ?case
  proof (cases "Suc (length l) < k")
    case True
    then show ?thesis using Cons.IH [of "l @ [Item x]"] by (simp add: recording_def)
  next
    case False
    then have "k = Suc (length l)" using Cons.prems by simp
    then show ?thesis by (simp add: recording_def)
  qed
qed simp

definition quiet :: "('g \<times> 'w, err option) io" where
  "quiet w = (None, w)"

definition pure_fetch :: "(string \<Rightarrow> 'a page) \<Rightarrow> string \<Rightarrow> ('w, 'a page) io" where
  "pure_fetch f tok w = (f tok, w)"

lemma env_app: "quiet (g, w) = (None, g, w)" "pure_fetch f tok (g, v) = (f tok, g, v)"
  by (simp_all add: quiet_def pure_fetch_def)

lemma iter_loop_path:
  assumes "page_path f tok ps" and "length l < k"
  shows "iter_loop quiet (pure_fetch f) (recording k) tok (l, w) =
    Some (take k (l @ concat (map page_yields ps)), w)"
  using assms
proof (induction ps arbitrary: tok l)
  case (Cons p ps)
  obtain its nxt e where p: "p = (its, nxt, e)" by (cases p)
  have f: "f tok = (its, nxt, e)" using Cons.prems(1) p by simp
  show ?case
  proof (cases e)
    case (Some er)
    then have "ps = []" using Cons.prems(1) p by (simp add: terminal_def)
    then show ?thesis
      using Some f p Cons.prems(2)
      by (subst iter_loop.simps) (simp add: env_app recording_def page_yields_def)
  next
    case None
    have y: "yield_items (recording k) its (l, w) = (length l + length its < k, take k (l @ map Item its), w)"
      using yield_items_recording [OF Cons.prems(2)] .
    consider "k \<le> length l + length its" | "length l + length its < k" "nxt = []" | "length l + length its < k" "nxt \<noteq> []"
      by linarith
    then show ?thesis
    proof cases
      case 1
      then show ?thesis using None f p y
        by (subst iter_loop.simps) (simp add: env_app page_yields_def)
    next
      case 2
      then have "ps = []" using Cons.prems(1) p by (simp add: terminal_def)
      then show ?thesis using 2 None f p y
        by (subst iter_loop.simps) (simp add: env_app page_yields_def)
    next
      case 3
      then have "page_path f nxt ps" using Cons.prems(1) p None by (simp add: terminal_def next_token_def)
      from Cons.IH [OF this, of "l @ map Item its"] 3 show ?thesis
        using None f p y
        by (subst iter_loop.simps) (simp add: env_app page_yields_def)
    qed
  qed
qed simp

text \<open>
  [C16] Iter walks every item of every page in order: with a server that serves a finite chain of
  pages and an open context it returns, and a consumer that stops after \<open>k\<close> values has seen
  exactly the first \<open>k\<close> of all items of all pages followed by the error of the last page, if it
  has one.
\<close>

theorem iter_yields_all_pages:
  assumes "page_path f [] ps" and "0 < k"
  shows "Iter quiet (pure_fetch f) (recording k) ([], w) = Some (take k (concat (map page_yields ps)), w)"
  using iter_loop_path [OF assms(1), of "[]" k] assms(2) by (simp add: Iter_def)

definition page_items :: "'a page \<Rightarrow> 'a list" where
  "page_items = (\<lambda>(its, nxt, e). if e = None then its else [])"

definition page_err :: "'a page \<Rightarrow> err option" where
  "page_err = (\<lambda>(its, nxt, e). e)"

lemma yield_items_collect: "yield_items collect_yield its ((xs, e), w) = (True, (xs @ its, e), w)"
  by (induction its arbitrary: xs) (auto simp: collect_yield_def)

lemma collect_loop_path:
  assumes "page_path f tok ps"
  shows "iter_loop quiet (pure_fetch f) collect_yield tok ((xs, None), w) =
    Some ((xs @ concat (map page_items ps), page_err (last ps)), w)"
  using assms
proof (induction ps arbitrary: tok xs)
  case (Cons p ps)
  obtain its nxt e where p: "p = (its, nxt, e)" by (cases p)
  have f: "f tok = (its, nxt, e)" using Cons.prems p by simp
  consider er where "e = Some er" "ps = []" | "e = None" "nxt = []" "ps = []" | "e = None" "nxt \<noteq> []" "page_path f nxt ps" "ps \<noteq> []"
    using Cons.prems p by (cases e; cases "nxt = []"; cases ps) (auto simp: terminal_def next_token_def)
  then show ?case
  proof cases
    case 1
    then show ?thesis using f p
      by (subst iter_loop.simps) (simp add: env_app collect_yield_def page_items_def page_err_def)
  next
    case 2
    then show ?thesis using f p
      by (subst iter_loop.simps) (simp add: env_app yield_items_collect page_items_def page_err_def)
  next
    case 3
    then show ?thesis using f p Cons.IH [OF 3(3)]
      by (subst iter_loop.simps) (simp add: env_app yield_items_collect page_items_def)
  qed
qed simp

lemma lift_quiet: "(\<lambda>(g, w). case (None, w) of (e, w') \<Rightarrow> (e, g, w')) = quiet"
  by (rule ext) (auto simp: env_app)

lemma lift_pure_fetch: "(\<lambda>tok (g, w). case pure_fetch f tok w of (p, w') \<Rightarrow> (p, g, w')) = pure_fetch f"
  by (intro ext) (auto simp: pure_fetch_def)

text \<open>
  Collect returns every item of every page up to the first failing one, in order, together
  with that page's error.
\<close>

theorem collect_all_items:
  assumes "page_path f [] ps"
  shows "Collect_pages (\<lambda>w. (None, w)) (pure_fetch f) w = Some ((concat (map page_items ps), page_err (last ps)), w)"
  unfolding Collect_pages_def Iter_def lift_quiet lift_pure_fetch using collect_loop_path [OF assms, of "[]" w]
  by (simp only: append_Nil)

section \<open>Parallel prefetch\<close>

text \<open>
  The producer is fetching a page, offering one on the channel, or gone (the channel closed).
  \<open>iCancelled\<close> is whether the producer's context has ended, by the caller or by the consumer's
  return; \<open>iStopped\<close> whether the consumer's loop body asked to stop. \<open>iConsumed\<close> records the
  pages received.
\<close>

datatype 'a producer = Fetching string | Sending "'a page" | Gone

record 'a iter_sys =
  iProd :: "'a producer"
  iChan :: "'a page list"
  iCancelled :: bool
  iConsumed :: "'a page list"
  iItems :: "'a list"
  iYields :: "'a yielded list"
  iDone :: bool
  iStopped :: bool

definition iter_start :: "'a iter_sys" where
  "iter_start = \<lparr>iProd = Fetching [], iChan = [], iCancelled = False, iConsumed = [], iItems = [], iYields = [],
     iDone = False, iStopped = False\<rparr>"


text \<open>Where the producer goes after it sent a page.\<close>

definition after_send :: "'a page \<Rightarrow> 'a producer" where
  "after_send p = (if terminal p then Gone else Fetching (next_token p))"

inductive iter_step :: "(string \<Rightarrow> 'a page) \<Rightarrow> nat \<Rightarrow> 'a iter_sys \<Rightarrow> 'a iter_sys \<Rightarrow> bool" for f lookahead where
  fetch: "iProd s = Fetching tok \<Longrightarrow> iter_step f lookahead s (s\<lparr>iProd := Sending (f tok)\<rparr>)"
| send: "iProd s = Sending p \<Longrightarrow> length (iChan s) < lookahead \<Longrightarrow>
    iter_step f lookahead s (s\<lparr>iProd := after_send p, iChan := iChan s @ [p]\<rparr>)"
| abort: "iProd s = Sending p \<Longrightarrow> iCancelled s \<Longrightarrow> iter_step f lookahead s (s\<lparr>iProd := Gone\<rparr>)"
| cancel: "\<not> iDone s \<Longrightarrow> iter_step f lookahead s (s\<lparr>iCancelled := True\<rparr>)"
| recv_items: "\<not> iDone s \<Longrightarrow> iItems s = [] \<Longrightarrow> iChan s = p # q \<Longrightarrow> p = (its, nxt, None) \<Longrightarrow>
    iter_step f lookahead s (s\<lparr>iChan := q, iConsumed := iConsumed s @ [p], iItems := its\<rparr>)"
| recv_err: "\<not> iDone s \<Longrightarrow> iItems s = [] \<Longrightarrow> iChan s = p # q \<Longrightarrow> p = (its, nxt, Some e) \<Longrightarrow>
    iter_step f lookahead s (s\<lparr>iChan := q, iConsumed := iConsumed s @ [p], iYields := iYields s @ [Fail e],
      iDone := True, iCancelled := True\<rparr>)"
| yield: "\<not> iDone s \<Longrightarrow> iItems s = x # xs \<Longrightarrow>
    iter_step f lookahead s (s\<lparr>iItems := xs, iYields := iYields s @ [Item x]\<rparr>)"
| yield_stop: "\<not> iDone s \<Longrightarrow> iItems s = x # xs \<Longrightarrow>
    iter_step f lookahead s (s\<lparr>iItems := xs, iYields := iYields s @ [Item x], iDone := True, iStopped := True,
      iCancelled := True\<rparr>)"
| range_end: "\<not> iDone s \<Longrightarrow> iItems s = [] \<Longrightarrow> iChan s = [] \<Longrightarrow> iProd s = Gone \<Longrightarrow>
    iter_step f lookahead s (s\<lparr>iDone := True, iCancelled := True\<rparr>)"

definition held :: "'a producer \<Rightarrow> 'a page list" where
  "held pr = (case pr of Sending p \<Rightarrow> [p] | _ \<Rightarrow> [])"

text \<open>What the producer still has to fetch, for a server whose whole chain of pages is finite.\<close>

definition to_fetch :: "(string \<Rightarrow> 'a page) \<Rightarrow> 'a producer \<Rightarrow> 'a page list \<Rightarrow> bool" where
  "to_fetch f pr rest \<longleftrightarrow>
     (case pr of
        Fetching tok \<Rightarrow> page_path f tok rest
      | Sending p \<Rightarrow> if terminal p then rest = [] else page_path f (next_token p) rest
      | Gone \<Rightarrow> rest = [])"

text \<open>
  The pages received, buffered and offered are a prefix of the chain (all of it once the
  producer is gone, unless it was cancelled), and what was yielded is what the received pages
  hold less the items still to be yielded.
\<close>

definition iter_inv :: "(string \<Rightarrow> 'a page) \<Rightarrow> nat \<Rightarrow> 'a page list \<Rightarrow> 'a iter_sys \<Rightarrow> bool" where
  "iter_inv f lookahead ps s \<longleftrightarrow>
     (\<exists>rest. iConsumed s @ iChan s @ held (iProd s) @ rest = ps \<and> (iCancelled s \<or> to_fetch f (iProd s) rest) \<and>
        (iProd s \<noteq> Gone \<longrightarrow> to_fetch f (iProd s) rest)) \<and>
     iYields s @ map Item (iItems s) = concat (map page_yields (iConsumed s)) \<and>
     length (iChan s) \<le> lookahead \<and> (iDone s \<longrightarrow> iCancelled s) \<and>
     (iDone s \<and> \<not> iStopped s \<longrightarrow> iItems s = [])"

lemma iter_inv_start: "page_path f [] ps \<Longrightarrow> iter_inv f lookahead ps iter_start"
  by (simp add: iter_inv_def iter_start_def held_def to_fetch_def)

lemma page_path_step: "page_path f tok rest \<Longrightarrow> \<exists>rest'. rest = f tok # rest' \<and> to_fetch f (Sending (f tok)) rest'"
  by (cases rest) (auto simp: to_fetch_def split: if_splits)

lemma iter_inv_step: "iter_step f lookahead s s' \<Longrightarrow> iter_inv f lookahead ps s \<Longrightarrow> iter_inv f lookahead ps s'"
proof (induction rule: iter_step.induct)
  case (fetch s tok)
  then obtain rest where r: "iConsumed s @ iChan s @ rest = ps" "page_path f tok rest"
    by (auto simp: iter_inv_def held_def to_fetch_def)
  then obtain rest' where "rest = f tok # rest'" "to_fetch f (Sending (f tok)) rest'" using page_path_step by blast
  with fetch r(1) show ?case by (auto simp: iter_inv_def held_def)
next
  case (send s p)
  then obtain rest where r: "iConsumed s @ iChan s @ p # rest = ps" "to_fetch f (Sending p) rest"
    by (auto simp: iter_inv_def held_def)
  then have "iConsumed s @ (iChan s @ [p]) @ held (after_send p) @ rest = ps" "to_fetch f (after_send p) rest"
    by (auto simp: held_def after_send_def to_fetch_def split: if_splits)
  with send show ?case unfolding iter_inv_def by (auto intro!: exI [of _ rest])
next
  case (abort s p)
  then show ?case by (auto simp: iter_inv_def held_def)
next
  case (cancel s)
  then show ?case by (auto simp: iter_inv_def)
next
  case (recv_items s p q its nxt)
  then show ?case by (auto simp: iter_inv_def page_yields_def)
next
  case (recv_err s p q its nxt e)
  then show ?case by (auto simp: iter_inv_def page_yields_def)
next
  case (yield s x xs)
  then show ?case by (auto simp: iter_inv_def)
next
  case (yield_stop s x xs)
  then show ?case by (auto simp: iter_inv_def)
next
  case (range_end s)
  then show ?case by (auto simp: iter_inv_def)
qed

text \<open>Runs in which the caller's context is not cancelled from outside.\<close>

definition iter_step_uncancelled :: "(string \<Rightarrow> 'a page) \<Rightarrow> nat \<Rightarrow> 'a iter_sys \<Rightarrow> 'a iter_sys \<Rightarrow> bool" where
  "iter_step_uncancelled f lookahead s s' \<longleftrightarrow> iter_step f lookahead s s' \<and> (iDone s' \<or> iCancelled s' = iCancelled s)"


lemma terminal_last: "page_path f tok (as @ p # bs) \<Longrightarrow> terminal p \<Longrightarrow> bs = []"
proof (induction as arbitrary: tok)
  case (Cons a as)
  then show ?case by (auto split: if_splits)
qed simp

definition iter_complete :: "(string \<Rightarrow> 'a page) \<Rightarrow> nat \<Rightarrow> 'a page list \<Rightarrow> 'a iter_sys \<Rightarrow> bool" where
  "iter_complete f lookahead ps s \<longleftrightarrow> page_path f [] ps \<and> iter_inv f lookahead ps s \<and> (\<not> iDone s \<longrightarrow> \<not> iCancelled s) \<and>
     (iDone s \<and> \<not> iStopped s \<longrightarrow> iYields s = concat (map page_yields ps))"

lemma iter_complete_step:
  assumes step: "iter_step f lookahead s s'" and unc: "iDone s' \<or> iCancelled s' = iCancelled s"
    and inv: "iter_complete f lookahead ps s"
  shows "iter_complete f lookahead ps s'"
proof -
  have inv': "iter_inv f lookahead ps s'" using iter_inv_step [OF step] inv by (simp add: iter_complete_def)
  have path: "page_path f [] ps" using inv by (simp add: iter_complete_def)
  have "(\<not> iDone s' \<longrightarrow> \<not> iCancelled s') \<and> (iDone s' \<and> \<not> iStopped s' \<longrightarrow> iYields s' = concat (map page_yields ps))"
    using step unc inv
  proof (induction rule: iter_step.induct)
    case (recv_err s p q its nxt e)
    then obtain rest where r: "iConsumed s @ p # (q @ held (iProd s) @ rest) = ps"
      by (auto simp: iter_complete_def iter_inv_def)
    have "terminal p" using recv_err by (simp add: terminal_def)
    then have "ps = iConsumed s @ [p]" using terminal_last [OF path [folded r]] r by auto
    then show ?case using recv_err by (simp add: iter_complete_def iter_inv_def page_yields_def)
  next
    case (range_end s)
    then have "iConsumed s = ps" by (auto simp: iter_complete_def iter_inv_def held_def to_fetch_def)
    then show ?case using range_end by (auto simp: iter_complete_def iter_inv_def)
  qed (auto simp: iter_complete_def)
  then show ?thesis using inv' path by (simp add: iter_complete_def)
qed

interpretation uncancelled: inductive_invariant "\<lambda>s. s = iter_start \<and> page_path f [] ps"
  "iter_step_uncancelled f lookahead" "iter_complete f lookahead ps" for f lookahead ps
proof unfold_locales
  fix s :: "'a iter_sys"
  assume "s = iter_start \<and> page_path f [] ps"
  then show "iter_complete f lookahead ps s"
    using iter_inv_start [of f ps lookahead] by (auto simp: iter_complete_def iter_start_def)
next
  fix s t :: "'a iter_sys"
  assume inv: "iter_complete f lookahead ps s" and "iter_step_uncancelled f lookahead s t"
  then show "iter_complete f lookahead ps t"
    unfolding iter_step_uncancelled_def using iter_complete_step [OF _ _ inv] by blast
qed

lemma uncancelledI:
  "iter_step f lookahead s s' \<Longrightarrow> iDone s' \<or> iCancelled s' = iCancelled s \<Longrightarrow> \<exists>s'. iter_step_uncancelled f lookahead s s'"
  by (auto simp: iter_step_uncancelled_def)

lemma reachable_conj: "reachable (\<lambda>s. s = a) st s \<Longrightarrow> P \<Longrightarrow> reachable (\<lambda>s. s = a \<and> P) st s"
  by (induction rule: reachable.induct) (auto intro: reach_init reach_step)


text \<open>
  [C15] IterParallel is complete when nobody cancels: once the iteration has ended and the
  consumer did not stop it, every item of every page has been yielded (and the error, if the
  last page failed). Nor can it hang: before the end some step other than a cancellation is
  possible, and after it a producer that still offers a page can leave.
\<close>

theorem iter_parallel_complete:
  assumes "page_path f [] ps" and "1 \<le> lookahead"
    and "reachable (\<lambda>s. s = iter_start) (iter_step_uncancelled f lookahead) s"
  shows "(iDone s \<and> \<not> iStopped s \<longrightarrow> iYields s = concat (map page_yields ps)) \<and>
    (\<not> iDone s \<longrightarrow> (\<exists>s'. iter_step_uncancelled f lookahead s s')) \<and>
    (\<forall>p. iDone s \<and> iProd s = Sending p \<longrightarrow> iter_step f lookahead s (s\<lparr>iProd := Gone\<rparr>))"
proof -
  have inv: "iter_complete f lookahead ps s"
    using uncancelled.inv_reachable [OF reachable_conj [OF assms(3,1)]] .
  have "\<exists>s'. iter_step_uncancelled f lookahead s s'" if d: "\<not> iDone s"
  proof -
    consider x xs where "iItems s = x # xs" | p q where "iItems s = []" "iChan s = p # q"
      | tok where "iProd s = Fetching tok" | p where "iProd s = Sending p" "iChan s = []"
      | "iItems s = []" "iChan s = []" "iProd s = Gone"
      by (metis list.exhaust producer.exhaust)
    then show ?thesis
    proof cases
      case (1 x xs)
      show ?thesis by (rule uncancelledI [OF iter_step.yield [OF d 1]]) simp
    next
      case (2 p q)
      obtain its nxt e where p: "p = (its, nxt, e)" by (cases p)
      show ?thesis
      proof (cases e)
        case None
        with p have p1: "p = (its, nxt, None)" by simp
        show ?thesis by (rule uncancelledI [OF iter_step.recv_items [OF d 2 p1]]) simp
      next
        case (Some er)
        with p have p1: "p = (its, nxt, Some er)" by simp
        show ?thesis by (rule uncancelledI [OF iter_step.recv_err [OF d 2 p1]]) simp
      qed
    next
      case (3 tok)
      show ?thesis by (rule uncancelledI [OF iter_step.fetch [OF 3]]) simp
    next
      case (4 p)
      have room: "length (iChan s) < lookahead" using 4(2) assms(2) by simp
      show ?thesis by (rule uncancelledI [OF iter_step.send [OF 4(1) room]]) simp
    next
      case 5
      show ?thesis by (rule uncancelledI [OF iter_step.range_end [OF d 5]]) simp
    qed
  qed
  moreover have "iter_step f lookahead s (s\<lparr>iProd := Gone\<rparr>)" if "iDone s" "iProd s = Sending p" for p
    using that inv by (intro iter_step.abort) (auto simp: iter_complete_def iter_inv_def)
  ultimately show ?thesis using inv by (auto simp: iter_complete_def)
qed

section \<open>Concrete servers\<close>

definition two_pages :: "string \<Rightarrow> nat page" where
  "two_pages tok = (if tok = [] then ([1], ''t'', None) else ([2], [], None))"


lemma two_pages_path: "page_path two_pages [] [([1], ''t'', None), ([2], [], None)]"
  by (simp add: two_pages_def terminal_def next_token_def)


theorem iter_yields_all_pages_witness:
  "Iter quiet (pure_fetch two_pages) (recording 9) ([], ()) = Some ([Item 1, Item 2], ())"
  using iter_yields_all_pages [OF two_pages_path, of 9] by (simp add: page_yields_def)

theorem collect_all_items_witness:
  "Collect_pages (\<lambda>w. (None, w)) (pure_fetch two_pages) () = Some (([1, 2], None), ())"
  using collect_all_items [OF two_pages_path] by (simp add: page_items_def page_err_def)


theorem iter_parallel_complete_witness:
  "\<exists>s'. iter_step_uncancelled two_pages 2 iter_start s'"
proof -
  have "reachable (\<lambda>s. s = iter_start) (iter_step_uncancelled two_pages 2) iter_start" by (rule reach_init) (rule refl)
  from iter_parallel_complete [OF two_pages_path _ this] show ?thesis by (simp add: iter_start_def)
qed

end
