(* ===== verification/Breaker.thy ===== *)
theory Breaker
  imports Rpc
begin

text \<open>
  The circuit breaker of \<^verbatim>\<open>src/breaker/breaker.go\<close>: its configuration and state records,
  \<^verbatim>\<open>New\<close>, \<^verbatim>\<open>allow\<close>, \<^verbatim>\<open>record\<close> and the interceptor, an abstract breaker whose closed state
  is the list of the most recent outcomes, and the calls of several goroutines as a step
  relation. Every method holds the mutex, so a method call is one step. Instants are counted
  from Go's zero time. The injected clock and Connect's \<^verbatim>\<open>NewErrorDetail\<close> are parameters
  (\<open>clk\<close>, \<open>mk_detail\<close>); the \<^verbatim>\<open>default\<close> branches of the switches are for values of
  \<^verbatim>\<open>State\<close> no assignment produces.
\<close>

section \<open>Configuration and state\<close>

datatype State = StateClosed | StateOpen | StateHalfOpen

fun State_String :: "State \<Rightarrow> string" where
  "State_String StateClosed = ''closed''"
| "State_String StateOpen = ''open''"
| "State_String StateHalfOpen = ''half-open''"

record breaker_config =
  IsFailure :: "(err \<Rightarrow> bool) option"
  FailureCodes :: "code list"
  OpenDuration :: int
  WindowSize :: int
  FailureThreshold :: int
  SuccessThreshold :: int
  HalfOpenTrials :: int

definition DefaultWindowSize :: int where "DefaultWindowSize = 20"
definition DefaultFailureThreshold :: int where "DefaultFailureThreshold = 5"
definition DefaultSuccessThreshold :: int where "DefaultSuccessThreshold = 3"
definition DefaultHalfOpenTrials :: int where "DefaultHalfOpenTrials = 1"
definition DefaultOpenDuration :: int where "DefaultOpenDuration = 5 * second"
definition halfOpenRejectionDelay :: int where "halfOpenRejectionDelay = 100 * millisecond"

lemmas breaker_defaults = DefaultWindowSize_def DefaultFailureThreshold_def
  DefaultSuccessThreshold_def DefaultHalfOpenTrials_def DefaultOpenDuration_def
  halfOpenRejectionDelay_def

definition breaker_DefaultConfig :: breaker_config where
  "breaker_DefaultConfig =
     \<lparr>IsFailure = None,
      FailureCodes = [CodeUnavailable, CodeDeadlineExceeded, CodeResourceExhausted, CodeInternal],
      OpenDuration = DefaultOpenDuration,
      WindowSize = DefaultWindowSize,
      FailureThreshold = DefaultFailureThreshold,
      SuccessThreshold = DefaultSuccessThreshold,
      HalfOpenTrials = DefaultHalfOpenTrials\<rparr>"

record breaker =
  openedAt :: int
  window :: "bool list"
  bcfg :: breaker_config
  bstate :: State
  windowIdx :: int
  consecutiveSuccesses :: int
  halfOpenInFlight :: int
  windowFilled :: bool

section \<open>Operations\<close>

definition breaker_fill :: "breaker_config \<Rightarrow> breaker_config" where
  "breaker_fill c =
     c\<lparr>WindowSize := (if WindowSize c < 1 then DefaultWindowSize else WindowSize c),
       FailureThreshold := (if FailureThreshold c < 1 then DefaultFailureThreshold else FailureThreshold c),
       SuccessThreshold := (if SuccessThreshold c < 1 then DefaultSuccessThreshold else SuccessThreshold c),
       HalfOpenTrials := (if HalfOpenTrials c < 1 then DefaultHalfOpenTrials else HalfOpenTrials c),
       OpenDuration := (if OpenDuration c \<le> 0 then DefaultOpenDuration else OpenDuration c)\<rparr>"

definition breaker_New :: "breaker_config \<Rightarrow> breaker" where
  "breaker_New c =
     (let c' = breaker_fill c in
      \<lparr>openedAt = 0, window = replicate (nat (WindowSize c')) False, bcfg = c',
       bstate = StateClosed, windowIdx = 0, consecutiveSuccesses = 0, halfOpenInFlight = 0,
       windowFilled = False\<rparr>)"

definition openError :: "(int \<Rightarrow> detail option) \<Rightarrow> State \<Rightarrow> int \<Rightarrow> err" where
  "openError mk_detail s retryAfter =
     (let d = (if retryAfter < 0 then 0 else retryAfter);
          cause = EText (''breaker: '' @ State_String s)
      in case mk_detail d of
           None \<Rightarrow> EConnect CodeUnavailable cause []
         | Some dt \<Rightarrow> EConnect CodeUnavailable cause [dt])"

definition breaker_Interceptor :: "breaker_config \<Rightarrow> breaker" where
  "breaker_Interceptor cfg = breaker_New cfg"

definition breaker_State :: "breaker \<Rightarrow> State" where
  "breaker_State b = bstate b"

definition allow ::
  "'w clock \<Rightarrow> (int \<Rightarrow> detail option) \<Rightarrow> breaker \<Rightarrow> 'w \<Rightarrow> err option \<times> breaker \<times> 'w" where
  "allow clk mk_detail b w =
     (case bstate b of
        StateClosed \<Rightarrow> (None, b, w)
      | StateOpen \<Rightarrow>
          (let (t1, w1) = clk w in
           if OpenDuration (bcfg b) \<le> time_sub t1 (openedAt b)
           then (None, b\<lparr>bstate := StateHalfOpen, halfOpenInFlight := 1, consecutiveSuccesses := 0\<rparr>, w1)
           else
             (let (t2, w2) = clk w1;
                  remaining = wrap64 (OpenDuration (bcfg b) - time_sub t2 (openedAt b))
              in (Some (openError mk_detail (bstate b) remaining), b, w2)))
      | StateHalfOpen \<Rightarrow>
          (if HalfOpenTrials (bcfg b) \<le> halfOpenInFlight b
           then (Some (openError mk_detail (bstate b) halfOpenRejectionDelay), b, w)
           else (None, b\<lparr>halfOpenInFlight := halfOpenInFlight b + 1\<rparr>, w)))"

fun count_failures :: "bool list \<Rightarrow> nat \<Rightarrow> nat \<Rightarrow> int \<Rightarrow> int" where
  "count_failures win i 0 fails = fails"
| "count_failures win i (Suc n) fails =
     count_failures win (Suc i) n (if \<not> win ! i then fails + 1 else fails)"

definition failureCountLocked :: "breaker \<Rightarrow> int" where
  "failureCountLocked b =
     (let n = (if \<not> windowFilled b then windowIdx b else WindowSize (bcfg b))
      in count_failures (window b) 0 (nat n) 0)"

definition tripOpenLocked :: "'w clock \<Rightarrow> breaker \<Rightarrow> 'w \<Rightarrow> breaker \<times> 'w" where
  "tripOpenLocked clk b w =
     (let (t, w') = clk w
      in (b\<lparr>bstate := StateOpen, openedAt := t, halfOpenInFlight := 0, consecutiveSuccesses := 0\<rparr>, w'))"

definition closeLocked :: "breaker \<Rightarrow> breaker" where
  "closeLocked b =
     b\<lparr>bstate := StateClosed, window := replicate (length (window b)) False, windowIdx := 0,
       windowFilled := False, consecutiveSuccesses := 0, halfOpenInFlight := 0\<rparr>"

definition push_outcome :: "breaker \<Rightarrow> bool \<Rightarrow> breaker" where
  "push_outcome b failed =
     (let b1 = b\<lparr>window := (window b)[nat (windowIdx b) := \<not> failed]\<rparr>;
          b2 = b1\<lparr>windowIdx := (windowIdx b1 + 1) mod WindowSize (bcfg b1)\<rparr>
      in if \<not> windowFilled b2 \<and> windowIdx b2 = 0 then b2\<lparr>windowFilled := True\<rparr> else b2)"

definition record_result :: "'w clock \<Rightarrow> bool \<Rightarrow> breaker \<Rightarrow> 'w \<Rightarrow> breaker \<times> 'w" where
  "record_result clk failed b w =
     (case bstate b of
        StateClosed \<Rightarrow>
          (let b1 = push_outcome b failed in
           if FailureThreshold (bcfg b1) \<le> failureCountLocked b1 then tripOpenLocked clk b1 w else (b1, w))
      | StateHalfOpen \<Rightarrow>
          (let b1 = (if 0 < halfOpenInFlight b then b\<lparr>halfOpenInFlight := halfOpenInFlight b - 1\<rparr> else b) in
           if failed then tripOpenLocked clk b1 w
           else
             (let b2 = b1\<lparr>consecutiveSuccesses := consecutiveSuccesses b1 + 1\<rparr> in
              if SuccessThreshold (bcfg b2) \<le> consecutiveSuccesses b2 then (closeLocked b2, w) else (b2, w)))
      | StateOpen \<Rightarrow> (b, w))"

definition isFailure :: "breaker \<Rightarrow> err option \<Rightarrow> bool" where
  "isFailure b err =
     (case err of
        None \<Rightarrow> False
      | Some e \<Rightarrow>
          (case IsFailure (bcfg b) of
             Some f \<Rightarrow> f e
           | None \<Rightarrow> Code (Some e) \<in> set (FailureCodes (bcfg b))))"

definition ErrShortCircuited :: sentinel where
  "ErrShortCircuited = Sentinel ''breaker: short-circuited''"

text \<open>
  The breaker is shared with every other call, so it is part of the world the next function
  runs in: whatever other goroutines do to it during the call is an effect of \<open>next\<close>.
\<close>

definition breaker_WrapUnary ::
  "'w clock \<Rightarrow> (int \<Rightarrow> detail option) \<Rightarrow> (breaker \<times> 'w, 'm) unary \<Rightarrow> (breaker \<times> 'w, 'm) unary" where
  "breaker_WrapUnary clk mk_detail next ctx sp =
     (\<lambda>(h, b, w).
        case allow clk mk_detail b w of
          (Some e, b1, w1) \<Rightarrow> ((None, Some e), h, b1, w1)
        | (None, b1, w1) \<Rightarrow>
            (case next ctx sp (h, b1, w1) of
               ((resp, err), h2, b2, w2) \<Rightarrow>
                 (case record_result clk (isFailure b2 err) b2 w2 of
                    (b3, w3) \<Rightarrow> ((resp, err), h2, b3, w3))))"

lemmas breaker_op_defs = allow_def record_result_def tripOpenLocked_def closeLocked_def push_outcome_def

section \<open>The goroutines that share a breaker\<close>

text \<open>
  A call is admitted by \<open>allow\<close> and later reports its result to \<open>record_result\<close>; between
  the two, any other call may do either. \<open>trials\<close> counts the calls admitted since the
  breaker last became half-open that have not reported yet, \<open>others\<close> the admitted calls
  from before. A step may also change the rest of the world in any way.
\<close>

record 'w bsys =
  br :: breaker
  benv :: 'w
  trials :: nat
  others :: nat

definition settle :: "'w bsys \<Rightarrow> 'w bsys" where
  "settle s = (if bstate (br s) = StateHalfOpen then s else s\<lparr>others := others s + trials s, trials := 0\<rparr>)"

inductive bstep :: "'w clock \<Rightarrow> (int \<Rightarrow> detail option) \<Rightarrow> 'w bsys \<Rightarrow> 'w bsys \<Rightarrow> bool"
  for clk :: "'w clock" and mk_detail :: "int \<Rightarrow> detail option" where
  admit_closed:
    "bstate (br s) = StateClosed \<Longrightarrow> allow clk mk_detail (br s) (benv s) = (None, b, w) \<Longrightarrow>
     bstep clk mk_detail s (s\<lparr>br := b, benv := w, others := others s + 1\<rparr>)"
| admit_trial:
    "bstate (br s) \<noteq> StateClosed \<Longrightarrow> allow clk mk_detail (br s) (benv s) = (None, b, w) \<Longrightarrow>
     bstep clk mk_detail s (s\<lparr>br := b, benv := w, trials := trials s + 1\<rparr>)"
| reject:
    "allow clk mk_detail (br s) (benv s) = (Some e, b, w) \<Longrightarrow>
     bstep clk mk_detail s (s\<lparr>br := b, benv := w\<rparr>)"
| report_trial:
    "0 < trials s \<Longrightarrow> record_result clk failed (br s) (benv s) = (b, w) \<Longrightarrow>
     bstep clk mk_detail s (settle (s\<lparr>br := b, benv := w, trials := trials s - 1\<rparr>))"
| report_other:
    "0 < others s \<Longrightarrow> record_result clk failed (br s) (benv s) = (b, w) \<Longrightarrow>
     bstep clk mk_detail s (settle (s\<lparr>br := b, benv := w, others := others s - 1\<rparr>))"
| env_step:
    "bstep clk mk_detail s (s\<lparr>benv := w\<rparr>)"

inductive_cases bstepE: "bstep clk mk_detail s t"

definition binit :: "breaker_config \<Rightarrow> 'w bsys \<Rightarrow> bool" where
  "binit c s \<longleftrightarrow> br s = breaker_New c \<and> trials s = 0 \<and> others s = 0"

section \<open>Well-formedness\<close>

definition cfg_ok :: "breaker_config \<Rightarrow> bool" where
  "cfg_ok c \<longleftrightarrow> 1 \<le> WindowSize c \<and> 1 \<le> FailureThreshold c \<and> 1 \<le> SuccessThreshold c \<and>
     1 \<le> HalfOpenTrials c \<and> 0 < OpenDuration c"

text \<open>
  \<open>wf_breaker\<close>: the ring index is inside the window, so no access of \<^verbatim>\<open>record\<close> or
  \<^verbatim>\<open>failureCountLocked\<close> is out of range; the trial counters are zero outside half-open and
  within their budgets inside it; and a closed breaker is below its failure threshold.
\<close>

definition wf_breaker :: "breaker \<Rightarrow> bool" where
  "wf_breaker b \<longleftrightarrow>
     cfg_ok (bcfg b) \<and>
     int (length (window b)) = WindowSize (bcfg b) \<and>
     0 \<le> windowIdx b \<and> windowIdx b < WindowSize (bcfg b) \<and>
     0 \<le> halfOpenInFlight b \<and> halfOpenInFlight b \<le> HalfOpenTrials (bcfg b) \<and>
     0 \<le> consecutiveSuccesses b \<and> consecutiveSuccesses b < SuccessThreshold (bcfg b) \<and>
     (bstate b \<noteq> StateHalfOpen \<longrightarrow> halfOpenInFlight b = 0 \<and> consecutiveSuccesses b = 0) \<and>
     (bstate b = StateClosed \<longrightarrow> failureCountLocked b < FailureThreshold (bcfg b))"

lemma cfg_ok_fill [simp]: "cfg_ok (breaker_fill c)"
  by (simp add: cfg_ok_def breaker_fill_def breaker_defaults)

lemma count_failures_eq:
  "i + n \<le> length win \<Longrightarrow>
   count_failures win i n f = f + int (length (filter Not (take n (drop i win))))"
proof (induction n arbitrary: i f)
  case 0
  then show ?case by simp
next
  case (Suc n)
  then have "take (Suc n) (drop i win) = win ! i # take n (drop (Suc i) win)"
    by (simp add: Cons_nth_drop_Suc [symmetric])
  with Suc show ?case by simp
qed

lemma wf_New [simp]: "wf_breaker (breaker_New c)"
  using cfg_ok_fill [of c]
  by (auto simp: wf_breaker_def breaker_New_def Let_def cfg_ok_def failureCountLocked_def)

section \<open>The window is the list of recent outcomes\<close>

text \<open>The outcomes the ring buffer stands for, oldest first (\<open>True\<close> is a success).\<close>

definition recent :: "breaker \<Rightarrow> bool list" where
  "recent b =
     (let i = nat (windowIdx b)
      in if windowFilled b then drop i (window b) @ take i (window b) else take i (window b))"

definition last_n :: "nat \<Rightarrow> 'a list \<Rightarrow> 'a list" where
  "last_n n xs = drop (length xs - n) xs"

abbreviation ring_ok :: "breaker \<Rightarrow> bool" where
  "ring_ok b \<equiv> 1 \<le> WindowSize (bcfg b) \<and> int (length (window b)) = WindowSize (bcfg b) \<and>
     0 \<le> windowIdx b \<and> windowIdx b < WindowSize (bcfg b)"

lemma wf_ring_ok: "wf_breaker b \<Longrightarrow> ring_ok b"
  by (simp add: wf_breaker_def cfg_ok_def)

lemma failureCount_recent:
  assumes "ring_ok b"
  shows "failureCountLocked b = int (length (filter Not (recent b)))"
proof -
  let ?i = "nat (windowIdx b)"
  have i: "?i \<le> length (window b)" and W: "nat (WindowSize (bcfg b)) = length (window b)"
    using assms by auto
  have "length (filter Not (drop ?i (window b) @ take ?i (window b))) =
        length (filter Not (take ?i (window b) @ drop ?i (window b)))"
    by (simp only: filter_append length_append add.commute)
  then show ?thesis
    using count_failures_eq [of 0 "length (window b)" "window b" 0] count_failures_eq [of 0 ?i "window b" 0] i W
    by (auto simp: failureCountLocked_def recent_def Let_def)
qed

lemma push_outcome_ring: "ring_ok b \<Longrightarrow> ring_ok (push_outcome b failed)"
  by (auto simp: push_outcome_def Let_def)

lemma push_outcome_frame [simp]:
  "bcfg (push_outcome b failed) = bcfg b" "bstate (push_outcome b failed) = bstate b"
  "openedAt (push_outcome b failed) = openedAt b"
  "halfOpenInFlight (push_outcome b failed) = halfOpenInFlight b"
  "consecutiveSuccesses (push_outcome b failed) = consecutiveSuccesses b"
  by (simp_all add: push_outcome_def Let_def)

lemma recent_push:
  assumes "ring_ok b"
  shows "recent (push_outcome b failed) = last_n (nat (WindowSize (bcfg b))) (recent b @ [\<not> failed])"
proof -
  let ?i = "nat (windowIdx b)" and ?win = "window b" and ?W = "nat (WindowSize (bcfg b))"
  have i: "?i < length ?win" and W: "?W = length ?win" using assms by auto
  have upd: "take (Suc ?i) (?win[?i := \<not> failed]) = take ?i ?win @ [\<not> failed]"
    "drop (Suc ?i) (?win[?i := \<not> failed]) = drop (Suc ?i) ?win"
    using i by (auto simp: take_Suc_conv_app_nth)
  show ?thesis
  proof (cases "Suc ?i = ?W")
    case True
    then have "windowIdx b + 1 = WindowSize (bcfg b)" using assms by linarith
    then have "(windowIdx b + 1) mod WindowSize (bcfg b) = 0" by simp
    moreover have "?win[?i := \<not> failed] = take ?i ?win @ [\<not> failed]"
      using upd True W by simp
    moreover have "drop ?i ?win = [?win ! ?i]"
      using i True W by (metis Cons_nth_drop_Suc drop_all order_refl)
    ultimately show ?thesis using True W i
      by (auto simp: push_outcome_def recent_def last_n_def Let_def)
  next
    case False
    then have lt: "windowIdx b + 1 < WindowSize (bcfg b)" using assms i W by linarith
    then have "(windowIdx b + 1) mod WindowSize (bcfg b) = windowIdx b + 1" using assms by simp
    moreover have "nat (windowIdx b + 1) = Suc ?i" using assms by (auto simp: nat_add_distrib)
    moreover have "drop ?i ?win = ?win ! ?i # drop (Suc ?i) ?win"
      using i by (simp add: Cons_nth_drop_Suc)
    moreover have "Suc (length ?win - Suc 0) = length ?win" using i by simp
    ultimately show ?thesis using assms upd i W lt
      by (auto simp: push_outcome_def recent_def last_n_def Let_def)
  qed
qed

section \<open>Every operation keeps the breaker well formed\<close>

lemma record_closed:
  "bstate b = StateClosed \<Longrightarrow>
   record_result clk failed b w =
     (let b1 = push_outcome b failed in
      if FailureThreshold (bcfg b) \<le> failureCountLocked b1 then tripOpenLocked clk b1 w else (b1, w))"
  by (simp add: record_result_def Let_def)

lemma wf_tripOpen:
  assumes "ring_ok b" and "cfg_ok (bcfg b)" and "tripOpenLocked clk b w = (b', w')"
  shows "wf_breaker b'"
  using assms by (auto simp: tripOpenLocked_def wf_breaker_def cfg_ok_def split: prod.splits)

lemma wf_close: "ring_ok b \<Longrightarrow> cfg_ok (bcfg b) \<Longrightarrow> wf_breaker (closeLocked b)"
  by (auto simp: closeLocked_def wf_breaker_def cfg_ok_def failureCountLocked_def Let_def)

lemma wf_allow:
  "wf_breaker b \<Longrightarrow> allow clk mk_detail b w = (r, b', w') \<Longrightarrow> wf_breaker b'"
  by (auto simp: allow_def wf_breaker_def cfg_ok_def Let_def failureCountLocked_def
      split: State.splits prod.splits if_splits)

lemma wf_record:
  assumes wf: "wf_breaker b" and rec: "record_result clk failed b w = (b', w')"
  shows "wf_breaker b'"
proof (cases "bstate b")
  case StateClosed
  note ring = push_outcome_ring [OF wf_ring_ok [OF wf], of failed]
  show ?thesis
  proof (cases "FailureThreshold (bcfg b) \<le> failureCountLocked (push_outcome b failed)")
    case True
    then have "tripOpenLocked clk (push_outcome b failed) w = (b', w')"
      using rec StateClosed by (simp add: record_closed Let_def)
    then show ?thesis using wf ring by (intro wf_tripOpen) (auto simp: wf_breaker_def)
  next
    case False
    then have "b' = push_outcome b failed" using rec StateClosed by (simp add: record_closed Let_def)
    then show ?thesis using wf ring False StateClosed by (simp add: wf_breaker_def)
  qed
next
  case StateOpen
  then show ?thesis using wf rec by (simp add: record_result_def)
next
  case StateHalfOpen
  let ?b1 = "if 0 < halfOpenInFlight b then b\<lparr>halfOpenInFlight := halfOpenInFlight b - 1\<rparr> else b"
  let ?b2 = "?b1\<lparr>consecutiveSuccesses := consecutiveSuccesses ?b1 + 1\<rparr>"
  have ring: "ring_ok ?b1" "cfg_ok (bcfg ?b1)" "ring_ok ?b2" "cfg_ok (bcfg ?b2)"
    using wf by (auto simp: wf_breaker_def cfg_ok_def)
  consider "failed" | "\<not> failed" "SuccessThreshold (bcfg ?b2) \<le> consecutiveSuccesses ?b2"
    | "\<not> failed" "consecutiveSuccesses ?b2 < SuccessThreshold (bcfg ?b2)" by linarith
  then show ?thesis
  proof cases
    case 1
    then show ?thesis using rec StateHalfOpen wf_tripOpen [OF ring(1,2)] by (simp add: record_result_def Let_def)
  next
    case 2
    then have "b' = closeLocked ?b2" using rec StateHalfOpen by (simp add: record_result_def Let_def)
    then show ?thesis using wf_close [OF ring(3,4)] by simp
  next
    case 3
    then have "b' = ?b2" using rec StateHalfOpen by (auto simp: record_result_def Let_def not_le)
    then show ?thesis using wf 3 StateHalfOpen by (auto simp: wf_breaker_def)
  qed
qed

text \<open>How the two methods move the half-open budget.\<close>

lemma allow_half_open:
  "wf_breaker b \<Longrightarrow> allow clk mk_detail b w = (None, b', w') \<Longrightarrow> bstate b \<noteq> StateClosed \<Longrightarrow>
   bstate b' = StateHalfOpen \<and> halfOpenInFlight b' = halfOpenInFlight b + 1"
  by (auto simp: allow_def wf_breaker_def Let_def split: State.splits prod.splits if_splits)

lemma allow_reject_same: "allow clk mk_detail b w = (Some e, b', w') \<Longrightarrow> b' = b"
  by (auto simp: allow_def Let_def split: State.splits prod.splits if_splits)

lemma allow_closed: "bstate b = StateClosed \<Longrightarrow> allow clk mk_detail b w = (None, b, w)"
  by (simp add: allow_def)

lemma record_half_open:
  "record_result clk failed b w = (b', w') \<Longrightarrow> bstate b' = StateHalfOpen \<Longrightarrow>
   bstate b = StateHalfOpen \<and> halfOpenInFlight b' = (if 0 < halfOpenInFlight b then halfOpenInFlight b - 1 else halfOpenInFlight b)"
  by (auto simp: record_result_def Let_def tripOpenLocked_def closeLocked_def
      split: State.splits prod.splits if_splits)

text \<open>
  The invariant of the shared breaker: it is well formed, no call counts as a trial outside
  half-open, and the slots it considers taken belong to trials that are really in flight.
\<close>

definition bsys_inv :: "'w bsys \<Rightarrow> bool" where
  "bsys_inv s \<longleftrightarrow> wf_breaker (br s) \<and>
     (bstate (br s) \<noteq> StateHalfOpen \<longrightarrow> trials s = 0) \<and>
     halfOpenInFlight (br s) \<le> int (trials s)"

lemma bsys_inv_settle:
  assumes "wf_breaker (br s)"
    and "bstate (br s) = StateHalfOpen \<Longrightarrow> halfOpenInFlight (br s) \<le> int (trials s)"
  shows "bsys_inv (settle s)"
  using assms by (auto simp: bsys_inv_def settle_def wf_breaker_def)

lemma bsys_inv_step: "bstep clk mk_detail s t \<Longrightarrow> bsys_inv s \<Longrightarrow> bsys_inv t"
proof (induction rule: bstep.induct)
  case (admit_trial s b w)
  then show ?case
    using allow_half_open [OF _ admit_trial(2,1)] wf_allow [OF _ admit_trial(2)] by (simp add: bsys_inv_def)
next
  case (report_trial s failed b w)
  then show ?case
    using wf_record [OF _ report_trial(2)] record_half_open [OF report_trial(2)]
    by (intro bsys_inv_settle) (auto simp: bsys_inv_def of_nat_diff)
next
  case (report_other s failed b w)
  then show ?case
    using wf_record [OF _ report_other(2)] record_half_open [OF report_other(2)]
    by (intro bsys_inv_settle) (auto simp: bsys_inv_def split: if_splits)
qed (auto simp: bsys_inv_def allow_closed dest: allow_reject_same wf_allow)

lemma bsys_inv_init: "binit c s \<Longrightarrow> bsys_inv s"
  by (auto simp: binit_def bsys_inv_def) (simp add: breaker_New_def Let_def)

interpretation breaker_calls: inductive_invariant "binit c" "bstep clk mk_detail" bsys_inv
  for c clk mk_detail
  by unfold_locales (auto intro: bsys_inv_init bsys_inv_step)

section \<open>The abstract breaker\<close>

text \<open>
  What the breaker promises, without the ring buffer: a closed breaker remembers the last
  \<^verbatim>\<open>WindowSize\<close> outcomes and opens when \<^verbatim>\<open>FailureThreshold\<close> of them are failures; an open
  one admits the first call \<^verbatim>\<open>OpenDuration\<close> after it opened; a half-open one admits
  \<^verbatim>\<open>HalfOpenTrials\<close> calls at a time, opens on a failure and closes, with an empty history,
  after \<^verbatim>\<open>SuccessThreshold\<close> successes.
\<close>

datatype abreaker = AClosed "bool list" | AOpen int | AHalfOpen int int

definition abs_breaker :: "breaker \<Rightarrow> abreaker" where
  "abs_breaker b =
     (case bstate b of
        StateClosed \<Rightarrow> AClosed (recent b)
      | StateOpen \<Rightarrow> AOpen (openedAt b)
      | StateHalfOpen \<Rightarrow> AHalfOpen (halfOpenInFlight b) (consecutiveSuccesses b))"

fun a_allow :: "breaker_config \<Rightarrow> int \<Rightarrow> abreaker \<Rightarrow> bool \<times> abreaker" where
  "a_allow c now (AClosed xs) = (True, AClosed xs)"
| "a_allow c now (AOpen t) = (if t + OpenDuration c \<le> now then (True, AHalfOpen 1 0) else (False, AOpen t))"
| "a_allow c now (AHalfOpen n k) =
     (if n < HalfOpenTrials c then (True, AHalfOpen (n + 1) k) else (False, AHalfOpen n k))"

fun a_record :: "breaker_config \<Rightarrow> int \<Rightarrow> bool \<Rightarrow> abreaker \<Rightarrow> abreaker" where
  "a_record c now failed (AClosed xs) =
     (let ys = last_n (nat (WindowSize c)) (xs @ [\<not> failed])
      in if FailureThreshold c \<le> int (length (filter Not ys)) then AOpen now else AClosed ys)"
| "a_record c now failed (AOpen t) = AOpen t"
| "a_record c now failed (AHalfOpen n k) =
     (if failed then AOpen now
      else if SuccessThreshold c \<le> k + 1 then AClosed []
      else AHalfOpen (max 0 (n - 1)) (k + 1))"

lemma abs_record:
  assumes "wf_breaker b"
  shows "abs_breaker (fst (record_result clk failed b w)) =
    a_record (bcfg b) (fst (clk w)) failed (abs_breaker b)"
proof (cases "bstate b")
  case StateClosed
  note ring = wf_ring_ok [OF assms]
  then show ?thesis
    using StateClosed failureCount_recent [OF push_outcome_ring [OF ring], of failed] recent_push [OF ring, of failed]
    by (auto simp: record_closed Let_def abs_breaker_def tripOpenLocked_def split: prod.splits)
next
  case StateHalfOpen
  then show ?thesis using assms
    by (auto simp: record_result_def Let_def abs_breaker_def tripOpenLocked_def closeLocked_def
        recent_def wf_breaker_def split: prod.splits)
qed (simp add: record_result_def abs_breaker_def)

lemma abs_allow:
  assumes "wf_breaker b" and "in_int64 (OpenDuration (bcfg b))"
  shows "(fst (allow clk mk_detail b w) = None, abs_breaker (fst (snd (allow clk mk_detail b w)))) =
    a_allow (bcfg b) (fst (clk w)) (abs_breaker b)"
proof (cases "bstate b")
  case StateOpen
  obtain t1 w1 where t1: "clk w = (t1, w1)" by fastforce
  have "OpenDuration (bcfg b) \<le> time_sub t1 (openedAt b) \<longleftrightarrow> openedAt b + OpenDuration (bcfg b) \<le> t1"
    using assms by (intro time_sub_ge_iff) (auto simp: wf_breaker_def cfg_ok_def in_int64_def)
  then show ?thesis using StateOpen t1
    by (auto simp: allow_def abs_breaker_def Let_def split: prod.splits)
qed (auto simp: allow_def abs_breaker_def)

text \<open>
  [C1] The breaker implements the abstract one: on a well-formed breaker, \<^verbatim>\<open>record\<close> and
  \<^verbatim>\<open>allow\<close> commute with the abstraction that reads the ring buffer as the list of the most
  recent outcomes. In particular it trips exactly when the failures among the last
  \<^verbatim>\<open>WindowSize\<close> results reach the threshold, and admits a call when it is open exactly from
  \<^verbatim>\<open>OpenDuration\<close> after it tripped.
\<close>

theorem breaker_refines_abstract:
  assumes "wf_breaker b" and "in_int64 (OpenDuration (bcfg b))"
  shows "abs_breaker (fst (record_result clk failed b w)) =
      a_record (bcfg b) (fst (clk w)) failed (abs_breaker b) \<and>
    (fst (allow clk mk_detail b w) = None, abs_breaker (fst (snd (allow clk mk_detail b w)))) =
      a_allow (bcfg b) (fst (clk w)) (abs_breaker b)"
  by (intro conjI abs_record abs_allow assms)

theorem breaker_refines_abstract_witness:
  "abs_breaker (fst (record_result (\<lambda>t. (t, t)) True (breaker_New breaker_DefaultConfig) (7 :: int))) =
     a_record (bcfg (breaker_New breaker_DefaultConfig)) 7 True (AClosed []) \<and>
   a_record (bcfg (breaker_New breaker_DefaultConfig)) 7 True (AClosed []) = AClosed [False]"
proof -
  have "in_int64 (OpenDuration (bcfg (breaker_New breaker_DefaultConfig)))"
    by (simp add: breaker_New_def breaker_fill_def breaker_DefaultConfig_def breaker_defaults Let_def
        int64_defs)
  from breaker_refines_abstract [OF wf_New this, of "\<lambda>t. (t, t)" True 7]
  show ?thesis
    by (simp add: abs_breaker_def recent_def breaker_New_def breaker_fill_def breaker_DefaultConfig_def
        breaker_defaults Let_def last_n_def)
qed

text \<open>
  [C2] Whatever the interleaving of admitted, rejected and reporting calls, the breaker
  stays well formed: the ring index never leaves the window, the half-open slots stay
  within \<^verbatim>\<open>HalfOpenTrials\<close> and are free outside half-open, a closed breaker is below its
  threshold; and it never wedges: when it turns a call away in the half-open state, a trial
  it admitted is still in flight and will report.
\<close>

theorem breaker_reachable_safe:
  assumes "reachable (binit c) (bstep clk mk_detail) s"
  shows "wf_breaker (br s) \<and>
    (bstate (br s) = StateHalfOpen \<and> fst (allow clk mk_detail (br s) (benv s)) \<noteq> None \<longrightarrow> 0 < trials s)"
proof -
  have inv: "bsys_inv s" using breaker_calls.inv_reachable [OF assms] .
  moreover have "0 < trials s"
    if "bstate (br s) = StateHalfOpen" "fst (allow clk mk_detail (br s) (benv s)) \<noteq> None"
  proof -
    have "HalfOpenTrials (bcfg (br s)) \<le> halfOpenInFlight (br s)"
      using that by (auto simp: allow_def split: if_splits)
    then show ?thesis using inv by (simp add: bsys_inv_def wf_breaker_def cfg_ok_def)
  qed
  ultimately show ?thesis by (auto simp: bsys_inv_def)
qed

text \<open>
  A concrete run for the witnesses: with a threshold of one failure, two calls are admitted,
  the second fails and trips the breaker, ten seconds pass, and a third call becomes the
  half-open trial while the first is still in flight.
\<close>

definition cfg1 :: breaker_config where
  "cfg1 = breaker_DefaultConfig\<lparr>FailureThreshold := 1\<rparr>"

definition clk0 :: "int clock" where
  "clk0 t = (t, t)"

definition mk0 :: "int \<Rightarrow> detail option" where
  "mk0 d = Some (RetryInfo d)"

definition sys0 :: "int bsys" where
  "sys0 = \<lparr>br = breaker_New cfg1, benv = 0, trials = 0, others = 0\<rparr>"

definition b_open :: breaker where
  "b_open = fst (record_result clk0 True (breaker_New cfg1) 0)"

definition b_half :: breaker where
  "b_half = fst (snd (allow clk0 mk0 b_open (10000000000)))"

lemmas run_defs = cfg1_def clk0_def mk0_def sys0_def b_open_def b_half_def breaker_New_def breaker_fill_def
  breaker_DefaultConfig_def breaker_defaults Let_def

lemma b_open_eq:
  "record_result clk0 True (breaker_New cfg1) 0 = (b_open, 0)"
  by (simp add: run_defs record_result_def push_outcome_def tripOpenLocked_def failureCountLocked_def)

lemma b_open_fields: "bstate b_open = StateOpen" "openedAt b_open = 0" "bcfg b_open = breaker_fill cfg1"
  by (simp_all add: run_defs record_result_def push_outcome_def tripOpenLocked_def failureCountLocked_def)

lemma b_half_eq: "allow clk0 mk0 b_open (10000000000) = (None, b_half, 10000000000)"
  by (simp add: b_half_def allow_def b_open_fields clk0_def time_sub_def int64_defs cfg1_def
      breaker_fill_def breaker_DefaultConfig_def breaker_defaults)

lemma b_half_fields:
  "bstate b_half = StateHalfOpen" "halfOpenInFlight b_half = 1" "consecutiveSuccesses b_half = 0"
  "HalfOpenTrials (bcfg b_half) = 1" "SuccessThreshold (bcfg b_half) = 3"
  by (simp_all add: b_half_def allow_def b_open_fields clk0_def time_sub_def int64_defs cfg1_def
      breaker_fill_def breaker_DefaultConfig_def breaker_defaults)

definition sys3 :: "int bsys" where
  "sys3 = \<lparr>br = b_half, benv = 10000000000, trials = 1, others = 1\<rparr>"

lemma reach_sys3: "reachable (binit cfg1) (bstep clk0 mk0) sys3"
proof -
  let ?R = "reachable (binit cfg1) (bstep clk0 mk0)"
  have cl: "bstate (breaker_New cfg1) = StateClosed" by (simp add: breaker_New_def Let_def)
  have "?R sys0" by (rule reach_init) (simp add: binit_def sys0_def)
  moreover have "bstep clk0 mk0 sys0 (sys0\<lparr>others := 1\<rparr>)"
    using bstep.admit_closed [of sys0 clk0 mk0 "br sys0" "benv sys0"] cl by (simp add: sys0_def allow_closed)
  ultimately have "?R (sys0\<lparr>others := 1\<rparr>)" by (rule reach_step)
  moreover have "bstep clk0 mk0 (sys0\<lparr>others := 1\<rparr>) (sys0\<lparr>others := 2\<rparr>)"
    using bstep.admit_closed [of "sys0\<lparr>others := 1\<rparr>" clk0 mk0 "br sys0" "benv sys0"] cl
    by (simp add: sys0_def allow_closed numeral_2_eq_2)
  ultimately have "?R (sys0\<lparr>others := 2\<rparr>)" by (rule reach_step)
  moreover have "bstep clk0 mk0 (sys0\<lparr>others := 2\<rparr>) (sys0\<lparr>br := b_open, others := 1\<rparr>)"
    using bstep.report_other [of "sys0\<lparr>others := 2\<rparr>" clk0 True b_open 0 mk0]
    by (simp add: sys0_def b_open_eq settle_def b_open_fields)
  ultimately have "?R (sys0\<lparr>br := b_open, others := 1\<rparr>)" by (rule reach_step)
  moreover have "bstep clk0 mk0 (sys0\<lparr>br := b_open, others := 1\<rparr>) (sys0\<lparr>br := b_open, others := 1, benv := 10000000000\<rparr>)"
    using bstep.env_step [of clk0 mk0 "sys0\<lparr>br := b_open, others := 1\<rparr>" "10000000000"] by simp
  ultimately have "?R (sys0\<lparr>br := b_open, others := 1, benv := 10000000000\<rparr>)" by (rule reach_step)
  moreover have "bstep clk0 mk0 (sys0\<lparr>br := b_open, others := 1, benv := 10000000000\<rparr>) sys3"
    using bstep.admit_trial [of "sys0\<lparr>br := b_open, others := 1, benv := 10000000000\<rparr>" clk0 mk0 b_half "10000000000"]
    by (simp add: sys0_def sys3_def b_open_fields b_half_eq)
  ultimately show ?thesis by (rule reach_step)
qed

theorem breaker_reachable_safe_witness:
  "wf_breaker (br sys3) \<and> fst (allow clk0 mk0 (br sys3) (benv sys3)) \<noteq> None \<and> 0 < trials sys3"
  using breaker_reachable_safe [OF reach_sys3] by (simp add: sys3_def allow_def b_half_fields)

text \<open>
  The half-open budget does not bound the calls in flight: a call admitted while the
  breaker was closed that reports after it became half-open frees a trial slot it never
  took. With \<^verbatim>\<open>HalfOpenTrials\<close> 1 (documented as one trial at a time) two trials are in
  flight together in the run above once the old call has reported a success.
\<close>

theorem breaker_trial_budget_exceeded:
  "\<exists>s :: int bsys. reachable (binit cfg1) (bstep clk0 mk0) s \<and>
     HalfOpenTrials (bcfg (br s)) = 1 \<and> bstate (br s) = StateHalfOpen \<and> trials s = 2"
proof -
  let ?b = "b_half\<lparr>halfOpenInFlight := 0, consecutiveSuccesses := 1\<rparr>"
  let ?s4 = "sys3\<lparr>br := ?b, others := 0\<rparr>"
  let ?s5 = "?s4\<lparr>br := b_half\<lparr>consecutiveSuccesses := 1\<rparr>, trials := 2\<rparr>"
  have "record_result clk0 False b_half (10000000000) = (?b, 10000000000)"
    by (simp add: record_result_def b_half_fields Let_def)
  then have "bstep clk0 mk0 sys3 ?s4"
    using bstep.report_other [of sys3 clk0 False ?b "10000000000" mk0]
    by (simp add: sys3_def settle_def b_half_fields)
  then have "reachable (binit cfg1) (bstep clk0 mk0) ?s4" by (rule reach_step [OF reach_sys3])
  moreover have "bstep clk0 mk0 ?s4 ?s5"
    using bstep.admit_trial [of ?s4 clk0 mk0 "b_half\<lparr>consecutiveSuccesses := 1\<rparr>" "10000000000"]
    by (simp add: sys3_def allow_def b_half_fields numeral_2_eq_2)
  ultimately have "reachable (binit cfg1) (bstep clk0 mk0) ?s5" by (rule reach_step)
  then show ?thesis by (rule exI [where x = ?s5, OF conjI]) (simp add: b_half_fields)
qed

section \<open>The interceptor\<close>

lemma openError_inspect:
  assumes "\<And>d. mk_detail d = Some (RetryInfo d)"
  shows "Code (Some (openError mk_detail st d)) = CodeUnavailable"
    and "RetryDelay (Some (openError mk_detail st d)) = (max 0 d, True)"
  using assms by (auto simp: openError_def Let_def inspect_defs)

lemma allow_open_reject:
  assumes "bstate b = StateOpen" and "clk w = (t1, w1)" and "clk w1 = (t2, w2)"
    and "0 < OpenDuration (bcfg b)" and "in_int64 (OpenDuration (bcfg b))"
    and "t1 < openedAt b + OpenDuration (bcfg b)"
  shows "allow clk mk_detail b w =
    (Some (openError mk_detail StateOpen (wrap64 (OpenDuration (bcfg b) - time_sub t2 (openedAt b)))), b, w2)"
proof -
  have "\<not> OpenDuration (bcfg b) \<le> time_sub t1 (openedAt b)"
    using assms by (subst time_sub_ge_iff) (auto simp: in_int64_def)
  then show ?thesis using assms by (simp add: allow_def)
qed

text \<open>
  [C3] While the breaker is open and the cooldown has not elapsed, the interceptor does not
  run the next function: for every \<^verbatim>\<open>next\<close> it returns a Connect Unavailable error that
  carries, as RetryInfo, the cooldown that remains at the second clock reading (zero when it
  ran out in between), and neither the breaker nor the request headers change. The
  hypothesis on \<open>mk_detail\<close> is that Connect can pack a RetryInfo message.
\<close>

theorem breaker_open_short_circuits:
  assumes "wf_breaker b" and "in_int64 (OpenDuration (bcfg b))" and "bstate b = StateOpen"
    and "clk w = (t1, w1)" and "clk w1 = (t2, w2)"
    and "t1 < openedAt b + OpenDuration (bcfg b)" and "openedAt b \<le> t2" and "in_int64 (t2 - openedAt b)"
    and "\<And>d. mk_detail d = Some (RetryInfo d)"
  shows "\<exists>e. (\<forall>next. breaker_WrapUnary clk mk_detail next ctx sp (h, b, w) = ((None, Some e), h, b, w2)) \<and>
    Code (Some e) = CodeUnavailable \<and>
    RetryDelay (Some e) = (max 0 (openedAt b + OpenDuration (bcfg b) - t2), True)"
proof -
  let ?d = "OpenDuration (bcfg b)"
  let ?e = "openError mk_detail StateOpen (wrap64 (?d - time_sub t2 (openedAt b)))"
  have pos: "0 < ?d" using assms(1) by (simp add: wf_breaker_def cfg_ok_def)
  have "wrap64 (?d - time_sub t2 (openedAt b)) = openedAt b + ?d - t2"
    using assms(2,7,8) pos by (simp add: in_int64_def min_int64_def max_int64_def)
  then show ?thesis
    using allow_open_reject [OF assms(3,4,5) pos assms(2,6), of mk_detail] openError_inspect [OF assms(9)]
    by (intro exI [of _ ?e]) (simp add: breaker_WrapUnary_def)
qed

theorem breaker_open_short_circuits_witness:
  "\<exists>e. (\<forall>next :: (breaker \<times> int, unit) unary.
      breaker_WrapUnary clk0 mk0 next \<lparr>ctxDeadline = None, ctxValues = []\<rparr>
        \<lparr>Procedure = ''/s.v1.S/Get'', IdempotencyLevel = IdempotencyNoSideEffects\<rparr> ([], b_open, 2000000000) =
      ((None, Some e), [], b_open, 2000000000)) \<and>
    Code (Some e) = CodeUnavailable \<and> RetryDelay (Some e) = (3000000000, True)"
proof -
  have cfg: "bcfg b_open = breaker_fill cfg1" "OpenDuration (breaker_fill cfg1) = 5000000000"
    by (simp_all add: b_open_fields cfg1_def breaker_fill_def breaker_DefaultConfig_def breaker_defaults)
  have h1: "wf_breaker b_open" using wf_record [OF wf_New b_open_eq] .
  have h2: "in_int64 (OpenDuration (bcfg b_open))" by (simp add: cfg int64_defs)
  have h3: "clk0 2000000000 = (2000000000, 2000000000)" by (simp add: clk0_def)
  have h4: "2000000000 < openedAt b_open + OpenDuration (bcfg b_open)" "openedAt b_open \<le> 2000000000"
    "in_int64 (2000000000 - openedAt b_open)"
    by (simp_all add: b_open_fields cfg int64_defs)
  have h5: "\<And>d. mk0 d = Some (RetryInfo d)" by (simp add: mk0_def)
  have left: "max 0 (openedAt b_open + OpenDuration (bcfg b_open) - 2000000000) = 3000000000"
    by (simp add: b_open_fields cfg)
  show ?thesis
    by (rule breaker_open_short_circuits [where clk = clk0 and mk_detail = mk0 and ?t2.0 = 2000000000 and b = b_open,
          unfolded left, OF h1 h2 b_open_fields(1) h3 h3 h4 h5])
qed

text \<open>
  The errors the breaker generates are not \<^verbatim>\<open>ErrShortCircuited\<close>: every error \<^verbatim>\<open>allow\<close>
  returns is a Connect Unavailable error, and \<^verbatim>\<open>errors.Is(err, ErrShortCircuited)\<close> is false
  on it, against the comment on that variable.
\<close>

theorem breaker_error_not_sentinel:
  assumes "allow clk mk_detail b w = (Some e, b', w')"
  shows "Code (Some e) = CodeUnavailable \<and> \<not> errors_is e ErrShortCircuited"
proof -
  have "Code (Some (openError mk_detail st d)) = CodeUnavailable \<and>
      \<not> errors_is (openError mk_detail st d) ErrShortCircuited" for st d
    by (simp add: openError_def Let_def inspect_defs split: option.split)
  moreover obtain st d where "e = openError mk_detail st d"
    using assms by (auto simp: allow_def Let_def split: State.splits prod.splits if_splits)
  ultimately show ?thesis by simp
qed

theorem breaker_error_not_sentinel_witness:
  "\<not> errors_is (openError mk0 StateHalfOpen halfOpenRejectionDelay) ErrShortCircuited"
proof -
  have "allow clk0 mk0 b_half 0 = (Some (openError mk0 StateHalfOpen halfOpenRejectionDelay), b_half, 0)"
    by (simp add: allow_def b_half_fields)
  from breaker_error_not_sentinel [OF this] show ?thesis by simp
qed

text \<open>A next function that succeeds whatever the state, and does not touch the breaker.\<close>

definition always_succeeds :: "(breaker \<times> 'w, 'm) unary \<Rightarrow> ctx \<Rightarrow> spec \<Rightarrow> bool" where
  "always_succeeds next ctx sp \<longleftrightarrow>
     (\<forall>h b w. \<exists>r h' w'. next ctx sp (h, b, w) = ((Some r, None), h', b, w'))"

text \<open>One sequential call through the interceptor, keeping only the state.\<close>

definition call_once ::
  "'w clock \<Rightarrow> (int \<Rightarrow> detail option) \<Rightarrow> (breaker \<times> 'w, 'm) unary \<Rightarrow> ctx \<Rightarrow> spec \<Rightarrow>
   header \<times> breaker \<times> 'w \<Rightarrow> header \<times> breaker \<times> 'w" where
  "call_once clk mk_detail next ctx sp st = snd (breaker_WrapUnary clk mk_detail next ctx sp st)"

lemma call_once_half:
  assumes ok: "always_succeeds next ctx sp"
    and wf: "wf_breaker b" and half: "bstate b = StateHalfOpen" and free: "halfOpenInFlight b = 0"
  shows "\<exists>h' w'. call_once clk mk_detail next ctx sp (h, b, w) =
    (h', (if SuccessThreshold (bcfg b) \<le> consecutiveSuccesses b + 1
          then closeLocked b else b\<lparr>consecutiveSuccesses := consecutiveSuccesses b + 1\<rparr>), w')"
proof -
  let ?b1 = "b\<lparr>halfOpenInFlight := 1\<rparr>"
  have restored: "b\<lparr>halfOpenInFlight := 0\<rparr> = b" using free by (metis breaker.surjective breaker.update_convs(7))
  obtain r h' w' where n: "next ctx sp (h, ?b1, w) = ((Some r, None), h', ?b1, w')" using ok unfolding always_succeeds_def by metis
  have "allow clk mk_detail b w = (None, ?b1, w)"
    using wf half free by (simp add: allow_def wf_breaker_def cfg_ok_def)
  then show ?thesis using n half restored
    by (auto simp: call_once_def breaker_WrapUnary_def isFailure_def record_result_def Let_def closeLocked_def)
qed

lemma call_once_open:
  assumes ok: "always_succeeds next ctx sp"
    and wf: "wf_breaker b" and opened: "bstate b = StateOpen" and dur: "in_int64 (OpenDuration (bcfg b))"
    and cool: "clk w = (t, w1)" "openedAt b + OpenDuration (bcfg b) \<le> t"
  shows "\<exists>h' w'. call_once clk mk_detail next ctx sp (h, b, w) =
    (h', (if SuccessThreshold (bcfg b) \<le> 1
          then closeLocked b else b\<lparr>bstate := StateHalfOpen, halfOpenInFlight := 0, consecutiveSuccesses := 1\<rparr>), w')"
proof -
  let ?b1 = "b\<lparr>bstate := StateHalfOpen, halfOpenInFlight := 1, consecutiveSuccesses := 0\<rparr>"
  obtain r h' w' where n: "next ctx sp (h, ?b1, w1) = ((Some r, None), h', ?b1, w')" using ok unfolding always_succeeds_def by metis
  have "OpenDuration (bcfg b) \<le> time_sub t (openedAt b)"
    using wf dur cool by (subst time_sub_ge_iff) (auto simp: wf_breaker_def cfg_ok_def in_int64_def)
  then have "allow clk mk_detail b w = (None, ?b1, w1)"
    using opened cool by (simp add: allow_def)
  then show ?thesis using n
    by (auto simp: call_once_def breaker_WrapUnary_def isFailure_def record_result_def Let_def closeLocked_def)
qed

abbreviation half_after :: "breaker \<Rightarrow> nat \<Rightarrow> breaker" where
  "half_after b n \<equiv> b\<lparr>bstate := StateHalfOpen, halfOpenInFlight := 0, consecutiveSuccesses := int n\<rparr>"

lemma wf_half_after: "wf_breaker b \<Longrightarrow> int n < SuccessThreshold (bcfg b) \<Longrightarrow> wf_breaker (half_after b n)"
  by (auto simp: wf_breaker_def cfg_ok_def)

lemma calls_half:
  assumes ok: "always_succeeds next ctx sp"
    and wf: "wf_breaker b" and opened: "bstate b = StateOpen" and dur: "in_int64 (OpenDuration (bcfg b))"
    and cool: "clk w = (t, w1)" "openedAt b + OpenDuration (bcfg b) \<le> t"
  shows "int (Suc n) < SuccessThreshold (bcfg b) \<Longrightarrow>
    \<exists>h' w'. (call_once clk mk_detail next ctx sp ^^ Suc n) (h, b, w) = (h', half_after b (Suc n), w')"
proof (induction n)
  case 0
  then show ?case using call_once_open [where clk = clk and w = w and mk_detail = mk_detail and h = h, OF ok wf opened dur cool] by auto
next
  case (Suc n)
  then obtain h' w' where "(call_once clk mk_detail next ctx sp ^^ Suc n) (h, b, w) = (h', half_after b (Suc n), w')"
    by auto
  moreover have "\<exists>h'' w''. call_once clk mk_detail next ctx sp (h', half_after b (Suc n), w') =
      (h'', half_after b (Suc (Suc n)), w'')"
    using call_once_half [OF ok wf_half_after [OF wf, of "Suc n"], where clk = clk and mk_detail = mk_detail
        and h = h' and w = w'] Suc.prems
    by (auto simp: algebra_simps)
  ultimately show ?case by simp
qed

lemma close_recent [simp]: "bstate (closeLocked b) = StateClosed" "recent (closeLocked b) = []"
  by (simp_all add: closeLocked_def recent_def)

text \<open>
  [C4] The breaker recovers: once the cooldown of an open breaker has elapsed, a sequence of
  \<^verbatim>\<open>SuccessThreshold\<close> successful calls, one after the other and undisturbed by other
  callers, leaves it closed with an empty failure history.
\<close>

theorem breaker_recovers:
  assumes ok: "always_succeeds next ctx sp"
    and wf: "wf_breaker b" and opened: "bstate b = StateOpen" and dur: "in_int64 (OpenDuration (bcfg b))"
    and cool: "clk w = (t, w1)" "openedAt b + OpenDuration (bcfg b) \<le> t"
  shows "\<exists>h' b' w'. (call_once clk mk_detail next ctx sp ^^ nat (SuccessThreshold (bcfg b))) (h, b, w) = (h', b', w') \<and>
    bstate b' = StateClosed \<and> recent b' = [] \<and> halfOpenInFlight b' = 0"
proof (cases "SuccessThreshold (bcfg b) = 1")
  case True
  then show ?thesis using call_once_open [where clk = clk and w = w and mk_detail = mk_detail and h = h, OF ok wf opened dur cool]
    by (auto simp: closeLocked_def recent_def)
next
  case False
  then obtain n where n: "SuccessThreshold (bcfg b) = int (Suc (Suc n))"
    using wf by (auto simp: wf_breaker_def cfg_ok_def intro: that [of "nat (SuccessThreshold (bcfg b) - 2)"])
  then obtain h' w' where run:
    "(call_once clk mk_detail next ctx sp ^^ Suc n) (h, b, w) = (h', half_after b (Suc n), w')"
    using calls_half [where clk = clk and w = w and mk_detail = mk_detail and h = h, OF ok wf opened dur cool] by fastforce
  obtain h'' w'' where last: "call_once clk mk_detail next ctx sp (h', half_after b (Suc n), w') =
      (h'', closeLocked (half_after b (Suc n)), w'')"
    using call_once_half [OF ok wf_half_after [OF wf, of "Suc n"], where clk = clk and mk_detail = mk_detail
        and h = h' and w = w'] n
    by auto
  have "nat (SuccessThreshold (bcfg b)) = Suc (Suc n)" using n by simp
  then have "(call_once clk mk_detail next ctx sp ^^ nat (SuccessThreshold (bcfg b))) (h, b, w) =
      (h'', closeLocked (half_after b (Suc n)), w'')"
    using run last by simp
  then show ?thesis by (auto simp: closeLocked_def recent_def)
qed

definition ok_next :: "(breaker \<times> int, unit) unary" where
  "ok_next ctx sp = (\<lambda>(h, b, w). ((Some \<lparr>rspHeader = [], rspMsg = ()\<rparr>, None), h, b, w))"

definition get_spec :: spec where
  "get_spec = \<lparr>Procedure = ''/s.v1.S/Get'', IdempotencyLevel = IdempotencyNoSideEffects\<rparr>"

definition bg_ctx :: ctx where
  "bg_ctx = \<lparr>ctxDeadline = None, ctxValues = []\<rparr>"

theorem breaker_recovers_witness:
  "\<exists>h' b' w'. (call_once clk0 mk0 ok_next bg_ctx get_spec ^^ 3) ([], b_open, 10000000000) = (h', b', w') \<and>
     bstate b' = StateClosed"
proof -
  have cfg: "OpenDuration (bcfg b_open) = 5000000000" "SuccessThreshold (bcfg b_open) = 3"
    by (simp_all add: b_open_fields cfg1_def breaker_fill_def breaker_DefaultConfig_def breaker_defaults)
  have h1: "always_succeeds ok_next bg_ctx get_spec"
    by (simp add: always_succeeds_def ok_next_def)
  have h2: "wf_breaker b_open" using wf_record [OF wf_New b_open_eq] .
  have h3: "in_int64 (OpenDuration (bcfg b_open))" by (simp add: cfg int64_defs)
  have h4: "clk0 10000000000 = (10000000000, 10000000000)" by (simp add: clk0_def)
  have h5: "openedAt b_open + OpenDuration (bcfg b_open) \<le> 10000000000" by (simp add: b_open_fields(2) cfg)
  from breaker_recovers [where clk = clk0 and w = 10000000000 and mk_detail = mk0 and h = "[]",
      OF h1 h2 b_open_fields(1) h3 h4 h5] cfg show ?thesis
    by auto
qed

text \<open>The interceptor runs the next function at most once per call.\<close>

lemma allow_keeps: "keeps obs clk \<Longrightarrow> allow clk mk_detail b w = (x, b', w') \<Longrightarrow> obs w' = obs w"
  by (auto simp: allow_def Let_def split: State.splits prod.splits if_splits; metis keepsD)

lemma record_keeps: "keeps obs clk \<Longrightarrow> record_result clk f b w = (b', w') \<Longrightarrow> obs w' = obs w"
  by (auto simp: record_result_def tripOpenLocked_def Let_def split: State.splits prod.splits if_splits;
      metis keepsD)

lemma breaker_call_bound:
  assumes clk: "keeps cost clk"
  shows "call_bound (\<lambda>w. cost (snd w)) (breaker_WrapUnary clk mk_detail) 1"
proof
  fix "next" :: "(breaker \<times> 'a, 'b) unary" and m
  assume nx: "adds_calls (\<lambda>w. cost (snd w)) next m"
  show "adds_calls (\<lambda>w. cost (snd w)) (breaker_WrapUnary clk mk_detail next) (1 * m)"
  proof (rule adds_callsI)
    fix ctx sp h r h' and bw bw' :: "breaker \<times> 'a"
    assume run: "breaker_WrapUnary clk mk_detail next ctx sp (h, bw) = (r, h', bw')"
    obtain b w where bw: "bw = (b, w)" by (cases bw)
    obtain x b1 w1 where a: "allow clk mk_detail b w = (x, b1, w1)" by (metis prod_cases3)
    show "cost (snd bw') \<le> cost (snd bw) + 1 * m"
    proof (cases x)
      case None
      obtain resp e h2 b2 w2 where n: "next ctx sp (h, b1, w1) = ((resp, e), h2, b2, w2)"
        by (metis prod.exhaust)
      obtain b3 w3 where rc: "record_result clk (isFailure b2 e) b2 w2 = (b3, w3)" by (metis surj_pair)
      have "bw' = (b3, w3)" using run bw a n rc None by (simp add: breaker_WrapUnary_def)
      then show ?thesis
        using adds_callsD [OF nx n] allow_keeps [OF clk a] record_keeps [OF clk rc] bw by simp
    next
      case (Some e)
      then have "bw' = (b1, w1)" using run bw a by (simp add: breaker_WrapUnary_def)
      then show ?thesis using allow_keeps [OF clk a] bw by simp
    qed
  qed
qed

interpretation breaker_once: call_bound "\<lambda>w. fst (snd w)" "breaker_WrapUnary (lift_io clk) mk_detail" 1
  for clk mk_detail
  by (rule breaker_call_bound) simp

end
