(* ===== verification/Float64.thy ===== *)
theory Float64
  imports Prelude "HOL-Library.Log_Nat" "HOL-Library.Word"
begin

text \<open>
  IEEE 754 double precision as the Go sources use it: conversion from \<^verbatim>\<open>int64\<close>,
  multiplication, division, the comparison \<open><\<close> and the truncating conversion back to
  \<^verbatim>\<open>int64\<close>. A finite double is the rational number it denotes (the sign of a zero is
  not observable in this code). \<open>rnd64\<close> is round to nearest, ties to even, with a 53-bit
  significand and gradual underflow; the locale \<open>monotone_rounding\<close> states what the
  clients rely on (rounding is monotone and exact on the integers up to \<open>2 ^ 53\<close>) and its
  interpretation proves that of \<open>rnd64\<close>.
\<close>

section \<open>Rounding\<close>

definition round_half_even :: "rat \<Rightarrow> int" where
  "round_half_even y =
     (let f = \<lfloor>y\<rfloor>; d = y - of_int f
      in if d < 1 / 2 then f
         else if 1 / 2 < d then f + 1
         else if even f then f else f + 1)"

text \<open>The exponent \<open>e\<close> with \<open>2 powi e \<le> x < 2 powi (e + 1)\<close>, for positive \<open>x\<close>.\<close>

definition ilog2 :: "rat \<Rightarrow> int" where
  "ilog2 x =
     (if 1 \<le> x then int (floorlog 2 (nat \<lfloor>x\<rfloor>)) - 1
      else - int (floorlog 2 (nat (\<lceil>1 / x\<rceil> - 1))))"

definition ulp_exp :: "rat \<Rightarrow> int" where
  "ulp_exp x = max (ilog2 x - 52) (- 1074)"

definition rnd_pos :: "rat \<Rightarrow> rat" where
  "rnd_pos x = of_int (round_half_even (x / 2 powi ulp_exp x)) * 2 powi ulp_exp x"

definition rnd64 :: "rat \<Rightarrow> rat" where
  "rnd64 x = (if x = 0 then 0 else if 0 < x then rnd_pos x else - rnd_pos (- x))"

section \<open>Doubles\<close>

datatype float64 = Fin rat | Inf bool | NaN

text \<open>A rounded result too large for a double is the infinity of its sign.\<close>

definition mk_f64 :: "rat \<Rightarrow> float64" where
  "mk_f64 x = (let r = rnd64 x in if 2 ^ 1024 \<le> \<bar>r\<bar> then Inf (0 < r) else Fin r)"

definition f64_of_int :: "int \<Rightarrow> float64" where
  "f64_of_int n = mk_f64 (of_int n)"

fun f64_mul :: "float64 \<Rightarrow> float64 \<Rightarrow> float64" where
  "f64_mul (Fin a) (Fin b) = mk_f64 (a * b)"
| "f64_mul (Inf s) (Inf t) = Inf (s = t)"
| "f64_mul (Inf s) (Fin b) = (if b = 0 then NaN else Inf (s = (0 < b)))"
| "f64_mul (Fin a) (Inf t) = (if a = 0 then NaN else Inf (t = (0 < a)))"
| "f64_mul _ _ = NaN"

text \<open>Division, for the finite non-zero divisors the code uses.\<close>

fun f64_div :: "float64 \<Rightarrow> float64 \<Rightarrow> float64" where
  "f64_div (Fin a) (Fin b) = (if b = 0 then (if a = 0 then NaN else Inf (0 < a)) else mk_f64 (a / b))"
| "f64_div (Inf s) (Fin b) = Inf (s = (0 \<le> b))"
| "f64_div (Fin a) (Inf t) = Fin 0"
| "f64_div _ _ = NaN"

fun f64_less :: "float64 \<Rightarrow> float64 \<Rightarrow> bool" where
  "f64_less (Fin a) (Fin b) = (a < b)"
| "f64_less (Fin a) (Inf t) = t"
| "f64_less (Inf s) (Fin b) = (\<not> s)"
| "f64_less (Inf s) (Inf t) = (\<not> s \<and> t)"
| "f64_less _ _ = False"

definition trunc_rat :: "rat \<Rightarrow> int" where
  "trunc_rat r = (if 0 \<le> r then \<lfloor>r\<rfloor> else \<lceil>r\<rceil>)"

text \<open>
  \<^verbatim>\<open>int64(f)\<close> truncates towards zero. Out of range (and for NaN) the language
  specification leaves the value to the implementation: it is the parameter \<open>oob\<close>, of which
  nothing is assumed.
\<close>

fun f64_to_int64 :: "(float64 \<Rightarrow> int) \<Rightarrow> float64 \<Rightarrow> int" where
  "f64_to_int64 oob (Fin r) =
     (let t = trunc_rat r in if in_int64 t then t else wrap64 (oob (Fin r)))"
| "f64_to_int64 oob f = wrap64 (oob f)"

section \<open>What the clients need of a rounding\<close>

locale monotone_rounding =
  fixes rnd :: "rat \<Rightarrow> rat"
  assumes rnd_mono: "x \<le> y \<Longrightarrow> rnd x \<le> rnd y"
    and rnd_int: "\<bar>n\<bar> \<le> 2 ^ 53 \<Longrightarrow> rnd (of_int n) = of_int n"
begin

lemma rnd_zero: "rnd 0 = 0"
  using rnd_int [of 0] by simp

lemma rnd_nonneg: "0 \<le> x \<Longrightarrow> 0 \<le> rnd x"
  using rnd_mono [of 0 x] rnd_zero by simp

lemma rnd_le_int: "x \<le> of_int n \<Longrightarrow> \<bar>n\<bar> \<le> 2 ^ 53 \<Longrightarrow> rnd x \<le> of_int n"
  using rnd_mono [of x "of_int n"] rnd_int [of n] by simp

lemma int_le_rnd: "of_int n \<le> x \<Longrightarrow> \<bar>n\<bar> \<le> 2 ^ 53 \<Longrightarrow> of_int n \<le> rnd x"
  using rnd_mono [of "of_int n" x] rnd_int [of n] by simp

text \<open>Scaling a non-negative integer by a fraction stays within the integer.\<close>

lemma rnd_scale_le:
  assumes "0 \<le> j" and "j \<le> 1" and "0 \<le> n" and "n \<le> 2 ^ 53"
  shows "0 \<le> rnd (j * of_int n) \<and> rnd (j * of_int n) \<le> of_int n"
proof
  show "0 \<le> rnd (j * of_int n)"
    using assms by (intro rnd_nonneg) simp
  have "j * of_int n \<le> of_int n"
    using assms by (simp add: mult_left_le_one_le)
  then show "rnd (j * of_int n) \<le> of_int n"
    using assms by (intro rnd_le_int) auto
qed

end

section \<open>\<open>rnd64\<close> is such a rounding\<close>

lemma round_half_even_cases: "round_half_even y = \<lfloor>y\<rfloor> \<or> round_half_even y = \<lfloor>y\<rfloor> + 1"
  by (simp add: round_half_even_def Let_def)

lemma round_half_even_mono: "x \<le> y \<Longrightarrow> round_half_even x \<le> round_half_even y"
proof -
  assume le: "x \<le> y"
  show ?thesis
  proof (cases "\<lfloor>x\<rfloor> = \<lfloor>y\<rfloor>")
    case True
    then have "x - of_int \<lfloor>x\<rfloor> \<le> y - of_int \<lfloor>x\<rfloor>" using le by simp
    then show ?thesis using True by (auto simp: round_half_even_def Let_def)
  next
    case False
    then have "\<lfloor>x\<rfloor> + 1 \<le> \<lfloor>y\<rfloor>" using floor_mono [OF le] by simp
    then show ?thesis using round_half_even_cases [of x] round_half_even_cases [of y] by auto
  qed
qed

lemma round_half_even_int [simp]: "round_half_even (of_int n) = n"
  by (simp add: round_half_even_def)

lemma floorlog2_bounds:
  assumes "0 < n"
  shows "2 ^ (floorlog 2 n - 1) \<le> n" and "n < 2 ^ floorlog 2 n" and "1 \<le> floorlog 2 n"
  using floorlog_bounds [of n 2] assms floorlog_eq_zero_iff [of 2 n]
  by (auto simp: not_less Suc_le_eq)

lemma ilog2_ge1:
  assumes "1 \<le> x"
  shows "2 powi ilog2 x \<le> x" and "x < 2 powi (ilog2 x + 1)" and "0 \<le> ilog2 x"
proof -
  let ?n = "nat \<lfloor>x\<rfloor>"
  let ?k = "floorlog 2 ?n"
  have n: "0 < ?n" "int ?n = \<lfloor>x\<rfloor>" using assms by (auto simp: le_floor_iff)
  note b = floorlog2_bounds [OF n(1)]
  have e: "ilog2 x = int (?k - 1)" using assms b(3) by (simp add: ilog2_def of_nat_diff)
  show "0 \<le> ilog2 x" by (simp add: e)
  have "(2 :: rat) ^ (?k - 1) \<le> of_nat ?n"
    using b(1) by (metis of_nat_le_iff of_nat_numeral of_nat_power)
  also have "of_nat ?n \<le> x" using n(2) by (metis of_int_floor_le of_int_of_nat_eq)
  finally show "2 powi ilog2 x \<le> x" by (simp add: e)
  have "int ?n + 1 \<le> 2 ^ ?k" using b(2) by (metis Suc_eq_plus1 Suc_leI of_nat_Suc of_nat_le_iff of_nat_numeral of_nat_power add.commute)
  then have "\<lfloor>x\<rfloor> < 2 ^ ?k" using n(2) by simp
  then have "x < 2 ^ ?k" by (simp add: floor_less_iff)
  moreover have "ilog2 x + 1 = int ?k" using b(3) e by (simp add: of_nat_diff)
  ultimately show "x < 2 powi (ilog2 x + 1)" by simp
qed

lemma ilog2_lt1:
  assumes "0 < x" and "x < 1"
  shows "2 powi ilog2 x \<le> x" and "x < 2 powi (ilog2 x + 1)"
proof -
  let ?y = "1 / x"
  let ?n = "nat (\<lceil>?y\<rceil> - 1)"
  let ?k = "floorlog 2 ?n"
  have y: "1 < ?y" using assms by (simp add: less_divide_eq)
  then have "1 < \<lceil>?y\<rceil>" by (simp only: less_ceiling_iff of_int_1)
  then have n: "0 < ?n" "int ?n = \<lceil>?y\<rceil> - 1" by arith+
  note b = floorlog2_bounds [OF n(1)]
  have e: "ilog2 x = - int ?k" using assms by (simp add: ilog2_def)
  have "int ?n + 1 \<le> 2 ^ ?k"
    using b(2) by (metis Suc_eq_plus1 Suc_leI of_nat_Suc of_nat_le_iff of_nat_numeral of_nat_power add.commute)
  then have "\<lceil>?y\<rceil> \<le> 2 ^ ?k" using n(2) by simp
  then have "?y \<le> 2 ^ ?k" by (simp add: ceiling_le_iff)
  then have "1 / 2 ^ ?k \<le> x" using assms by (simp add: field_simps)
  then show "2 powi ilog2 x \<le> x" by (simp add: e power_int_minus divide_inverse)
  have "(2 :: int) ^ (?k - 1) \<le> int ?n" using b(1) by (metis of_nat_le_iff of_nat_numeral of_nat_power)
  then have "(2 :: int) ^ (?k - 1) < \<lceil>?y\<rceil>" using n(2) by simp
  then have "2 ^ (?k - 1) < ?y" by (simp add: less_ceiling_iff)
  then have "x < 1 / 2 ^ (?k - 1)" using assms by (simp add: field_simps)
  moreover have "ilog2 x + 1 = - int (?k - 1)" using b(3) e by (simp add: of_nat_diff)
  ultimately show "x < 2 powi (ilog2 x + 1)" by (simp add: power_int_minus divide_inverse)
qed

lemma ilog2_bounds:
  assumes "0 < x"
  shows "2 powi ilog2 x \<le> x" and "x < 2 powi (ilog2 x + 1)"
  using ilog2_ge1 [of x] ilog2_lt1 [of x] assms by (cases "1 \<le> x"; simp)+

lemma powi2_mono: "a \<le> b \<Longrightarrow> (2 :: rat) powi a \<le> 2 powi b"
  by (simp add: power_int_increasing)

lemma ilog2_mono:
  assumes "0 < x" and "x \<le> y"
  shows "ilog2 x \<le> ilog2 y"
proof (rule ccontr)
  assume "\<not> ?thesis"
  then have "2 powi (ilog2 y + 1) \<le> (2 :: rat) powi ilog2 x" by (intro powi2_mono) simp
  then show False using ilog2_bounds [of x] ilog2_bounds [of y] assms by simp
qed

lemma powi2_split: "(2 :: rat) powi (a - b) * 2 powi b = 2 powi a"
  by (simp add: power_int_diff)

text \<open>Within one binade rounding is the monotone integer rounding; across binades a power
  of two separates the two results.\<close>

lemma rnd_pos_le_powi:
  assumes "x \<le> 2 powi m" and "ulp_exp x \<le> m"
  shows "rnd_pos x \<le> 2 powi m"
proof -
  let ?q = "ulp_exp x"
  have "x / 2 powi ?q \<le> 2 powi (m - ?q)"
    using assms(1) by (simp add: power_int_diff divide_right_mono)
  also have "\<dots> = of_int (2 ^ nat (m - ?q))"
    using assms(2) by (simp add: power_int_def)
  finally have "round_half_even (x / 2 powi ?q) \<le> 2 ^ nat (m - ?q)"
    using round_half_even_mono round_half_even_int by metis
  then have "of_int (round_half_even (x / 2 powi ?q)) \<le> (2 :: rat) powi (m - ?q)"
    using assms(2) by (simp add: power_int_def)
  then have "rnd_pos x \<le> 2 powi (m - ?q) * 2 powi ?q"
    unfolding rnd_pos_def by (intro mult_right_mono) simp_all
  then show ?thesis by (simp add: powi2_split)
qed

lemma powi_le_rnd_pos:
  assumes "2 powi m \<le> x" and "ulp_exp x \<le> m"
  shows "2 powi m \<le> rnd_pos x"
proof -
  let ?q = "ulp_exp x"
  have "of_int (2 ^ nat (m - ?q)) = (2 :: rat) powi (m - ?q)"
    using assms(2) by (simp add: power_int_def)
  also have "\<dots> \<le> x / 2 powi ?q"
    using assms(1) by (simp add: power_int_diff divide_right_mono)
  finally have "2 ^ nat (m - ?q) \<le> round_half_even (x / 2 powi ?q)"
    using round_half_even_mono round_half_even_int by metis
  then have "(2 :: rat) powi (m - ?q) \<le> of_int (round_half_even (x / 2 powi ?q))"
    using assms(2) by (simp add: power_int_def)
  then have "2 powi (m - ?q) * 2 powi ?q \<le> rnd_pos x"
    unfolding rnd_pos_def by (intro mult_right_mono) simp_all
  then show ?thesis by (simp add: powi2_split)
qed

lemma rnd_pos_mono:
  assumes "0 < x" and "x \<le> y"
  shows "rnd_pos x \<le> rnd_pos y"
proof (cases "ulp_exp x = ulp_exp y")
  case True
  have "x / 2 powi ulp_exp y \<le> y / 2 powi ulp_exp y"
    using assms by (simp add: divide_right_mono)
  from round_half_even_mono [OF this] show ?thesis
    unfolding rnd_pos_def True by (intro mult_right_mono) simp_all
next
  case False
  then have lt: "ilog2 x < ilog2 y" "- 1074 \<le> ilog2 y - 52"
    using ilog2_mono [OF assms] by (auto simp: ulp_exp_def max_def split: if_splits)
  let ?m = "ilog2 y"
  have "rnd_pos x \<le> 2 powi ?m"
  proof (rule rnd_pos_le_powi)
    show "x \<le> 2 powi ?m"
      using ilog2_bounds(2) [OF assms(1)] powi2_mono [of "ilog2 x + 1" ?m] lt by simp
    show "ulp_exp x \<le> ?m" using lt by (simp add: ulp_exp_def)
  qed
  also have "\<dots> \<le> rnd_pos y"
    using assms lt ilog2_bounds(1) [of y] by (intro powi_le_rnd_pos) (auto simp: ulp_exp_def)
  finally show ?thesis .
qed

lemma rnd_pos_nonneg: "0 < x \<Longrightarrow> 0 \<le> rnd_pos x"
  using round_half_even_mono [of 0 "x / 2 powi ulp_exp x"] round_half_even_int [of 0]
  by (simp add: rnd_pos_def)

lemma rnd64_mono: "x \<le> y \<Longrightarrow> rnd64 x \<le> rnd64 y"
  using rnd_pos_mono [of x y] rnd_pos_mono [of "- y" "- x"] rnd_pos_nonneg [of y] rnd_pos_nonneg [of "- x"]
  by (auto simp: rnd64_def)

lemma rnd_pos_int:
  assumes "0 < n" and "n \<le> 2 ^ 53"
  shows "rnd_pos (of_int n) = of_int n"
proof (cases "n = 2 ^ 53")
  case True
  have x: "of_int n = (2 :: rat) powi 53" using True by (simp add: power_int_def)
  have "ulp_exp (of_int n) \<le> 53"
    using ilog2_bounds(1) [of "of_int n"] power_int_strict_increasing [of 53 "ilog2 (of_int n)" "2 :: rat"] assms x
    by (force simp: ulp_exp_def not_le)
  then have "rnd_pos (of_int n) \<le> 2 powi 53" "2 powi 53 \<le> rnd_pos (of_int n)"
    using x by (metis order_refl rnd_pos_le_powi, metis order_refl powi_le_rnd_pos)
  then show ?thesis unfolding x by (rule antisym)
next
  case False
  let ?x = "of_int n :: rat"
  have "?x < 2 powi 53" using assms False by (simp add: power_int_def)
  then have "ilog2 ?x < 53"
    using ilog2_bounds(1) [of ?x] powi2_mono [of 53 "ilog2 ?x"] assms by (fastforce simp: not_less)
  then have q: "ulp_exp ?x \<le> 0" by (simp add: ulp_exp_def)
  have "?x / 2 powi ulp_exp ?x = of_int (n * 2 ^ nat (- ulp_exp ?x))"
    using q by (simp add: power_int_def field_simps)
  then have "rnd_pos ?x = of_int (n * 2 ^ nat (- ulp_exp ?x)) * 2 powi ulp_exp ?x"
    unfolding rnd_pos_def by (metis round_half_even_int)
  also have "\<dots> = ?x" using q by (simp add: power_int_def field_simps)
  finally show ?thesis .
qed

lemma rnd64_int: "\<bar>n\<bar> \<le> 2 ^ 53 \<Longrightarrow> rnd64 (of_int n) = of_int n"
  using rnd_pos_int [of n] rnd_pos_int [of "- n"] by (auto simp: rnd64_def)

interpretation r64: monotone_rounding rnd64
  by unfold_locales (fact rnd64_mono, fact rnd64_int)

section \<open>Facts the delay computations use\<close>

lemma mk_f64_small: "\<bar>rnd64 x\<bar> < 2 ^ 1024 \<Longrightarrow> mk_f64 x = Fin (rnd64 x)"
  by (simp add: mk_f64_def)

lemma f64_of_int_exact [simp]:
  assumes "\<bar>n\<bar> \<le> 2 ^ 53"
  shows "f64_of_int n = Fin (of_int n)"
proof -
  have "\<bar>of_int n :: rat\<bar> \<le> 2 ^ 53"
    using assms by (metis of_int_abs of_int_le_iff of_int_numeral of_int_power)
  also have "\<dots> < 2 ^ 1024" by simp
  finally show ?thesis using r64.rnd_int [OF assms] by (simp add: f64_of_int_def mk_f64_def Let_def)
qed

lemma mk_f64_numeral [simp]: "numeral k \<le> (2 ^ 53 :: int) \<Longrightarrow> mk_f64 (numeral k) = Fin (numeral k)"
  using f64_of_int_exact [of "numeral k"] by (simp add: f64_of_int_def del: f64_of_int_exact)

lemma trunc_rat_int [simp]: "trunc_rat (of_int n) = n" "trunc_rat (numeral k) = numeral k"
  by (simp_all add: trunc_rat_def)

lemma trunc_rat_bounds: "0 \<le> r \<Longrightarrow> r \<le> of_int n \<Longrightarrow> 0 \<le> trunc_rat r \<and> trunc_rat r \<le> n"
  using floor_mono [of r "of_int n"] by (simp add: trunc_rat_def)

text \<open>A product past the range reaches the implementation-defined conversion.\<close>

lemma f64_to_int64_overflow:
  assumes "2 ^ 64 \<le> x"
  shows "\<exists>f. f64_to_int64 oob (mk_f64 x) = wrap64 (oob f)"
proof -
  have "ilog2 (2 powi 64) \<le> 64"
  proof (rule ccontr)
    assume "\<not> ?thesis"
    then have "(2 :: rat) powi 65 \<le> 2 powi ilog2 (2 powi 64)" by (intro powi2_mono) simp
    also have "\<dots> \<le> 2 powi 64" by (rule ilog2_bounds) simp
    finally show False by (simp add: power_int_def)
  qed
  then have "2 powi 64 \<le> rnd_pos (2 powi 64)"
    by (intro powi_le_rnd_pos) (auto simp: ulp_exp_def)
  also have "\<dots> = rnd64 (2 powi 64)" by (simp add: rnd64_def power_int_def)
  also have "\<dots> \<le> rnd64 x" using assms by (intro rnd64_mono) (simp add: power_int_def)
  finally have "\<not> in_int64 (trunc_rat (rnd64 x))"
    using floor_mono [of "2 ^ 64" "rnd64 x"] by (simp add: power_int_def trunc_rat_def int64_defs)
  then show ?thesis by (auto simp: mk_f64_def Let_def)
qed

text \<open>
  The shape every jittered delay has: a fraction of an exactly represented duration,
  truncated. The result lies between zero and the duration, and the implementation-defined
  conversion is never reached.
\<close>

lemma f64_scale_bounds:
  assumes "0 \<le> j" and "j \<le> 1" and "0 \<le> n" and "n \<le> 2 ^ 53"
  shows "0 \<le> f64_to_int64 oob (f64_mul (Fin j) (f64_of_int n)) \<and>
    f64_to_int64 oob (f64_mul (Fin j) (f64_of_int n)) \<le> n"
proof -
  let ?r = "rnd64 (j * of_int n)"
  have r: "0 \<le> ?r" "?r \<le> of_int n" using r64.rnd_scale_le [OF assms] by auto
  have "?r \<le> 2 ^ 53"
    using r(2) assms(4) by (metis of_int_le_iff of_int_numeral of_int_power order_trans)
  also have "\<dots> < 2 ^ 1024" by simp
  finally have "\<bar>?r\<bar> < 2 ^ 1024" using r(1) by (simp only: abs_of_nonneg)
  then have "mk_f64 (j * of_int n) = Fin ?r" by (rule mk_f64_small)
  moreover have "0 \<le> trunc_rat ?r" "trunc_rat ?r \<le> n" using trunc_rat_bounds [OF r] by auto
  moreover from this have "in_int64 (trunc_rat ?r)"
    using assms(4) by (simp add: in_int64_def min_int64_def max_int64_def)
  ultimately show ?thesis using assms by (simp add: Let_def)
qed

text \<open>The uniform draw of the jitter sources: a 53-bit integer over \<open>2 ^ 53\<close> is a fraction.\<close>

lemma f64_unit_fraction:
  assumes "0 \<le> b" and "b \<le> 2 ^ 53"
  obtains q where "f64_div (f64_of_int b) (f64_of_int (2 ^ 53)) = Fin q" and "0 \<le> q" and "q \<le> 1"
proof -
  let ?x = "of_int b / 2 ^ 53 :: rat"
  have b: "(of_int b :: rat) \<le> 2 ^ 53" using assms(2) by (metis of_int_le_iff of_int_numeral of_int_power)
  have x: "0 \<le> ?x" "?x \<le> of_int 1" using assms(1) b by simp_all
  have r: "0 \<le> rnd64 ?x" "rnd64 ?x \<le> 1" using r64.rnd_nonneg [OF x(1)] r64.rnd_le_int [OF x(2)] by simp_all
  have "\<bar>rnd64 ?x\<bar> < 2 ^ 1024"
  proof -
    have "\<bar>rnd64 ?x\<bar> \<le> 1" using r by simp
    also have "(1 :: rat) < 2 ^ 1024" by simp
    finally show ?thesis .
  qed
  then have "mk_f64 ?x = Fin (rnd64 ?x)" by (rule mk_f64_small)
  moreover have "f64_div (f64_of_int b) (f64_of_int (2 ^ 53)) = mk_f64 ?x"
    using assms by simp
  ultimately show thesis using r that by simp
qed

lemma uint_drop11: "uint (drop_bit 11 (x :: 64 word)) \<le> 2 ^ 53"
proof -
  have "uint (drop_bit 11 x) = uint x div 2 ^ 11" by (simp add: drop_bit_eq_div uint_div)
  moreover have "uint x < 2 ^ 64" using uint_lt2p [of x] by simp
  ultimately show ?thesis by simp
qed

end
