(* ===== verification/Retry.thy ===== *)
theory Retry
  imports Rpc Float64
begin

text \<open>
  The retry interceptor of \<^verbatim>\<open>src/retry/retry.go\<close>: configuration and defaults, the default
  jitter source, the two delay strategies on doubles, the context-aware sleep and the retry
  loop. What the loop asks of its surroundings is the record \<open>retry_env\<close>: the injected
  jitter source, the kernel's random bytes, \<^verbatim>\<open>ctx.Err()\<close>, the outcome of the select
  between the timer and \<^verbatim>\<open>ctx.Done()\<close>, and the implementation-defined value of an
  out-of-range float conversion.
\<close>

section \<open>Configuration\<close>

datatype Strategy = StrategyFull | StrategyDecorrelated | StrategyOther int

record retry_config =
  IsRetryable :: "(err \<Rightarrow> bool) option"
  RetryableCodes :: "code list"
  rInitial :: int
  rMax :: int
  MinDelay :: int
  Multiplier :: float64
  DecorrelationFactor :: float64
  MaxAttempts :: int
  rStrategy :: Strategy
  AllowNonIdempotent :: bool

record 'w retry_env =
  JitterSource :: "('w, float64) io option"
  rand8 :: "('w, 8 word list option) io"
  ctxErr :: "ctx \<Rightarrow> ('w, err option) io"
  timerFires :: "ctx \<Rightarrow> int \<Rightarrow> ('w, bool) io"
  outOfRange :: "float64 \<Rightarrow> int"

definition retry_DefaultMaxAttempts :: int where "retry_DefaultMaxAttempts = 4"
definition DefaultInitialBackoff :: int where "DefaultInitialBackoff = 100 * millisecond"
definition DefaultMaxBackoff :: int where "DefaultMaxBackoff = 30 * second"
definition retry_DefaultMultiplier :: float64 where "retry_DefaultMultiplier = Fin 2"
definition DefaultDecorrelationFactor :: float64 where "DefaultDecorrelationFactor = Fin 3"
definition DefaultStrategy :: Strategy where "DefaultStrategy = StrategyFull"
definition minMaxAttempts :: int where "minMaxAttempts = 2"
definition minMultiplier :: float64 where "minMultiplier = Fin 1"

lemmas retry_defaults = retry_DefaultMaxAttempts_def DefaultInitialBackoff_def DefaultMaxBackoff_def
  retry_DefaultMultiplier_def DefaultDecorrelationFactor_def minMaxAttempts_def minMultiplier_def DefaultStrategy_def

definition retry_DefaultConfig :: retry_config where
  "retry_DefaultConfig =
     \<lparr>IsRetryable = None,
      RetryableCodes = [CodeUnavailable, CodeResourceExhausted, CodeAborted, CodeDeadlineExceeded],
      rInitial = DefaultInitialBackoff, rMax = DefaultMaxBackoff, MinDelay = 0,
      Multiplier = retry_DefaultMultiplier, DecorrelationFactor = DefaultDecorrelationFactor,
      MaxAttempts = retry_DefaultMaxAttempts, rStrategy = DefaultStrategy, AllowNonIdempotent = False\<rparr>"

definition retry_Interceptor :: "retry_config \<Rightarrow> retry_config" where
  "retry_Interceptor cfg =
     (let c1 = (if MaxAttempts cfg < minMaxAttempts then cfg\<lparr>MaxAttempts := minMaxAttempts\<rparr> else cfg);
          c2 = (if f64_less (Multiplier c1) minMultiplier then c1\<lparr>Multiplier := minMultiplier\<rparr> else c1);
          c3 = (if f64_less (DecorrelationFactor c2) minMultiplier
                then c2\<lparr>DecorrelationFactor := DefaultDecorrelationFactor\<rparr> else c2);
          c4 = (if rInitial c3 \<le> 0 then c3\<lparr>rInitial := DefaultInitialBackoff\<rparr> else c3)
      in if rMax c4 < rInitial c4 then c4\<lparr>rMax := rInitial c4\<rparr> else c4)"

section \<open>Jitter and delays\<close>

text \<open>\<^verbatim>\<open>binary.LittleEndian.Uint64\<close>: the first byte is the least significant.\<close>

definition le_uint64 :: "8 word list \<Rightarrow> 64 word" where
  "le_uint64 bs = foldr (\<lambda>b acc. push_bit 8 acc + ucast b) bs 0"

definition float64SignificandBits :: nat where "float64SignificandBits = 53"
definition uint64Bits :: nat where "uint64Bits = 64"
definition jitterFallback :: float64 where "jitterFallback = Fin (1 / 2)"

lemmas jitter_consts = float64SignificandBits_def uint64Bits_def jitterFallback_def

definition DefaultJitterSource :: "('w, 8 word list option) io \<Rightarrow> ('w, float64) io" where
  "DefaultJitterSource rd w =
     (case rd w of
        (None, w') \<Rightarrow> (jitterFallback, w')
      | (Some bs, w') \<Rightarrow>
          (let u = drop_bit (uint64Bits - float64SignificandBits) (le_uint64 bs)
           in (f64_div (f64_of_int (uint u)) (f64_of_int (2 ^ float64SignificandBits)), w')))"

definition jitter :: "'w retry_env \<Rightarrow> ('w, float64) io" where
  "jitter env = (case JitterSource env of Some f \<Rightarrow> f | None \<Rightarrow> DefaultJitterSource (rand8 env))"

definition fullDelay :: "'w retry_env \<Rightarrow> retry_config \<Rightarrow> int \<Rightarrow> ('w, int) io" where
  "fullDelay env cfg cap w =
     (let upper = min cap (rMax cfg) in
      if upper \<le> 0 then (0, w)
      else if 0 < MinDelay cfg then
        (if upper \<le> MinDelay cfg then (MinDelay cfg, w)
         else
           (case jitter env w of
              (j, w') \<Rightarrow>
                (wrap64 (MinDelay cfg +
                   f64_to_int64 (outOfRange env) (f64_mul j (f64_of_int (wrap64 (upper - MinDelay cfg))))), w')))
      else
        (case jitter env w of
           (j, w') \<Rightarrow> (f64_to_int64 (outOfRange env) (f64_mul j (f64_of_int upper)), w')))"

definition decorrelatedDelay :: "'w retry_env \<Rightarrow> retry_config \<Rightarrow> int \<Rightarrow> ('w, int) io" where
  "decorrelatedDelay env cfg prev w =
     (let upper = min (f64_to_int64 (outOfRange env) (f64_mul (f64_of_int prev) (DecorrelationFactor cfg))) (rMax cfg) in
      if upper \<le> rInitial cfg then (rInitial cfg, w)
      else
        (case jitter env w of
           (j, w') \<Rightarrow>
             (wrap64 (rInitial cfg +
                f64_to_int64 (outOfRange env) (f64_mul j (f64_of_int (wrap64 (upper - rInitial cfg))))), w')))"

definition nextDelay :: "'w retry_env \<Rightarrow> retry_config \<Rightarrow> err \<Rightarrow> int \<Rightarrow> int \<Rightarrow> ('w, int) io" where
  "nextDelay env cfg e cap prev w =
     (case RetryDelay (Some e) of
        (d, ok) \<Rightarrow>
          if ok \<and> 0 < d then (min d (rMax cfg), w)
          else
            (case rStrategy cfg of
               StrategyDecorrelated \<Rightarrow> decorrelatedDelay env cfg prev w
             | _ \<Rightarrow> fullDelay env cfg cap w))"

definition retry_grow :: "'w retry_env \<Rightarrow> retry_config \<Rightarrow> int \<Rightarrow> int" where
  "retry_grow env cfg cap =
     min (f64_to_int64 (outOfRange env) (f64_mul (f64_of_int cap) (Multiplier cfg))) (rMax cfg)"

definition retry_sleep :: "'w retry_env \<Rightarrow> ctx \<Rightarrow> int \<Rightarrow> ('w, bool) io" where
  "retry_sleep env ctx d w =
     (if d \<le> 0 then (case ctxErr env ctx w of (e, w') \<Rightarrow> (e = None, w'))
      else timerFires env ctx d w)"

definition shouldRetry :: "retry_config \<Rightarrow> err \<Rightarrow> bool" where
  "shouldRetry cfg e =
     (case IsRetryable cfg of
        Some f \<Rightarrow> f e
      | None \<Rightarrow> Code (Some e) \<in> set (RetryableCodes cfg))"

section \<open>The loop\<close>

function retry_loop ::
  "'w retry_env \<Rightarrow> retry_config \<Rightarrow> ('w, 'm) unary \<Rightarrow> ctx \<Rightarrow> spec \<Rightarrow> int \<Rightarrow> int \<Rightarrow> int \<Rightarrow>
   'm rpc_result \<Rightarrow> (header \<times> 'w, 'm rpc_result) io" where
  "retry_loop env cfg next ctx sp attempt cap prev res st =
     (if attempt \<le> MaxAttempts cfg then
        (case next ctx sp st of
           (res', h', w') \<Rightarrow>
             (case snd res' of
                None \<Rightarrow> (res', h', w')
              | Some e \<Rightarrow>
                  if \<not> shouldRetry cfg e \<or> attempt = MaxAttempts cfg then (res', h', w')
                  else
                    (case nextDelay env cfg e cap prev w' of
                       (delay, w2) \<Rightarrow>
                         (case retry_sleep env ctx delay w2 of
                            (fired, w3) \<Rightarrow>
                              if \<not> fired then (res', h', w3)
                              else retry_loop env cfg next ctx sp (attempt + 1)
                                     (retry_grow env cfg cap) delay res' (h', w3)))))
      else (res, st))"
  by pat_completeness auto
termination
  by (relation "measure (\<lambda>(env, cfg, next, ctx, sp, attempt, _). nat (MaxAttempts cfg + 1 - attempt))") auto

declare retry_loop.simps [simp del]

definition retry_WrapUnary ::
  "'w retry_env \<Rightarrow> retry_config \<Rightarrow> ('w, 'm) unary \<Rightarrow> ('w, 'm) unary" where
  "retry_WrapUnary env cfg next ctx sp st =
     (if \<not> AllowNonIdempotent cfg \<and> IdempotencyLevel sp = IdempotencyUnknown then next ctx sp st
      else retry_loop env cfg next ctx sp 1 (rInitial cfg) (rInitial cfg) (None, None) st)"

section \<open>Delay bounds\<close>

definition unit_jitter :: "'w retry_env \<Rightarrow> bool" where
  "unit_jitter env \<longleftrightarrow> (\<forall>w. \<exists>q. fst (jitter env w) = Fin q \<and> 0 \<le> q \<and> q \<le> 1)"

lemma unit_jitterE:
  assumes "unit_jitter env" and "jitter env w = (j, w')"
  obtains q where "j = Fin q" and "0 \<le> q" and "q \<le> 1"
  using assms unfolding unit_jitter_def by (metis fst_conv)

text \<open>The default source is one: both the draw and the fallback are fractions.\<close>

lemma default_jitter_unit:
  assumes "JitterSource env = None"
  shows "unit_jitter env"
  unfolding unit_jitter_def
proof
  fix w
  obtain r w' where r: "rand8 env w = (r, w')" by (metis surj_pair)
  show "\<exists>q. fst (jitter env w) = Fin q \<and> 0 \<le> q \<and> q \<le> 1"
  proof (cases r)
    case None
    then have "fst (jitter env w) = Fin (1 / 2)" using assms r by (simp add: jitter_def DefaultJitterSource_def jitter_consts)
    then show ?thesis by (intro exI [of _ "1 / 2"]) simp
  next
    case (Some bs)
    obtain q where q: "f64_div (f64_of_int (uint (drop_bit 11 (le_uint64 bs)))) (f64_of_int (2 ^ 53)) = Fin q" "0 \<le> q" "q \<le> 1"
      using f64_unit_fraction uint_drop11 by (metis uint_ge_0)
    have "fst (jitter env w) = f64_div (f64_of_int (uint (drop_bit (64 - 53) (le_uint64 bs)))) (f64_of_int (2 ^ 53))"
      using assms r Some by (simp only: jitter_def DefaultJitterSource_def jitter_consts Let_def option.case prod.case fst_conv)
    moreover have "(64 - 53 :: nat) = 11" by simp
    ultimately show ?thesis using q by simp
  qed
qed

definition retry_cfg_ok :: "retry_config \<Rightarrow> bool" where
  "retry_cfg_ok cfg \<longleftrightarrow> 2 \<le> MaxAttempts cfg \<and> 0 < rInitial cfg \<and> rInitial cfg \<le> rMax cfg"

lemma retry_cfg_ok_Interceptor: "retry_cfg_ok (retry_Interceptor cfg)"
  by (auto simp: retry_cfg_ok_def retry_Interceptor_def Let_def retry_defaults)

lemma small_in_int64: "0 \<le> x \<Longrightarrow> x \<le> 2 ^ 53 \<Longrightarrow> in_int64 x"
  by (simp add: int64_defs)

lemma base_plus_jitter:
  assumes "0 \<le> q" and "q \<le> 1" and "0 \<le> base" and "base < upper" and "upper \<le> 2 ^ 53"
  shows "wrap64 (base + f64_to_int64 oob (f64_mul (Fin q) (f64_of_int (wrap64 (upper - base))))) \<in> {base..upper}"
proof -
  let ?x = "f64_to_int64 oob (f64_mul (Fin q) (f64_of_int (upper - base)))"
  have "0 \<le> ?x \<and> ?x \<le> upper - base"
    using assms by (intro f64_scale_bounds) auto
  moreover from this have "in_int64 (base + ?x)"
    using assms by (intro small_in_int64) auto
  moreover have "in_int64 (upper - base)"
    using assms by (intro small_in_int64) auto
  ultimately show ?thesis by simp
qed

lemma fullDelay_bounds:
  assumes "unit_jitter env" and "rMax cfg \<le> 2 ^ 53" and "fullDelay env cfg cap w = (d, w')" and "retry_cfg_ok cfg"
  shows "0 \<le> d \<and> d \<le> max (rMax cfg) (MinDelay cfg) \<and> (0 < min cap (rMax cfg) \<longrightarrow> MinDelay cfg \<le> d)"
proof -
  obtain j w2 where j: "jitter env w = (j, w2)" by fastforce
  obtain q where q: "j = Fin q" "0 \<le> q" "q \<le> 1" using unit_jitterE [OF assms(1) j] by metis
  define u where "u = min cap (rMax cfg)"
  have full: "fullDelay env cfg cap w =
     (if u \<le> 0 then (0, w) else if 0 < MinDelay cfg then
        (if u \<le> MinDelay cfg then (MinDelay cfg, w)
         else (wrap64 (MinDelay cfg + f64_to_int64 (outOfRange env) (f64_mul (Fin q) (f64_of_int (wrap64 (u - MinDelay cfg))))), w2))
      else (f64_to_int64 (outOfRange env) (f64_mul (Fin q) (f64_of_int u)), w2))"
    by (simp only: fullDelay_def Let_def u_def j q(1) prod.case)
  have u: "u \<le> rMax cfg" "u \<le> 2 ^ 53" using assms(2) by (simp_all add: u_def)
  consider "u \<le> 0" | "0 < u" "0 < MinDelay cfg" "u \<le> MinDelay cfg"
    | "0 < u" "0 < MinDelay cfg" "MinDelay cfg < u" | "0 < u" "MinDelay cfg \<le> 0" by linarith
  then have "0 \<le> d \<and> d \<le> max u (MinDelay cfg) \<or> d = 0 \<and> u \<le> 0"
    and "0 < u \<longrightarrow> MinDelay cfg \<le> d"
  proof (atomize (full), cases)
    case 3
    have "d \<in> {MinDelay cfg..u}"
      using base_plus_jitter [OF q(2,3), of "MinDelay cfg" u "outOfRange env"] 3 u(2) assms(3) full by simp
    then show "(0 \<le> d \<and> d \<le> max u (MinDelay cfg) \<or> d = 0 \<and> u \<le> 0) \<and> (0 < u \<longrightarrow> MinDelay cfg \<le> d)"
      using 3 by auto
  next
    case 4
    then have "d = f64_to_int64 (outOfRange env) (f64_mul (Fin q) (f64_of_int u))"
      using assms(3) full by simp
    with f64_scale_bounds [OF q(2,3) _ u(2), of "outOfRange env"] 4
    show "(0 \<le> d \<and> d \<le> max u (MinDelay cfg) \<or> d = 0 \<and> u \<le> 0) \<and> (0 < u \<longrightarrow> MinDelay cfg \<le> d)"
      by linarith
  qed (use assms(3) full in auto)
  then show ?thesis using u(1) assms(4) unfolding u_def [symmetric] retry_cfg_ok_def by linarith
qed

lemma decorrelatedDelay_bounds:
  assumes "unit_jitter env" and "retry_cfg_ok cfg" and "rMax cfg \<le> 2 ^ 53"
    and "decorrelatedDelay env cfg prev w = (d, w')"
  shows "rInitial cfg \<le> d \<and> d \<le> rMax cfg"
proof -
  let ?u = "min (f64_to_int64 (outOfRange env) (f64_mul (f64_of_int prev) (DecorrelationFactor cfg))) (rMax cfg)"
  obtain j w2 where j: "jitter env w = (j, w2)" by fastforce
  obtain q where q: "j = Fin q" "0 \<le> q" "q \<le> 1" using unit_jitterE [OF assms(1) j] by metis
  show ?thesis
  proof (cases "?u \<le> rInitial cfg")
    case True
    then show ?thesis using assms by (auto simp: decorrelatedDelay_def Let_def retry_cfg_ok_def)
  next
    case False
    then have "wrap64 (rInitial cfg + f64_to_int64 (outOfRange env) (f64_mul (Fin q) (f64_of_int (wrap64 (?u - rInitial cfg)))))
        \<in> {rInitial cfg..?u}"
      using assms(2,3) by (intro base_plus_jitter q) (auto simp: retry_cfg_ok_def)
    then have "d \<in> {rInitial cfg..?u}"
      using assms(4) False j q(1) by (simp only: decorrelatedDelay_def Let_def if_False prod.case prod.inject)
    then show ?thesis by auto
  qed
qed

text \<open>
  [C33] Every retry delay is bounded, whatever the platform does with out-of-range float
  conversions: with a jitter source that yields fractions and a \<^verbatim>\<open>Max\<close> a double represents
  exactly (up to 104 days), the delay is never negative and never exceeds the larger of
  \<^verbatim>\<open>Max\<close> and \<^verbatim>\<open>MinDelay\<close>; a positive RetryInfo from the server decides it alone, capped at
  \<^verbatim>\<open>Max\<close>; and decorrelated jitter stays between \<^verbatim>\<open>Initial\<close> and \<^verbatim>\<open>Max\<close>.
\<close>

theorem retry_delay_bounds:
  assumes "unit_jitter env" and "rMax (retry_Interceptor cfg) \<le> 2 ^ 53"
    and "nextDelay env (retry_Interceptor cfg) e cap prev w = (d, w')"
  shows "0 \<le> d \<and> d \<le> max (rMax (retry_Interceptor cfg)) (MinDelay (retry_Interceptor cfg)) \<and>
    (snd (RetryDelay (Some e)) \<and> 0 < fst (RetryDelay (Some e)) \<longrightarrow>
       d = min (fst (RetryDelay (Some e))) (rMax (retry_Interceptor cfg))) \<and>
    (\<not> (snd (RetryDelay (Some e)) \<and> 0 < fst (RetryDelay (Some e))) \<and> rStrategy (retry_Interceptor cfg) = StrategyDecorrelated \<longrightarrow>
       rInitial (retry_Interceptor cfg) \<le> d \<and> d \<le> rMax (retry_Interceptor cfg))"
proof -
  let ?c = "retry_Interceptor cfg"
  obtain s ok where hint: "RetryDelay (Some e) = (s, ok)" by fastforce
  have ok_c: "retry_cfg_ok ?c" by (rule retry_cfg_ok_Interceptor)
  consider "ok \<and> 0 < s" | "\<not> (ok \<and> 0 < s)" "rStrategy ?c = StrategyDecorrelated"
    | "\<not> (ok \<and> 0 < s)" "rStrategy ?c \<noteq> StrategyDecorrelated" by blast
  then show ?thesis
  proof cases
    case 1
    then show ?thesis using assms(3) hint ok_c by (auto simp: nextDelay_def retry_cfg_ok_def)
  next
    case 2
    then have "decorrelatedDelay env ?c prev w = (d, w')" using assms(3) hint by (auto simp: nextDelay_def)
    from decorrelatedDelay_bounds [OF assms(1) ok_c assms(2) this] show ?thesis
      using 2 hint ok_c by (auto simp: retry_cfg_ok_def)
  next
    case 3
    then have "fullDelay env ?c cap w = (d, w')"
      using assms(3) hint by (auto simp: nextDelay_def split: Strategy.splits)
    from fullDelay_bounds [OF assms(1,2) this ok_c] show ?thesis using 3 hint by auto
  qed
qed

section \<open>The attempts the loop makes\<close>

definition lift_env :: "'w retry_env \<Rightarrow> ('g \<times> 'w) retry_env" where
  "lift_env env =
     \<lparr>JitterSource = map_option lift_io (JitterSource env), rand8 = lift_io (rand8 env),
      ctxErr = (\<lambda>c. lift_io (ctxErr env c)), timerFires = (\<lambda>c d. lift_io (timerFires env c d)),
      outOfRange = outOfRange env\<rparr>"

lemma jitter_lift: "jitter (lift_env env) = lift_io (jitter env)"
  by (rule ext)
    (auto simp: jitter_def lift_env_def DefaultJitterSource_def lift_io_def Let_def split: option.splits prod.splits)

lemma outOfRange_lift: "outOfRange (lift_env env) = outOfRange env"
  by (simp add: lift_env_def)

lemma fullDelay_lift: "fullDelay (lift_env env) cfg cap = lift_io (fullDelay env cfg cap)"
  by (rule ext) (auto simp: fullDelay_def jitter_lift outOfRange_lift lift_io_def Let_def split: prod.splits)

lemma decorrelatedDelay_lift: "decorrelatedDelay (lift_env env) cfg prev = lift_io (decorrelatedDelay env cfg prev)"
  by (rule ext) (auto simp: decorrelatedDelay_def jitter_lift outOfRange_lift lift_io_def Let_def split: prod.splits)

lemma nextDelay_lift: "nextDelay (lift_env env) cfg e cap prev = lift_io (nextDelay env cfg e cap prev)"
  by (rule ext)
    (auto simp: nextDelay_def fullDelay_lift decorrelatedDelay_lift lift_io_def
      split: prod.splits Strategy.splits)

lemma retry_sleep_lift: "retry_sleep (lift_env env) ctx d = lift_io (retry_sleep env ctx d)"
  by (rule ext) (auto simp: retry_sleep_def lift_env_def lift_io_def split: prod.splits)

lemma retry_grow_lift: "retry_grow (lift_env env) = retry_grow env"
  by (rule ext)+ (simp add: retry_grow_def outOfRange_lift)

lemmas retry_lift = nextDelay_lift retry_sleep_lift retry_grow_lift

definition sleeps_uncancelled :: "'w retry_env \<Rightarrow> ctx \<Rightarrow> bool" where
  "sleeps_uncancelled env ctx \<longleftrightarrow> (\<forall>d w. fst (retry_sleep env ctx d w))"

definition retry_trace_ok ::
  "'w retry_env \<Rightarrow> retry_config \<Rightarrow> ctx \<Rightarrow> int \<Rightarrow> 'm attempt list \<Rightarrow> 'm rpc_result \<Rightarrow> bool" where
  "retry_trace_ok env cfg ctx budget tr r \<longleftrightarrow>
     tr \<noteq> [] \<and> int (length tr) \<le> budget \<and> attResult (last tr) = r \<and>
     (\<forall>a\<in>set tr. attCtx a = ctx) \<and>
     (\<forall>a\<in>set (butlast tr). \<exists>e. snd (attResult a) = Some e \<and> shouldRetry cfg e) \<and>
     (sleeps_uncancelled env ctx \<longrightarrow>
        (case snd r of None \<Rightarrow> True | Some e \<Rightarrow> \<not> shouldRetry cfg e \<or> int (length tr) = budget))"

lemma retry_trace_single:
  assumes "attResult a = r" and "attCtx a = ctx" and "1 \<le> budget"
    and "sleeps_uncancelled env ctx \<Longrightarrow> (case snd r of None \<Rightarrow> True | Some e \<Rightarrow> \<not> shouldRetry cfg e \<or> budget = 1)"
  shows "retry_trace_ok env cfg ctx budget [a] r"
  using assms by (auto simp: retry_trace_ok_def split: option.splits)

lemma retry_trace_Cons:
  assumes "retry_trace_ok env cfg ctx (budget - 1) tr r" and "attCtx a = ctx"
    and "snd (attResult a) = Some e" and "shouldRetry cfg e"
  shows "retry_trace_ok env cfg ctx budget (a # tr) r"
  using assms by (auto simp: retry_trace_ok_def split: option.splits)

text \<open>An environment whose operations keep an observation of the world.\<close>

definition env_keeps :: "('w \<Rightarrow> 'c) \<Rightarrow> 'w retry_env \<Rightarrow> bool" where
  "env_keeps obs env \<longleftrightarrow>
     keeps obs (jitter env) \<and> (\<forall>c. keeps obs (ctxErr env c)) \<and> (\<forall>c d. keeps obs (timerFires env c d))"

lemma env_keeps_lift [simp]: "env_keeps fst (lift_env env)"
  by (simp add: env_keeps_def jitter_lift) (simp add: lift_env_def)

lemma nextDelay_keeps: "env_keeps obs env \<Longrightarrow> nextDelay env cfg e cap prev w = (d, w') \<Longrightarrow> obs w' = obs w"
  by (auto simp: env_keeps_def nextDelay_def decorrelatedDelay_def fullDelay_def Let_def dest: keepsD
      split: prod.splits if_splits Strategy.splits)

lemma retry_sleep_keeps: "env_keeps obs env \<Longrightarrow> retry_sleep env ctx d w = (b, w') \<Longrightarrow> obs w' = obs w"
  unfolding env_keeps_def retry_sleep_def
  by (cases "d \<le> 0") (auto dest: keepsD [of obs "ctxErr env ctx"] keepsD [of obs "timerFires env ctx d"] split: prod.splits)

lemma sleeps_uncancelled_lift [simp]: "sleeps_uncancelled (lift_env env) ctx \<longleftrightarrow> sleeps_uncancelled env ctx"
  by (simp add: sleeps_uncancelled_def retry_sleep_lift lift_io_def case_prod_unfold)

text \<open>One turn of the loop: either it returns this attempt's result or it goes round again.\<close>

lemma retry_loop_turn:
  assumes run: "retry_loop env cfg next ctx sp attempt cap prev res (h, w) = (r, st')"
    and keep: "env_keeps obs env" and le: "attempt \<le> MaxAttempts cfg" and nx: "next ctx sp (h, w) = (r1, h1, w1)"
  obtains (stop) w3 where "r = r1" "st' = (h1, w3)" "obs w3 = obs w1"
      "sleeps_uncancelled env ctx \<Longrightarrow>
         (case snd r1 of None \<Rightarrow> True | Some e \<Rightarrow> \<not> shouldRetry cfg e \<or> attempt = MaxAttempts cfg)"
    | (again) e d w3 where "snd r1 = Some e" "shouldRetry cfg e" "attempt < MaxAttempts cfg" "obs w3 = obs w1"
      "retry_loop env cfg next ctx sp (attempt + 1) (retry_grow env cfg cap) d r1 (h1, w3) = (r, st')"
proof (cases "\<exists>e. snd r1 = Some e \<and> shouldRetry cfg e \<and> attempt \<noteq> MaxAttempts cfg")
  case False
  with run le nx have "r = r1 \<and> st' = (h1, w1)"
    by (subst (asm) retry_loop.simps) (auto split: option.splits)
  with False show ?thesis by (intro stop) (auto split: option.splits)
next
  case True
  then obtain e where e: "snd r1 = Some e" "shouldRetry cfg e" "attempt < MaxAttempts cfg" using le by auto
  obtain d w2 where d: "nextDelay env cfg e cap prev w1 = (d, w2)" by (metis surj_pair)
  obtain f w3 where f: "retry_sleep env ctx d w2 = (f, w3)" by (metis surj_pair)
  have obs: "obs w3 = obs w1" using nextDelay_keeps [OF keep d] retry_sleep_keeps [OF keep f] by simp
  show ?thesis
  proof (cases f)
    case False
    with run nx e d f have "r = r1 \<and> st' = (h1, w3)"
      by (subst (asm) retry_loop.simps) (auto split: prod.splits)
    moreover have "\<not> sleeps_uncancelled env ctx"
      using f False unfolding sleeps_uncancelled_def by (metis fst_conv)
    ultimately show ?thesis using obs by (intro stop [of w3]) auto
  next
    case True
    with run nx e d f obs show ?thesis
      by (intro again [of e w3 d], simp_all, subst (asm) retry_loop.simps) (auto split: prod.splits)
  qed
qed

lemma retry_loop_trace:
  assumes "retry_loop (lift_env env) cfg (logged next) ctx sp attempt cap prev res (h, l, w) = (r, h', l', w')"
    and "attempt \<le> MaxAttempts cfg"
  shows "\<exists>tr. l' = l @ tr \<and> retry_trace_ok env cfg ctx (MaxAttempts cfg + 1 - attempt) tr r"
  using assms
proof (induction "nat (MaxAttempts cfg - attempt)" arbitrary: attempt cap prev res h l w rule: less_induct)
  case less
  obtain r1 h1 w1 where nx: "next ctx sp (h, w) = (r1, h1, w1)" by (metis surj_pair)
  let ?a = "\<lparr>attCtx = ctx, attHeader = h, attResult = r1\<rparr>"
  have "logged next ctx sp (h, l, w) = (r1, h1, l @ [?a], w1)" by (simp add: logged_def nx)
  with less.prems(1) env_keeps_lift less.prems(2) show ?case
  proof (cases rule: retry_loop_turn)
    case (stop w3)
    then show ?thesis using less.prems(2) by (auto intro!: retry_trace_single split: option.splits)
  next
    case (again e d w3)
    then have "retry_loop (lift_env env) cfg (logged next) ctx sp (attempt + 1) (retry_grow env cfg cap) d r1
        (h1, l @ [?a], snd w3) = (r, h', l', w')" by (cases w3) (simp add: retry_grow_lift)
    from less.hyps [OF _ this] again(3) obtain tr where
      "l' = l @ ?a # tr" "retry_trace_ok env cfg ctx (MaxAttempts cfg - attempt) tr r" by auto
    then show ?thesis using again(1,2) by (intro exI [of _ "?a # tr"]) (auto intro!: retry_trace_Cons)
  qed
qed

text \<open>
  [C32] What the retry interceptor does, attempt by attempt, for every next function, every
  configuration and every environment: at least one and at most \<^verbatim>\<open>MaxAttempts\<close> attempts are
  made, all with the caller's context; the caller gets exactly the last attempt's result; every
  attempt before it failed with a retryable error; and unless a sleep is cancelled the loop
  stops only on success, on a non-retryable error or with the attempts used up. A procedure of
  unknown idempotency is called exactly once unless the configuration allows more.
\<close>

theorem retry_attempts:
  assumes "retry_WrapUnary (lift_env env) (retry_Interceptor cfg) (logged next) ctx sp (h, [], w) = (r, h', tr, w')"
  shows "retry_trace_ok env (retry_Interceptor cfg) ctx
      (if \<not> AllowNonIdempotent cfg \<and> IdempotencyLevel sp = IdempotencyUnknown then 1
       else MaxAttempts (retry_Interceptor cfg)) tr r \<and>
    (\<not> AllowNonIdempotent cfg \<and> IdempotencyLevel sp = IdempotencyUnknown \<longrightarrow>
       next ctx sp (h, w) = (r, h', w'))"
proof -
  let ?c = "retry_Interceptor cfg"
  have allow: "AllowNonIdempotent ?c = AllowNonIdempotent cfg"
    by (simp add: retry_Interceptor_def Let_def)
  show ?thesis
  proof (cases "\<not> AllowNonIdempotent cfg \<and> IdempotencyLevel sp = IdempotencyUnknown")
    case True
    with assms allow have "logged next ctx sp (h, [], w) = (r, h', tr, w')"
      by (simp add: retry_WrapUnary_def)
    with True show ?thesis
      by (auto simp: logged_def intro!: retry_trace_single split: prod.splits option.splits)
  next
    case False
    with assms allow have "retry_loop (lift_env env) ?c (logged next) ctx sp 1 (rInitial ?c) (rInitial ?c)
        (None, None) (h, [], w) = (r, h', tr, w')"
      by (simp add: retry_WrapUnary_def)
    from retry_loop_trace [OF this] retry_cfg_ok_Interceptor [of cfg] False show ?thesis
      by (auto simp: retry_cfg_ok_def)
  qed
qed

section \<open>The call bound and the growth of the backoff\<close>

lemma retry_loop_calls:
  assumes "adds_calls cost next m" and "env_keeps cost env" and "attempt \<le> MaxAttempts cfg + 1"
    and "retry_loop env cfg next ctx sp attempt cap prev res (h, w) = (r, h', w')"
  shows "cost w' \<le> cost w + nat (MaxAttempts cfg + 1 - attempt) * m"
  using assms(3,4)
proof (induction "nat (MaxAttempts cfg + 1 - attempt)" arbitrary: attempt cap prev res h w)
  case n: 0
  then show ?case by (subst (asm) retry_loop.simps) auto
next
  case n: (Suc k)
  obtain r1 h1 w1 where nx: "next ctx sp (h, w) = (r1, h1, w1)" by (metis surj_pair)
  have one: "cost w1 \<le> cost w + m" using adds_callsD [OF assms(1) nx] .
  have k: "k = nat (MaxAttempts cfg - attempt)" and le: "attempt \<le> MaxAttempts cfg" using n.hyps(2) by auto
  from n.prems(2) assms(2) le nx show ?case
  proof (cases rule: retry_loop_turn)
    case (stop w3)
    then show ?thesis using one n.hyps(2) [symmetric] by simp
  next
    case (again e d w3)
    from n.hyps(1) [OF _ _ again(5)] le k have "cost w' \<le> cost w3 + k * m" by simp
    then show ?thesis using one again(4) n.hyps(2) [symmetric] by simp
  qed
qed

lemma retry_call_bound:
  assumes "env_keeps cost env" and "1 \<le> MaxAttempts cfg"
  shows "call_bound cost (retry_WrapUnary env cfg) (nat (MaxAttempts cfg))"
proof
  fix "next" :: "('a, 'b) unary" and m
  assume nx: "adds_calls cost next m"
  show "adds_calls cost (retry_WrapUnary env cfg next) (nat (MaxAttempts cfg) * m)"
  proof (rule adds_callsI)
    fix ctx sp h w r h' w'
    assume run: "retry_WrapUnary env cfg next ctx sp (h, w) = (r, h', w')"
    show "cost w' \<le> cost w + nat (MaxAttempts cfg) * m"
    proof (cases "\<not> AllowNonIdempotent cfg \<and> IdempotencyLevel sp = IdempotencyUnknown")
      case True
      with run nx have "cost w' \<le> cost w + m" by (simp add: retry_WrapUnary_def adds_callsD)
      moreover have "1 * m \<le> nat (MaxAttempts cfg) * m" using assms(2) by (intro mult_right_mono) auto
      ultimately show ?thesis by linarith
    next
      case False
      with run have "retry_loop env cfg next ctx sp 1 (rInitial cfg) (rInitial cfg) (None, None) (h, w) = (r, h', w')"
        by (simp only: retry_WrapUnary_def if_False)
      from retry_loop_calls [OF nx assms(1) _ this] assms(2) show ?thesis by simp
    qed
  qed
qed

lemma retry_Interceptor_attempts: "1 \<le> MaxAttempts (retry_Interceptor cfg)"
  using retry_cfg_ok_Interceptor [of cfg] by (simp add: retry_cfg_ok_def)

interpretation retry_calls: call_bound fst "retry_WrapUnary (lift_env env) (retry_Interceptor cfg)"
  "nat (MaxAttempts (retry_Interceptor cfg))" for env cfg
  by (rule retry_call_bound) (simp_all add: retry_Interceptor_attempts)

lemma retry_grow_double:
  assumes "Multiplier cfg = Fin 2" and "0 \<le> cap" and "cap \<le> rMax cfg" and "rMax cfg \<le> 2 ^ 52"
  shows "retry_grow env cfg cap = min (2 * cap) (rMax cfg)"
proof -
  have "mk_f64 (of_int cap * 2) = Fin (of_int (2 * cap))"
    using f64_of_int_exact [of "2 * cap"] assms by (simp add: f64_of_int_def mult.commute del: f64_of_int_exact)
  moreover have "in_int64 (2 * cap)" using assms by (intro small_in_int64) auto
  ultimately show ?thesis
    using assms trunc_rat_int(1) [of "2 * cap"] by (simp add: retry_grow_def Let_def del: trunc_rat_int of_int_mult)
qed

text \<open>
  Exponential backoff in closed form: with the default multiplier and a \<^verbatim>\<open>Max\<close> below
  \<open>2 ^ 52\<close> nanoseconds, the ceiling after \<open>n\<close> retries is \<open>Initial * 2 ^ n\<close> capped at \<^verbatim>\<open>Max\<close>,
  computed exactly although every step goes through doubles.
\<close>

theorem retry_backoff_exponential:
  assumes "Multiplier (retry_Interceptor cfg) = Fin 2" and "rMax (retry_Interceptor cfg) \<le> 2 ^ 52"
  shows "(retry_grow env (retry_Interceptor cfg) ^^ n) (rInitial (retry_Interceptor cfg)) =
    min (rInitial (retry_Interceptor cfg) * 2 ^ n) (rMax (retry_Interceptor cfg))"
proof (induction n)
  case 0
  then show ?case using retry_cfg_ok_Interceptor [of cfg] by (simp add: retry_cfg_ok_def)
next
  case (Suc n)
  let ?c = "retry_Interceptor cfg"
  have pos: "0 \<le> rInitial ?c * 2 ^ n" and "0 < rMax ?c"
    using retry_cfg_ok_Interceptor [of cfg] by (auto simp: retry_cfg_ok_def)
  then have "retry_grow env ?c (min (rInitial ?c * 2 ^ n) (rMax ?c)) =
      min (2 * min (rInitial ?c * 2 ^ n) (rMax ?c)) (rMax ?c)"
    using assms by (intro retry_grow_double) auto
  also have "\<dots> = min (rInitial ?c * 2 ^ Suc n) (rMax ?c)"
    using pos \<open>0 < rMax ?c\<close> by (simp add: min_def)
  finally show ?case using Suc by simp
qed

text \<open>
  \<^verbatim>\<open>grow\<close> compares with \<^verbatim>\<open>Max\<close> only after converting the product to \<^verbatim>\<open>int64\<close>. With a
  multiplier of 10^12 the first product leaves the range; where the platform's conversion then
  gives the smallest \<^verbatim>\<open>int64\<close> (amd64), the ceiling becomes negative instead of \<^verbatim>\<open>Max\<close> and every
  later full-jitter delay is zero.
\<close>

theorem retry_grow_overflow_no_backoff:
  "let amd64 = env\<lparr>outOfRange := \<lambda>_. min_int64\<rparr>;
       cfg = retry_Interceptor (retry_DefaultConfig\<lparr>Multiplier := Fin 1000000000000\<rparr>);
       cap = retry_grow amd64 cfg (rInitial cfg)
   in cap = min_int64 \<and> fullDelay amd64 cfg cap w = (0, w)"
proof -
  let ?e = "env\<lparr>outOfRange := \<lambda>_. min_int64\<rparr>"
  let ?c = "retry_Interceptor (retry_DefaultConfig\<lparr>Multiplier := Fin 1000000000000\<rparr>)"
  obtain f where "f64_to_int64 (outOfRange ?e) (mk_f64 100000000000000000000) = wrap64 (outOfRange ?e f)"
    using f64_to_int64_overflow [of 100000000000000000000 "outOfRange ?e"] by auto
  then have cap: "retry_grow ?e ?c (rInitial ?c) = min_int64"
    by (simp add: retry_grow_def retry_Interceptor_def retry_DefaultConfig_def retry_defaults int64_defs
        del: mk_f64_numeral)
  then have "fullDelay ?e ?c (retry_grow ?e ?c (rInitial ?c)) w = (0, w)"
    by (auto simp: fullDelay_def Let_def min_int64_def)
  with cap show ?thesis by (simp add: Let_def)
qed

section \<open>A concrete run\<close>

text \<open>An environment whose timers advance a clock and whose jitter is always one half, and a
  server that is down until the clock reads 100 ms.\<close>

definition demo_env :: "int retry_env" where
  "demo_env =
     \<lparr>JitterSource = Some (\<lambda>w. (Fin (1 / 2), w)), rand8 = (\<lambda>w. (None, w)), ctxErr = (\<lambda>c w. (None, w)),
      timerFires = (\<lambda>c d w. (True, w + d)), outOfRange = (\<lambda>_. min_int64)\<rparr>"

definition flaky_next :: "(int, nat) unary" where
  "flaky_next ctx sp = (\<lambda>(h, w).
     if w < 100 * millisecond then ((None, Some (EConnect CodeUnavailable (EText ''down'') [])), h, w)
     else ((Some \<lparr>rspHeader = [], rspMsg = 7\<rparr>, None), h, w))"

lemmas retry_run_simps = retry_WrapUnary_def retry_loop.simps retry_lift lift_io_def logged_def nextDelay_def
  RetryDelay_def AsConnect_def fullDelay_def retry_sleep_def shouldRetry_def Code_def jitter_def demo_env_def
  retry_grow_def retry_Interceptor_def retry_DefaultConfig_def retry_defaults Let_def flaky_next_def int64_defs

abbreviation background :: ctx where
  "background \<equiv> \<lparr>ctxDeadline = None, ctxValues = []\<rparr>"

lemma flaky_run:
  "\<exists>tr. retry_WrapUnary (lift_env demo_env) (retry_Interceptor retry_DefaultConfig) (logged flaky_next) background
     \<lparr>Procedure = ''/p/Get'', IdempotencyLevel = IdempotencyNoSideEffects\<rparr> ([], [], 0) =
     ((Some \<lparr>rspHeader = [], rspMsg = 7\<rparr>, None), [], tr, 150000000) \<and> length tr = 3"
  by (simp add: retry_run_simps)

lemma unit_jitter_demo: "unit_jitter demo_env"
  by (simp add: unit_jitter_def jitter_def demo_env_def exI [of _ "1 / 2"])

theorem retry_attempts_witness:
  "\<exists>tr. retry_WrapUnary (lift_env demo_env) (retry_Interceptor retry_DefaultConfig) (logged flaky_next) background
     \<lparr>Procedure = ''/p/Get'', IdempotencyLevel = IdempotencyNoSideEffects\<rparr> ([], [], 0) =
     ((Some \<lparr>rspHeader = [], rspMsg = 7\<rparr>, None), [], tr, 150000000) \<and> length tr = 3 \<and>
     retry_trace_ok demo_env (retry_Interceptor retry_DefaultConfig) background 4 tr
       (Some \<lparr>rspHeader = [], rspMsg = 7\<rparr>, None)"
proof -
  obtain tr where run: "retry_WrapUnary (lift_env demo_env) (retry_Interceptor retry_DefaultConfig)
      (logged flaky_next) background
      \<lparr>Procedure = ''/p/Get'', IdempotencyLevel = IdempotencyNoSideEffects\<rparr> ([], [], 0) =
      ((Some \<lparr>rspHeader = [], rspMsg = 7\<rparr>, None), [], tr, 150000000)" "length tr = 3"
    using flaky_run by blast
  moreover have "MaxAttempts (retry_Interceptor retry_DefaultConfig) = 4"
    by (simp add: retry_Interceptor_def retry_DefaultConfig_def retry_defaults)
  ultimately show ?thesis using retry_attempts [OF run(1)] by (intro exI [of _ tr]) simp
qed

theorem retry_delay_bounds_witness:
  "nextDelay demo_env (retry_Interceptor retry_DefaultConfig) (EText ''x'') 200000000 0 0 = (100000000, 0) \<and>
   (100000000 :: int) \<le> max (rMax (retry_Interceptor retry_DefaultConfig)) (MinDelay (retry_Interceptor retry_DefaultConfig))"
proof -
  have d: "nextDelay demo_env (retry_Interceptor retry_DefaultConfig) (EText ''x'') 200000000 0 0 = (100000000, 0)"
    by (simp add: retry_run_simps)
  have "rMax (retry_Interceptor retry_DefaultConfig) \<le> 2 ^ 53"
    by (simp add: retry_Interceptor_def retry_DefaultConfig_def retry_defaults)
  from retry_delay_bounds [OF unit_jitter_demo this d] d show ?thesis by blast
qed

theorem retry_backoff_exponential_witness:
  "(retry_grow demo_env (retry_Interceptor retry_DefaultConfig) ^^ 3) DefaultInitialBackoff = 800 * millisecond"
  using retry_backoff_exponential [where cfg = retry_DefaultConfig and env = demo_env and n = 3]
  by (simp add: retry_Interceptor_def retry_DefaultConfig_def retry_defaults)

end
