(* ===== verification/Idempotency.thy ===== *)
theory Idempotency
  imports Rpc "HOL-Library.Word" "HOL-Library.List_Lexorder" "HOL-Library.Char_ord"
begin

unbundle bit_operations_syntax

text \<open>
  The idempotency-key interceptor of \<^verbatim>\<open>src/idempotency/idempotency.go\<close>: the UUIDv7 generator
  on machine bytes, the read-only heuristic and the interceptor, which keeps the key in the
  request's header. The kernel's random bytes and the wall clock (nanoseconds since the Unix
  epoch) are parameters.
\<close>

section \<open>Keys\<close>

definition uuidVersionByteIdx :: nat where "uuidVersionByteIdx = 6"
definition uuidVersionMask :: "8 word" where "uuidVersionMask = 0x0f"
definition uuidV7VersionByte :: "8 word" where "uuidV7VersionByte = 0x70"
definition uuidVariantByteIdx :: nat where "uuidVariantByteIdx = 8"
definition uuidVariantMask :: "8 word" where "uuidVariantMask = 0x3f"
definition uuidRFC4122Variant :: "8 word" where "uuidRFC4122Variant = 0x80"
definition unixMilli48Mask :: "64 word" where "unixMilli48Mask = 0x0000FFFFFFFFFFFF"

lemmas uuid_consts = uuidVersionByteIdx_def uuidVersionMask_def uuidV7VersionByte_def uuidVariantByteIdx_def
  uuidVariantMask_def uuidRFC4122Variant_def unixMilli48Mask_def

definition byte_hex :: "8 word \<Rightarrow> string" where
  "byte_hex b = [hex_digit (unat b div 16), hex_digit (unat b mod 16)]"

text \<open>\<^verbatim>\<open>%x\<close> of a byte slice and of a non-negative integer.\<close>

definition hex_bytes :: "8 word list \<Rightarrow> string" where
  "hex_bytes bs = concat (map byte_hex bs)"

fun hex_nat :: "nat \<Rightarrow> string" where
  "hex_nat n = (if n < 16 then [hex_digit n] else hex_nat (n div 16) @ [hex_digit (n mod 16)])"

declare hex_nat.simps [simp del]

definition pad_zeros :: "nat \<Rightarrow> string \<Rightarrow> string" where
  "pad_zeros n s = replicate (n - length s) CHR ''0'' @ s"

text \<open>\<^verbatim>\<open>%012x\<close> of an \<^verbatim>\<open>int64\<close>: the sign counts towards the width.\<close>

definition format_012x :: "int \<Rightarrow> string" where
  "format_012x n = (if 0 \<le> n then pad_zeros 12 (hex_nat (nat n)) else CHR ''-'' # pad_zeros 11 (hex_nat (nat (- n))))"

text \<open>\<^verbatim>\<open>binary.BigEndian.PutUint64\<close>.\<close>

definition be_bytes :: "64 word \<Rightarrow> 8 word list" where
  "be_bytes w = map (\<lambda>i. ucast (drop_bit (56 - 8 * i) w)) [0..<8]"

definition UnixMilli :: "int \<Rightarrow> int" where "UnixMilli t = t div 1000000"

definition embed_v7 :: "8 word list \<Rightarrow> int \<Rightarrow> 8 word list" where
  "embed_v7 b ms =
     (let tsBuf = be_bytes (word_of_int ms AND unixMilli48Mask);
          b1 = take uuidVersionByteIdx (drop 2 tsBuf) @ drop uuidVersionByteIdx b;
          b2 = b1[uuidVersionByteIdx := (b1 ! uuidVersionByteIdx AND uuidVersionMask) OR uuidV7VersionByte]
      in b2[uuidVariantByteIdx := (b2 ! uuidVariantByteIdx AND uuidVariantMask) OR uuidRFC4122Variant])"

definition slice :: "nat \<Rightarrow> nat \<Rightarrow> 'a list \<Rightarrow> 'a list" where
  "slice i j xs = drop i (take j xs)"

definition format_uuid :: "8 word list \<Rightarrow> string" where
  "format_uuid b =
     hex_bytes (slice 0 4 b) @ ''-'' @ hex_bytes (slice 4 6 b) @ ''-'' @ hex_bytes (slice 6 8 b) @ ''-'' @
     hex_bytes (slice 8 10 b) @ ''-'' @ hex_bytes (slice 10 16 b)"

definition defaultKey :: "('w, 8 word list option) io \<Rightarrow> 'w clock \<Rightarrow> ('w, string) io" where
  "defaultKey rand16 wall w =
     (case rand16 w of
        (None, w1) \<Rightarrow>
          (case wall w1 of (t, w2) \<Rightarrow> (''00000000-0000-7000-8000-'' @ format_012x (wrap64 t), w2))
      | (Some b, w1) \<Rightarrow>
          (case wall w1 of (t, w2) \<Rightarrow> (format_uuid (embed_v7 b (UnixMilli t)), w2)))"

section \<open>The interceptor\<close>

definition readOnlyPrefixes :: "string list" where
  "readOnlyPrefixes = [''Get'', ''List'', ''Read'', ''Watch'', ''Search'', ''Query'', ''Lookup'']"

definition defaultIsSafe :: "string \<Rightarrow> bool" where
  "defaultIsSafe procedure =
     (let i = LastIndex procedure CHR ''/'';
          method = (if 0 \<le> i then drop (nat (i + 1)) procedure else procedure)
      in list_ex (\<lambda>p. prefix p method) readOnlyPrefixes)"

record 'w idem_options =
  KeyFn :: "('w, string) io option"
  IsSafe :: "(string \<Rightarrow> bool) option"
  HeaderName :: string

record 'w idem_interceptor =
  iKeyFn :: "('w, string) io"
  iIsSafe :: "string \<Rightarrow> bool"
  iHeaderName :: string

definition idem_Interceptor :: "('w, 8 word list option) io \<Rightarrow> 'w clock \<Rightarrow> 'w idem_options \<Rightarrow> 'w idem_interceptor" where
  "idem_Interceptor rand16 wall opts =
     \<lparr>iKeyFn = (case KeyFn opts of None \<Rightarrow> defaultKey rand16 wall | Some f \<Rightarrow> f),
      iIsSafe = (case IsSafe opts of None \<Rightarrow> defaultIsSafe | Some f \<Rightarrow> f),
      iHeaderName = (if HeaderName opts = [] then ''Idempotency-Key'' else HeaderName opts)\<rparr>"

definition idem_WrapUnary :: "'w idem_interceptor \<Rightarrow> ('w, 'm) unary \<Rightarrow> ('w, 'm) unary" where
  "idem_WrapUnary i next ctx sp = (\<lambda>(h, w).
     if iIsSafe i (Procedure sp) then next ctx sp (h, w)
     else if hdr_get h (iHeaderName i) = [] then
       (case iKeyFn i w of (key, w') \<Rightarrow> next ctx sp (hdr_set h (iHeaderName i) key, w'))
     else next ctx sp (h, w))"

section \<open>Layout\<close>

lemma hex_bytes_simps [simp]:
  "hex_bytes [] = []" "hex_bytes (b # bs) = byte_hex b @ hex_bytes bs" "hex_bytes (xs @ ys) = hex_bytes xs @ hex_bytes ys"
  by (simp_all add: hex_bytes_def)

lemma length_hex_bytes [simp]: "length (hex_bytes bs) = 2 * length bs"
  by (induction bs) (auto simp: byte_hex_def)

lemma length_be_bytes [simp]: "length (be_bytes w) = 8"
  by (simp add: be_bytes_def)

lemma length16E:
  assumes "length b = 16"
  obtains b0 b1 b2 b3 b4 b5 b6 b7 b8 b9 b10 b11 b12 b13 b14 b15
  where "b = [b0, b1, b2, b3, b4, b5, b6, b7, b8, b9, b10, b11, b12, b13, b14, b15]"
proof -
  have "b = map (\<lambda>i. b ! i) [0..<16]" using assms by (metis map_nth)
  then show ?thesis by (intro that) (simp add: upt_rec numeral_eq_Suc)
qed

lemma be_bytes_unfold:
  "be_bytes w = [ucast (drop_bit 56 w), ucast (drop_bit 48 w), ucast (drop_bit 40 w), ucast (drop_bit 32 w),
     ucast (drop_bit 24 w), ucast (drop_bit 16 w), ucast (drop_bit 8 w), ucast w]"
  by (simp add: be_bytes_def upt_rec numeral_eq_Suc)

lemma embed_v7_bytes:
  assumes "length b = 16"
  shows "let n = word_of_int ms AND unixMilli48Mask in
    embed_v7 b ms = [ucast (drop_bit 40 n), ucast (drop_bit 32 n), ucast (drop_bit 24 n), ucast (drop_bit 16 n),
      ucast (drop_bit 8 n), ucast n, (b ! 6 AND 0x0f) OR 0x70, b ! 7, (b ! 8 AND 0x3f) OR 0x80] @ drop 9 b"
proof -
  obtain b0 b1 b2 b3 b4 b5 b6 b7 b8 b9 b10 b11 b12 b13 b14 b15
    where b: "b = [b0, b1, b2, b3, b4, b5, b6, b7, b8, b9, b10, b11, b12, b13, b14, b15]"
    using assms by (rule length16E)
  show ?thesis unfolding b by (simp add: embed_v7_def be_bytes_unfold uuid_consts Let_def)
qed

lemma length_embed_v7: "length b = 16 \<Longrightarrow> length (embed_v7 b ms) = 16"
  using embed_v7_bytes [of b ms] by (simp add: Let_def)

lemma version_nibble: "unat ((x AND 0x0f) OR 0x70 :: 8 word) div 16 = 7"
proof -
  have "drop_bit 4 ((x AND 0x0f) OR 0x70) = (7 :: 8 word)" by (simp add: drop_bit_or drop_bit_and)
  then have "unat (drop_bit 4 ((x AND 0x0f) OR 0x70) :: 8 word) = 7" by simp
  then show ?thesis unfolding unat_drop_bit_eq by (simp add: drop_bit_eq_div)
qed

lemma variant_nibble: "unat ((x AND 0x3f) OR 0x80 :: 8 word) div 16 \<in> {8, 9, 10, 11}"
proof -
  have "drop_bit 6 ((x AND 0x3f) OR 0x80) = (2 :: 8 word)" by (simp add: drop_bit_or drop_bit_and)
  then have "unat (drop_bit 6 ((x AND 0x3f) OR 0x80) :: 8 word) = 2" by simp
  then have "unat ((x AND 0x3f) OR 0x80 :: 8 word) div 64 = 2"
    unfolding unat_drop_bit_eq by (simp add: drop_bit_eq_div)
  then show ?thesis by (simp add: insert_iff) linarith
qed

definition is_hex :: "char \<Rightarrow> bool" where
  "is_hex c \<longleftrightarrow> c \<in> set ''0123456789abcdef''"

lemma hex_digit_is_hex: "n < 16 \<Longrightarrow> is_hex (hex_digit n)"
proof -
  assume "n < 16"
  then have "n \<in> set [0..<16]" by simp
  moreover have "list_all (\<lambda>n. is_hex (hex_digit n)) [0..<16]" by code_simp
  ultimately show ?thesis by (simp only: list_all_iff)
qed

lemma hex_digit_values:
  "hex_digit 7 = CHR ''7''" "hex_digit 8 = CHR ''8''" "hex_digit 9 = CHR ''9''"
  "hex_digit 10 = CHR ''a''" "hex_digit 11 = CHR ''b''"
  by code_simp+

lemma byte_hex_is_hex: "list_all is_hex (byte_hex b)"
proof -
  have "unat b < 256" using unsigned_less [of b, where 'a = nat] by simp
  then show ?thesis by (simp add: byte_hex_def hex_digit_is_hex less_mult_imp_div_less)
qed

lemma hex_bytes_is_hex: "list_all is_hex (hex_bytes bs)"
  by (induction bs) (simp_all add: byte_hex_is_hex)

section \<open>Order\<close>

text \<open>The \<open>k\<close> low hexadecimal digits of a number, most significant first, and their order.\<close>

fun low_digits :: "nat \<Rightarrow> nat \<Rightarrow> string" where
  "low_digits 0 n = []"
| "low_digits (Suc k) n = hex_digit (n div 16 ^ k mod 16) # low_digits k n"

lemma hex_digit_less: "a < b \<Longrightarrow> b < 16 \<Longrightarrow> hex_digit a < hex_digit b"
proof -
  assume "a < b" and "b < 16"
  moreover have "of_char (hex_digit n) = (if n < 10 then 48 + n else 87 + n :: nat)" if "n < 16" for n
    using that by (simp add: hex_digit_def)
  ultimately show ?thesis by (simp add: less_char_def)
qed

lemma append_same_less: "zs @ xs < zs @ ys \<longleftrightarrow> xs < (ys :: string)"
  by (induction zs) auto

lemma low_digits_mod: "low_digits k (n mod 16 ^ k) = low_digits k n"
proof -
  have "j \<le> k \<Longrightarrow> low_digits j (n mod 16 ^ k) = low_digits j n" for j
  proof (induction j)
    case (Suc j)
    obtain d where k: "k = Suc j + d" using Suc.prems le_Suc_ex by blast
    have "n mod 16 ^ k div 16 ^ j mod 16 = n div 16 ^ j mod 16"
      using mod_mult2_eq [of n "16 ^ j" "16 * 16 ^ d"] by (simp add: k power_add ac_simps mod_mult2_eq)
    then show ?case using Suc by simp
  qed simp
  then show ?thesis by simp
qed

lemma low_digits_less:
  "n < m \<Longrightarrow> m < 16 ^ k \<Longrightarrow> low_digits k n @ xs < low_digits k m @ ys"
proof (induction k arbitrary: n m)
  case (Suc k)
  let ?a = "n div 16 ^ k" and ?b = "m div 16 ^ k"
  have b: "?b < 16" using Suc.prems(2) by (simp add: less_mult_imp_div_less mult.commute)
  have le: "?a \<le> ?b" using Suc.prems(1) by (simp add: div_le_mono)
  show ?case
  proof (cases "?a = ?b")
    case True
    then have "n mod 16 ^ k < m mod 16 ^ k"
      using Suc.prems(1) by (metis add_less_cancel_left div_mult_mod_eq)
    then have "low_digits k (n mod 16 ^ k) @ xs < low_digits k (m mod 16 ^ k) @ ys" by (intro Suc.IH) auto
    then show ?thesis using True by (simp add: low_digits_mod)
  next
    case False
    then show ?thesis using le b by (simp add: hex_digit_less)
  qed
qed simp

lemma unat_byte: "unat (ucast (drop_bit k w) :: 8 word) = unat (w :: 64 word) div 2 ^ k mod 256"
  unfolding unsigned_ucast_eq unat_drop_bit_eq by (simp add: take_bit_eq_mod drop_bit_eq_div)

lemma timestamp_word: "unat (word_of_int ms AND unixMilli48Mask) = nat (ms mod 2 ^ 48)"
proof -
  have "unixMilli48Mask = mask 48" by (simp add: unixMilli48Mask_def mask_eq_exp_minus_1)
  then have "word_of_int ms AND unixMilli48Mask = take_bit 48 (word_of_int ms)" by (simp add: take_bit_eq_mask)
  moreover have "uint (take_bit 48 (word_of_int ms :: 64 word)) = ms mod 2 ^ 48"
    unfolding unsigned_take_bit_eq uint_word_of_int_eq by (simp add: take_bit_eq_mod mod_mod_cancel)
  ultimately show ?thesis by (metis unat_eq_nat_uint)
qed

text \<open>A byte supplies the next two digits.\<close>

lemma byte_hex_low_digits:
  assumes "unat b = m div 16 ^ k mod 256"
  shows "byte_hex b @ low_digits k m = low_digits (Suc (Suc k)) m"
proof -
  let ?q = "m div 16 ^ k"
  have "?q mod 256 div 16 = ?q div 16 mod 16" using mod_mult2_eq [of ?q 16 16] by simp
  moreover have "?q mod 256 mod 16 = ?q mod 16" by (simp add: mod_mod_cancel)
  moreover have "?q div 16 = m div 16 ^ Suc k" by (metis div_mult2_eq power_Suc2)
  ultimately show ?thesis by (simp add: byte_hex_def assms)
qed

lemma timestamp_hex:
  fixes w :: "64 word"
  defines "n \<equiv> unat w"
  shows "hex_bytes [ucast (drop_bit 40 w), ucast (drop_bit 32 w), ucast (drop_bit 24 w), ucast (drop_bit 16 w)] =
      low_digits 8 (n div 65536)"
    and "hex_bytes [ucast (drop_bit 8 w), ucast w] = low_digits 4 n"
proof -
  have byte: "byte_hex (ucast (drop_bit (16 + 4 * k) w)) @ low_digits k (n div 65536) = low_digits (Suc (Suc k)) (n div 65536)" for k
    by (rule byte_hex_low_digits)
      (simp add: unat_byte n_def power_add power_mult div_mult2_eq [symmetric] del: div_mult2_eq)
  show "hex_bytes [ucast (drop_bit 40 w), ucast (drop_bit 32 w), ucast (drop_bit 24 w), ucast (drop_bit 16 w)] =
      low_digits 8 (n div 65536)"
  proof -
    have "low_digits 8 (n div 65536) = low_digits (Suc (Suc 6)) (n div 65536)"
        "low_digits 6 (n div 65536) = low_digits (Suc (Suc 4)) (n div 65536)"
        "low_digits 4 (n div 65536) = low_digits (Suc (Suc 2)) (n div 65536)"
        "low_digits 2 (n div 65536) = low_digits (Suc (Suc 0)) (n div 65536)"
      by (rule arg_cong2 [of _ _ _ _ low_digits], simp, rule refl)+
    then have "low_digits 8 (n div 65536) = byte_hex (ucast (drop_bit (16 + 4 * 6) w)) @
        byte_hex (ucast (drop_bit (16 + 4 * 4) w)) @ byte_hex (ucast (drop_bit (16 + 4 * 2) w)) @
        byte_hex (ucast (drop_bit (16 + 4 * 0) w)) @ low_digits 0 (n div 65536)"
      by (simp only: byte [symmetric])
    then show ?thesis by simp
  qed
  have "byte_hex (ucast w) @ low_digits 0 n = low_digits (Suc (Suc 0)) n"
    using unat_byte [of 0 w] by (intro byte_hex_low_digits) (simp add: n_def)
  moreover have "byte_hex (ucast (drop_bit 8 w)) @ low_digits 2 n = low_digits (Suc (Suc 2)) n"
    using unat_byte [of 8 w] by (intro byte_hex_low_digits) (simp add: n_def)
  moreover have "low_digits 4 n = low_digits (Suc (Suc 2)) n" "low_digits 2 n = low_digits (Suc (Suc 0)) n"
    by (rule arg_cong2 [of _ _ _ _ low_digits], simp, rule refl)+
  ultimately show "hex_bytes [ucast (drop_bit 8 w), ucast w] = low_digits 4 n"
    by (simp only: hex_bytes_simps append_Nil2 low_digits.simps(1))
qed

section \<open>Properties of the default key\<close>

text \<open>A key is the twelve digits of the timestamp split by a dash, then the random part.\<close>

lemma format_v7:
  assumes "length b = 16"
  shows "format_uuid (embed_v7 b ms) =
    low_digits 8 (nat (ms mod 2 ^ 48) div 65536) @ ''-'' @ low_digits 4 (nat (ms mod 2 ^ 48)) @ ''-'' @
    byte_hex ((b ! 6 AND 0x0f) OR 0x70) @ byte_hex (b ! 7) @ ''-'' @
    byte_hex ((b ! 8 AND 0x3f) OR 0x80) @ byte_hex (b ! 9) @ ''-'' @ hex_bytes (drop 10 b)"
proof -
  let ?n = "word_of_int ms AND unixMilli48Mask :: 64 word"
  have d: "drop 9 b = b ! 9 # drop 10 b" using Cons_nth_drop_Suc [of 9 b] assms by simp
  have "embed_v7 b ms = [ucast (drop_bit 40 ?n), ucast (drop_bit 32 ?n), ucast (drop_bit 24 ?n), ucast (drop_bit 16 ?n)] @
      [ucast (drop_bit 8 ?n), ucast ?n] @ [(b ! 6 AND 0x0f) OR 0x70, b ! 7, (b ! 8 AND 0x3f) OR 0x80, b ! 9] @ drop 10 b"
    using embed_v7_bytes [OF assms, of ms] d by (simp add: Let_def)
  then show ?thesis
    using assms timestamp_hex [of ?n] by (simp add: format_uuid_def slice_def timestamp_word)
qed

definition uuid_v7_shape :: "string \<Rightarrow> bool" where
  "uuid_v7_shape k \<longleftrightarrow>
     (\<exists>a b c d e. k = a @ ''-'' @ b @ ''-'' @ c @ ''-'' @ d @ ''-'' @ e \<and> map length [a, b, c, d, e] = [8, 4, 4, 4, 12] \<and>
        list_all is_hex (a @ b @ c @ d @ e) \<and> c ! 0 = CHR ''7'' \<and> d ! 0 \<in> set ''89ab'')"

lemma uuid_v7_shape_length: "uuid_v7_shape k \<Longrightarrow> length k = 36"
  by (auto simp: uuid_v7_shape_def)

lemma length_low_digits [simp]: "length (low_digits k n) = k"
  by (induction k) auto

lemma low_digits_hex: "list_all is_hex (low_digits k n)"
  by (induction k) (auto simp: hex_digit_is_hex)

text \<open>
  The default key is a UUIDv7: on every 16 random bytes and every clock reading it is the
  36-character canonical form with dashes in place, the version digit 7 and the RFC 4122
  variant.
\<close>

theorem default_key_is_uuid_v7:
  assumes "rand16 w = (Some b, w1)" and "length b = 16"
  shows "uuid_v7_shape (fst (defaultKey rand16 wall w))"
proof -
  obtain t w2 where t: "wall w1 = (t, w2)" by (metis surj_pair)
  let ?n = "nat (UnixMilli t mod 2 ^ 48)"
  let ?a = "low_digits 8 (?n div 65536)" and ?b = "low_digits 4 ?n"
  let ?c = "byte_hex ((b ! 6 AND 0x0f) OR 0x70) @ byte_hex (b ! 7)"
  let ?d = "byte_hex ((b ! 8 AND 0x3f) OR 0x80) @ byte_hex (b ! 9)" and ?e = "hex_bytes (drop 10 b)"
  have key: "fst (defaultKey rand16 wall w) = ?a @ ''-'' @ ?b @ ''-'' @ ?c @ ''-'' @ ?d @ ''-'' @ ?e"
    using format_v7 [OF assms(2)] assms(1) t by (simp add: defaultKey_def)
  have "?c ! 0 = CHR ''7''" by (simp add: byte_hex_def version_nibble hex_digit_values)
  moreover have "?d ! 0 \<in> set ''89ab''"
    using variant_nibble [of "b ! 8"] by (auto simp: byte_hex_def hex_digit_values)
  moreover have "list_all is_hex (?a @ ?b @ ?c @ ?d @ ?e)"
    by (simp add: low_digits_hex byte_hex_is_hex hex_bytes_is_hex)
  moreover have "map length [?a, ?b, ?c, ?d, ?e] = [8, 4, 4, 4, 12]" using assms(2) by (simp add: byte_hex_def)
  ultimately show ?thesis unfolding uuid_v7_shape_def key by (intro exI conjI) (rule refl, assumption+)
qed

text \<open>
  [C18] Lexicographic order is chronological order: of two default keys made at different
  milliseconds before the 48-bit timestamp runs out (year 10889), the earlier one is the smaller
  string, whatever the random bytes.
\<close>

theorem default_keys_sort_by_time:
  assumes "length b = 16" and "length b' = 16"
    and "0 \<le> UnixMilli t" and "UnixMilli t < UnixMilli t'" and "UnixMilli t' < 2 ^ 48"
  shows "format_uuid (embed_v7 b (UnixMilli t)) < format_uuid (embed_v7 b' (UnixMilli t'))"
proof -
  define n m where "n = nat (UnixMilli t)" and "m = nat (UnixMilli t')"
  have lt: "n < m" "m < 16 ^ 12" using assms(3-5) by (auto simp: n_def m_def)
  have nm: "nat (UnixMilli t mod 2 ^ 48) = n" "nat (UnixMilli t' mod 2 ^ 48) = m"
    using assms(3-5) by (simp_all add: n_def m_def)
  have hi: "m div 65536 < 16 ^ 8" using lt(2) by (simp add: less_mult_imp_div_less)
  show ?thesis
  proof (cases "n div 65536 = m div 65536")
    case False
    then have "n div 65536 < m div 65536" using div_le_mono [of n m 65536] lt(1) by simp
    then show ?thesis using low_digits_less [OF _ hi] unfolding format_v7 [OF assms(1)] format_v7 [OF assms(2)] nm by blast
  next
    case True
    then have "n mod 65536 < m mod 65536" using lt(1) by (metis add_less_cancel_left div_mult_mod_eq)
    then have "low_digits 4 (n mod 16 ^ 4) @ xs < low_digits 4 (m mod 16 ^ 4) @ ys" for xs ys
      by (intro low_digits_less) auto
    then show ?thesis unfolding format_v7 [OF assms(1)] format_v7 [OF assms(2)] nm True low_digits_mod
      by (simp add: append_same_less)
  qed
qed

lemma length_hex_nat: "0 < n \<Longrightarrow> 16 ^ k \<le> n \<Longrightarrow> n < 16 ^ Suc k \<Longrightarrow> length (hex_nat n) = Suc k"
proof (induction k arbitrary: n)
  case 0
  then show ?case by (subst hex_nat.simps) simp
next
  case (Suc k)
  have "16 ^ k \<le> n div 16" using Suc.prems(2) by (metis div_le_mono nonzero_mult_div_cancel_left power_Suc zero_neq_numeral)
  moreover have "n div 16 < 16 ^ Suc k" using Suc.prems(3) by (simp add: less_mult_imp_div_less)
  moreover have "16 \<le> n"
  proof -
    have "16 * 1 \<le> 16 * (16 :: nat) ^ k" by (intro mult_le_mono2) simp
    also have "\<dots> \<le> n" using Suc.prems(2) by simp
    finally show ?thesis by simp
  qed
  ultimately show ?case using Suc.IH [of "n div 16"] by (subst hex_nat.simps) simp
qed

text \<open>
  The key made when the random source fails is not a UUID: it ends in the hexadecimal
  nanosecond clock, whose 15 or 16 digits (every instant from 1975 on fills at least 15)
  overflow the twelve-digit group the format leaves for them.
\<close>

theorem fallback_key_not_uuid:
  assumes "rand16 w = (None, w1)" and "wall w1 = (t, w2)" and "16 ^ 14 \<le> t" and "t < 2 ^ 63"
  shows "\<not> uuid_v7_shape (fst (defaultKey rand16 wall w))"
proof -
  have "in_int64 t" using assms(3,4) by (simp add: int64_defs)
  then have key: "fst (defaultKey rand16 wall w) = ''00000000-0000-7000-8000-'' @ pad_zeros 12 (hex_nat (nat t))"
    using assms by (simp add: defaultKey_def format_012x_def)
  have "nat t < 16 ^ 15 \<or> 16 ^ 15 \<le> nat t" by linarith
  then have "14 < length (hex_nat (nat t))"
    using length_hex_nat [of "nat t" 14] length_hex_nat [of "nat t" 15] assms(3,4) by auto
  then have "36 < length (fst (defaultKey rand16 wall w))" unfolding key by (simp add: pad_zeros_def)
  then show ?thesis using uuid_v7_shape_length by fastforce
qed


section \<open>The interceptor's contract\<close>

definition lift_idem :: "'w idem_interceptor \<Rightarrow> ('g \<times> 'w) idem_interceptor" where
  "lift_idem i = \<lparr>iKeyFn = lift_io (iKeyFn i), iIsSafe = iIsSafe i, iHeaderName = iHeaderName i\<rparr>"

lemma idem_call_bound:
  assumes "keeps cost (iKeyFn i)"
  shows "call_bound cost (idem_WrapUnary i) 1"
proof
  fix "next" :: "('a, 'b) unary" and m
  assume nx: "adds_calls cost next m"
  show "adds_calls cost (idem_WrapUnary i next) (1 * m)"
  proof (rule adds_callsI)
    fix ctx sp h w r h' w'
    assume "idem_WrapUnary i next ctx sp (h, w) = (r, h', w')"
    then obtain h1 w1 where "next ctx sp (h1, w1) = (r, h', w')" "cost w1 = cost w"
      using keepsD [OF assms] by (auto simp: idem_WrapUnary_def split: if_splits prod.splits)
    then show "cost w' \<le> cost w + 1 * m" using adds_callsD [OF nx] by (metis mult_1)
  qed
qed

interpretation idem_calls: call_bound fst "idem_WrapUnary (lift_idem i)" 1 for i
  by (rule idem_call_bound) (simp add: lift_idem_def)

text \<open>
  What the interceptor sends on: exactly one call to the next function, with the caller's
  context, whose result is returned. A read-only procedure's headers are untouched; any other
  call carries the caller's own key when there is one and a fresh one otherwise, and no other
  header changes.
\<close>

theorem idempotency_key_attached:
  assumes "idem_WrapUnary (lift_idem i) (logged next) ctx sp (h, [], w) = (r, h', tr, w')"
  shows "\<exists>a. tr = [a] \<and> attResult a = r \<and> attCtx a = ctx \<and>
    (if iIsSafe i (Procedure sp) then attHeader a = h
     else hdr_get (attHeader a) (iHeaderName i) =
         (if hdr_get h (iHeaderName i) = [] then fst (iKeyFn i w) else hdr_get h (iHeaderName i)) \<and>
       (\<forall>k. CanonicalHeaderKey k \<noteq> CanonicalHeaderKey (iHeaderName i) \<longrightarrow> hdr_get (attHeader a) k = hdr_get h k))"
  using assms
  by (auto simp: idem_WrapUnary_def lift_idem_def lift_io_def logged_def split: if_splits prod.splits)

section \<open>Concrete keys\<close>

definition demo_rand :: "(unit, 8 word list option) io" where
  "demo_rand w = (Some (replicate 16 0xff), w)"

theorem default_key_is_uuid_v7_witness:
  "uuid_v7_shape (fst (defaultKey demo_rand (\<lambda>w. (1700000000000000000, w)) ()))"
  by (rule default_key_is_uuid_v7 [where b = "replicate 16 0xff"]) (simp_all add: demo_rand_def)

theorem default_keys_sort_by_time_witness:
  "format_uuid (embed_v7 (replicate 16 0xff) (UnixMilli 1700000000000000000)) <
   format_uuid (embed_v7 (replicate 16 0) (UnixMilli 1700000000001000000))"
  by (rule default_keys_sort_by_time) (simp_all add: UnixMilli_def)

theorem fallback_key_not_uuid_witness:
  "\<not> uuid_v7_shape (fst (defaultKey (\<lambda>w. (None, w)) (\<lambda>w. (1700000000000000000, w)) ()))"
  by (rule fallback_key_not_uuid) auto

definition demo_idem :: "nat idem_interceptor" where
  "demo_idem = \<lparr>iKeyFn = (\<lambda>w. (''k1'', w + 1)), iIsSafe = defaultIsSafe, iHeaderName = ''Idempotency-Key''\<rparr>"

theorem idempotency_key_attached_witness:
  "\<exists>a. fst (snd (snd (idem_WrapUnary (lift_idem demo_idem) (logged (\<lambda>ctx sp st. ((None :: nat response option, None), st)))
     \<lparr>ctxDeadline = None, ctxValues = []\<rparr> \<lparr>Procedure = ''/s.S/Create'', IdempotencyLevel = IdempotencyUnknown\<rparr> ([], [], 0)))) = [a] \<and>
     hdr_get (attHeader a) ''Idempotency-Key'' = ''k1''"
proof -
  obtain r h' tr w' where run: "idem_WrapUnary (lift_idem demo_idem)
      (logged (\<lambda>ctx sp st. ((None :: nat response option, None), st))) \<lparr>ctxDeadline = None, ctxValues = []\<rparr>
      \<lparr>Procedure = ''/s.S/Create'', IdempotencyLevel = IdempotencyUnknown\<rparr> ([], [], 0) = (r, h', tr, w')"
    by (metis surj_pair)
  have "\<not> iIsSafe demo_idem ''/s.S/Create''" by code_simp
  with idempotency_key_attached [OF run] run show ?thesis by (auto simp: demo_idem_def hdr_get_def)
qed

end
