(* ===== verification/Auth.thy ===== *)
theory Auth
  imports Rpc
begin

text \<open>
  The credential interceptors of \<^verbatim>\<open>src/auth/auth.go\<close> and \<^verbatim>\<open>src/auth/rotation.go\<close>. A token
  source is an effect on the world; golang.org/x/oauth2 (the client-credentials fetch and
  \<^verbatim>\<open>Token.Valid\<close>) is a parameter. The locale \<open>rotating_source\<close> is what
  \<^verbatim>\<open>RotatingTokenSource\<close> promises, interpreted on the caching source.
\<close>

section \<open>Token sources\<close>

type_synonym 'w token_source = "ctx \<Rightarrow> ('w, err + string) io"

type_synonym 'w TokenSourceFunc = "ctx \<Rightarrow> ('w, err + string) io"

definition TokenSourceFunc_Token :: "'w TokenSourceFunc \<Rightarrow> 'w token_source" where
  "TokenSourceFunc_Token f ctx = f ctx"

definition StaticBearer :: "string \<Rightarrow> 'w token_source" where
  "StaticBearer token ctx w =
     (if token = [] then (Inl (EText ''auth: static bearer token is empty''), w) else (Inr token, w))"

record oauth2_token =
  AccessToken :: string
  Expiry :: int

record cc_config =
  ccTokenURL :: string
  ccClientID :: string
  ccClientSecret :: string
  ccScopes :: "string list"

record caching_source =
  cachedTok :: "oauth2_token option"

definition ClientCredentials :: "cc_config \<Rightarrow> err + caching_source" where
  "ClientCredentials cfg =
     (if ccTokenURL cfg = [] then Inl (EText ''auth: TokenURL is required'')
      else if ccClientID cfg = [] \<or> ccClientSecret cfg = []
      then Inl (EText ''auth: ClientID and ClientSecret are required'')
      else Inr \<lparr>cachedTok = None\<rparr>)"

definition caching_refetch ::
  "(ctx \<Rightarrow> ('w, err + oauth2_token) io) \<Rightarrow> ctx \<Rightarrow> (caching_source \<times> 'w, err + string) io" where
  "caching_refetch fetch ctx = (\<lambda>(s, w).
     case fetch ctx w of
       (Inl e, w') \<Rightarrow> (Inl (EWrap ''auth: oauth2 token'' e), s, w')
     | (Inr tok, w') \<Rightarrow> (Inr (AccessToken tok), s\<lparr>cachedTok := Some tok\<rparr>, w'))"

definition caching_Token ::
  "(ctx \<Rightarrow> ('w, err + oauth2_token) io) \<Rightarrow> (oauth2_token \<Rightarrow> ('w, bool) io) \<Rightarrow> (caching_source \<times> 'w) token_source" where
  "caching_Token fetch valid ctx = (\<lambda>(s, w).
     case cachedTok s of
       Some tok \<Rightarrow>
         (case valid tok w of
            (ok, w1) \<Rightarrow> if ok then (Inr (AccessToken tok), s, w1) else caching_refetch fetch ctx (s, w1))
     | None \<Rightarrow> caching_refetch fetch ctx (s, w))"

definition caching_Invalidate :: "caching_source \<times> 'w \<Rightarrow> caching_source \<times> 'w" where
  "caching_Invalidate = (\<lambda>(s, w). (s\<lparr>cachedTok := None\<rparr>, w))"

text \<open>\<^verbatim>\<open>WaitToken\<close>; a positive timeout bounds the context's deadline, read from the clock.\<close>

definition WaitToken :: "'w clock \<Rightarrow> 'w token_source \<Rightarrow> ctx \<Rightarrow> int \<Rightarrow> ('w, err + string) io" where
  "WaitToken clk src ctx timeout w =
     (let run = (\<lambda>c w. case src c w of (Inl e, w') \<Rightarrow> (Inl (EWrap ''auth: token'' e), w') | (Inr t, w') \<Rightarrow> (Inr t, w')) in
      if 0 < timeout then
        (case clk w of
           (now, w1) \<Rightarrow>
             let d = time_add now timeout in
             run (ctx\<lparr>ctxDeadline := Some (case ctxDeadline ctx of None \<Rightarrow> d | Some c \<Rightarrow> min c d)\<rparr>) w1)
      else run ctx w)"

section \<open>The interceptor\<close>

record 'w auth_options =
  aSource :: "'w token_source option"
  aFormatHeader :: "(string \<Rightarrow> string) option"
  aSkip :: "(string \<Rightarrow> bool) option"
  aHeaderName :: string

record 'w auth_interceptor =
  authSource :: "'w token_source"
  authFormat :: "string \<Rightarrow> string"
  authSkip :: "(string \<Rightarrow> bool) option"
  authHeader :: string

definition auth_Interceptor :: "'w auth_options \<Rightarrow> err + 'w auth_interceptor" where
  "auth_Interceptor opts =
     (case aSource opts of
        None \<Rightarrow> Inl (EText ''auth: Source is required'')
      | Some src \<Rightarrow>
          Inr \<lparr>authSource = src,
            authFormat = (case aFormatHeader opts of None \<Rightarrow> (\<lambda>token. ''Bearer '' @ token) | Some f \<Rightarrow> f),
            authSkip = aSkip opts,
            authHeader = (if aHeaderName opts = [] then ''Authorization'' else aHeaderName opts)\<rparr>)"

definition attach :: "'w auth_interceptor \<Rightarrow> ctx \<Rightarrow> string \<Rightarrow> (header \<times> 'w, err option) io" where
  "attach a ctx procedure = (\<lambda>(h, w).
     if (case authSkip a of None \<Rightarrow> False | Some f \<Rightarrow> f procedure) then (None, h, w)
     else
       (case authSource a ctx w of
          (Inl e, w') \<Rightarrow> (Some (EConnect CodeUnauthenticated (EWrap ''auth: token'' e) []), h, w')
        | (Inr tok, w') \<Rightarrow> (None, hdr_set h (authHeader a) (authFormat a tok), w')))"

definition auth_WrapUnary :: "'w auth_interceptor \<Rightarrow> ('w, 'm) unary \<Rightarrow> ('w, 'm) unary" where
  "auth_WrapUnary a next ctx sp st =
     (case attach a ctx (Procedure sp) st of
        (Some e, st') \<Rightarrow> ((None, Some e), st')
      | (None, st') \<Rightarrow> next ctx sp st')"

definition failedStreamingConn :: "err \<Rightarrow> ('w, 'p) stream_conn \<Rightarrow> ('w, 'p) stream_conn" where
  "failedStreamingConn e conn =
     conn\<lparr>scSend := (\<lambda>_ w. (Some e, w)), scReceive := (\<lambda>_ w. (Some e, w)),
          scCloseRequest := (\<lambda>w. case scCloseRequest conn w of (_, w') \<Rightarrow> (Some e, w')),
          scCloseResponse := (\<lambda>w. case scCloseResponse conn w of (_, w') \<Rightarrow> (Some e, w'))\<rparr>"

definition auth_WrapStreamingClient ::
  "'w auth_interceptor \<Rightarrow> (ctx \<Rightarrow> spec \<Rightarrow> ('w, ('w, 'p) stream_conn) io) \<Rightarrow> ctx \<Rightarrow> spec \<Rightarrow> ('w, ('w, 'p) stream_conn) io" where
  "auth_WrapStreamingClient a next ctx sp w =
     (case next ctx sp w of
        (conn, w1) \<Rightarrow>
          (case attach a ctx (Procedure sp) (scHeader conn, w1) of
             (Some e, h, w2) \<Rightarrow> (failedStreamingConn e (conn\<lparr>scHeader := h\<rparr>), w2)
           | (None, h, w2) \<Rightarrow> (conn\<lparr>scHeader := h\<rparr>, w2)))"

section \<open>Rotation\<close>

record 'w rotation_options =
  rotInvalidate :: "('w \<Rightarrow> 'w) option"
  rotAllowNonIdempotent :: bool

definition RotationInterceptor :: "'w rotation_options \<Rightarrow> err + (('w \<Rightarrow> 'w) \<times> bool)" where
  "RotationInterceptor opts =
     (case rotInvalidate opts of
        None \<Rightarrow> Inl (EText ''auth: rotation Source is required'')
      | Some f \<Rightarrow> Inr (f, rotAllowNonIdempotent opts))"

definition rotation_WrapUnary :: "('w \<Rightarrow> 'w) \<Rightarrow> bool \<Rightarrow> ('w, 'm) unary \<Rightarrow> ('w, 'm) unary" where
  "rotation_WrapUnary invalidate allowNI next ctx sp st =
     (if \<not> allowNI \<and> IdempotencyLevel sp = IdempotencyUnknown then next ctx sp st
      else
        (case next ctx sp st of
           (res, h1, w1) \<Rightarrow>
             if snd res = None \<or> Code (snd res) \<noteq> CodeUnauthenticated then (res, h1, w1)
             else next ctx sp (h1, invalidate w1)))"

section \<open>The contract of a rotating source\<close>

text \<open>
  \<open>fresh_source\<close> is the weaker half: in the worlds \<open>ok\<close> describes, a token obtained after an
  invalidation was fetched after it (or there is none); \<open>rotating_source\<close> says that asking always
  fetches.
\<close>

locale fresh_source =
  fixes ok :: "'w \<Rightarrow> bool" and token :: "'w token_source" and invalidate :: "'w \<Rightarrow> 'w" and fetches :: "'w \<Rightarrow> nat"
  assumes token_keeps_ok: "ok w \<Longrightarrow> token ctx w = (r, w') \<Longrightarrow> ok w' \<and> fetches w \<le> fetches w'"
    and invalidate_keeps: "ok w \<Longrightarrow> ok (invalidate w) \<and> fetches (invalidate w) = fetches w"
    and success_fresh: "ok w \<Longrightarrow> token ctx (invalidate w) = (Inr t, w') \<Longrightarrow> fetches w < fetches w'"
begin

lemma rotation_no_stale_token:
  assumes a: "authSource a = token" "authSkip a = None" and ok: "ok w1"
    and gate: "allowNI \<or> IdempotencyLevel sp \<noteq> IdempotencyUnknown"
    and first: "auth_WrapUnary a next ctx sp (h, w) = ((resp, Some e), h1, w1)" "Code (Some e) = CodeUnauthenticated"
    and run: "rotation_WrapUnary invalidate allowNI (auth_WrapUnary a next) ctx sp (h, w) = (r, h', w')"
  shows "(\<exists>e'. r = (None, Some (EConnect CodeUnauthenticated (EWrap ''auth: token'' e') [])) \<and> h' = h1) \<or>
    (\<exists>tok w2. next ctx sp (hdr_set h1 (authHeader a) (authFormat a tok), w2) = (r, h', w') \<and> fetches w1 < fetches w2)"
proof -
  have second: "auth_WrapUnary a next ctx sp (h1, invalidate w1) = (r, h', w')"
    using run first gate by (auto simp: rotation_WrapUnary_def)
  obtain t w2 where t: "token ctx (invalidate w1) = (t, w2)" by (metis surj_pair)
  show ?thesis
  proof (cases t)
    case (Inl x)
    then show ?thesis using second t a by (auto simp: auth_WrapUnary_def attach_def)
  next
    case (Inr tok)
    then have "next ctx sp (hdr_set h1 (authHeader a) (authFormat a tok), w2) = (r, h', w')"
      using second t a by (simp add: auth_WrapUnary_def attach_def)
    then show ?thesis using success_fresh [OF ok] t Inr by blast
  qed
qed

end

locale rotating_source =
  fixes token :: "'w token_source" and invalidate :: "'w \<Rightarrow> 'w" and fetches :: "'w \<Rightarrow> nat"
  assumes invalidate_same: "fetches (invalidate w) = fetches w"
    and token_mono: "token ctx w = (r, w') \<Longrightarrow> fetches w \<le> fetches w'"
    and token_fresh: "token ctx (invalidate w) = (r, w') \<Longrightarrow> fetches w < fetches w'"
begin

text \<open>A retry after a rejection carries a token fetched after it, when the calls beneath do not
  undo fetches.\<close>

lemma rotation_fetches:
  assumes a: "authSource a = token" "authSkip a = None"
    and nx: "\<And>c s h w r h' w'. next c s (h, w) = (r, h', w') \<Longrightarrow> fetches w \<le> fetches w'"
    and gate: "allowNI \<or> IdempotencyLevel sp \<noteq> IdempotencyUnknown"
    and first: "auth_WrapUnary a next ctx sp (h, w) = ((resp, Some e), h1, w1)" "Code (Some e) = CodeUnauthenticated"
    and run: "rotation_WrapUnary invalidate allowNI (auth_WrapUnary a next) ctx sp (h, w) = (r, h', w')"
  shows "fetches w1 < fetches w'"
proof -
  have second: "auth_WrapUnary a next ctx sp (h1, invalidate w1) = (r, h', w')"
    using run first gate by (auto simp: rotation_WrapUnary_def)
  obtain t w2 where t: "token ctx (invalidate w1) = (t, w2)" by (metis surj_pair)
  have "fetches w1 < fetches w2" using token_fresh [OF t] .
  moreover have "fetches w2 \<le> fetches w'"
  proof (cases t)
    case (Inl e)
    then show ?thesis using second t a by (simp add: auth_WrapUnary_def attach_def)
  next
    case (Inr tok)
    then have "next ctx sp (hdr_set h1 (authHeader a) (authFormat a tok), w2) = (r, h', w')"
      using second t a by (simp add: auth_WrapUnary_def attach_def)
    then show ?thesis by (rule nx)
  qed
  ultimately show ?thesis by simp
qed

end

sublocale rotating_source \<subseteq> fresh: fresh_source "\<lambda>_. True" token invalidate fetches
  by unfold_locales (auto dest: token_mono token_fresh simp: invalidate_same)

text \<open>The instrumented identity provider counts its fetches.\<close>

definition count_fetch :: "(ctx \<Rightarrow> ('w, err + oauth2_token) io) \<Rightarrow> ctx \<Rightarrow> (nat \<times> 'w, err + oauth2_token) io" where
  "count_fetch fetch ctx = (\<lambda>(n, w). case fetch ctx w of (r, w') \<Rightarrow> (r, Suc n, w'))"

definition fetch_count :: "caching_source \<times> nat \<times> 'w \<Rightarrow> nat" where
  "fetch_count w = fst (snd w)"

interpretation oauth2: rotating_source "caching_Token (count_fetch fetch) (\<lambda>t. lift_io (valid t))" caching_Invalidate fetch_count
  for fetch valid
  by unfold_locales
    (auto simp: caching_Token_def caching_refetch_def count_fetch_def caching_Invalidate_def fetch_count_def lift_io_def
      split: option.splits prod.splits sum.splits if_splits)

section \<open>Properties\<close>

definition lift_auth :: "'w auth_interceptor \<Rightarrow> ('g \<times> 'w) auth_interceptor" where
  "lift_auth a = \<lparr>authSource = (\<lambda>c. lift_io (authSource a c)), authFormat = authFormat a, authSkip = authSkip a,
     authHeader = authHeader a\<rparr>"

definition lift_inv :: "('w \<Rightarrow> 'w) \<Rightarrow> 'g \<times> 'w \<Rightarrow> 'g \<times> 'w" where
  "lift_inv f = (\<lambda>(g, w). (g, f w))"

lemma attach_keeps:
  assumes "\<And>c. keeps obs (authSource a c)" and "attach a ctx p (h, w) = (e, h', w')"
  shows "obs w' = obs w"
  using assms(2) keepsD [OF assms(1)] by (auto simp: attach_def split: if_splits prod.splits sum.splits)

lemma auth_call_bound:
  assumes "\<And>c. keeps cost (authSource a c)"
  shows "call_bound cost (auth_WrapUnary a) 1"
proof
  fix "next" :: "('a, 'b) unary" and m
  assume nx: "adds_calls cost next m"
  show "adds_calls cost (auth_WrapUnary a next) (1 * m)"
  proof (rule adds_callsI)
    fix ctx sp h w r h' w'
    assume run: "auth_WrapUnary a next ctx sp (h, w) = (r, h', w')"
    obtain e h1 w1 where at: "attach a ctx (Procedure sp) (h, w) = (e, h1, w1)" by (metis surj_pair)
    have "cost w1 = cost w" using attach_keeps [OF assms at] .
    moreover have "e \<noteq> None \<and> w' = w1 \<or> next ctx sp (h1, w1) = (r, h', w')"
      using run at by (cases e) (simp_all add: auth_WrapUnary_def)
    ultimately show "cost w' \<le> cost w + 1 * m" using adds_callsD [OF nx] by (metis le_add1 mult_1)
  qed
qed

interpretation auth_calls: call_bound fst "auth_WrapUnary (lift_auth a)" 1 for a
  by (rule auth_call_bound) (simp add: lift_auth_def)

interpretation rotation_calls: call_bound fst "rotation_WrapUnary (lift_inv f) allowNI" 2 for f allowNI
proof unfold_locales
  fix "next" :: "(nat \<times> 'a, 'b) unary" and m
  assume nx: "adds_calls fst next m"
  show "adds_calls fst (rotation_WrapUnary (lift_inv f) allowNI next) (2 * m)"
  proof (rule adds_callsI)
    fix ctx sp h w r h' w'
    assume run: "rotation_WrapUnary (lift_inv f) allowNI next ctx sp (h, w) = (r, h', w')"
    obtain r1 h1 w1 where n: "next ctx sp (h, w) = (r1, h1, w1)" by (metis surj_pair)
    have one: "fst w1 \<le> fst w + m" using adds_callsD [OF nx n] .
    have "w' = w1 \<or> next ctx sp (h1, lift_inv f w1) = (r, h', w')"
      using run n by (auto simp: rotation_WrapUnary_def split: if_splits)
    moreover have "fst (lift_inv f w1) = fst w1" by (simp add: lift_inv_def case_prod_unfold)
    ultimately show "fst w' \<le> fst w + 2 * m" using one adds_callsD [OF nx] by (metis (no_types, lifting)
      add_le_mono le_add1 le_trans mult_2 add.assoc order_refl)
  qed
qed

text \<open>
  What the auth interceptor does to a call: without a token nothing is sent and the caller
  gets Unauthenticated with the source's error still visible to \<^verbatim>\<open>errors.Is\<close>; otherwise the
  next function is called exactly once with the credential in the configured header and every
  other header as it was, and its result is returned.
\<close>

theorem auth_attaches_credential:
  assumes "auth_Interceptor opts = Inr a" and "aSkip opts = None"
    and "auth_WrapUnary (lift_auth a) (logged next) ctx sp (h, [], w) = (r, h', tr, w')"
  shows "case fst (authSource a ctx w) of
      Inl e \<Rightarrow> tr = [] \<and> fst r = None \<and> Code (snd r) = CodeUnauthenticated \<and>
        (\<exists>e'. snd r = Some e' \<and> errors_is e' = errors_is e)
    | Inr tok \<Rightarrow> (\<exists>x. tr = [x] \<and> attResult x = r \<and> attCtx x = ctx \<and>
        hdr_get (attHeader x) (authHeader a) = authFormat a tok \<and>
        (\<forall>k. CanonicalHeaderKey k \<noteq> CanonicalHeaderKey (authHeader a) \<longrightarrow> hdr_get (attHeader x) k = hdr_get h k))"
proof -
  have skip: "authSkip a = None" using assms(1,2) by (auto simp: auth_Interceptor_def split: option.splits)
  obtain t w1 where t: "authSource a ctx w = (t, w1)" by (metis surj_pair)
  show ?thesis
  proof (cases t)
    case (Inl e)
    have "r = (None, Some (EConnect CodeUnauthenticated (EWrap ''auth: token'' e) []))" "tr = []"
      using assms(3) t Inl skip by (auto simp: auth_WrapUnary_def attach_def lift_auth_def lift_io_def)
    moreover have "errors_is (EConnect CodeUnauthenticated (EWrap ''auth: token'' e) []) = errors_is e" by (rule ext) simp
    ultimately show ?thesis using t Inl by (simp add: Code_def AsConnect_def)
  next
    case (Inr tok)
    then show ?thesis using assms(3) t skip
      by (auto simp: auth_WrapUnary_def attach_def lift_auth_def lift_io_def logged_def split: prod.splits)
  qed
qed

text \<open>
  Rotation retries at most once: one or two attempts, the second exactly when the first
  failed with Unauthenticated and the method may be repeated, and the caller gets the last
  attempt's result unchanged, also when the second is rejected too.
\<close>

theorem rotation_at_most_one_retry:
  assumes "rotation_WrapUnary (lift_inv f) allowNI (logged next) ctx sp (h, [], w) = (r, h', tr, w')"
  shows "\<exists>a. (tr = [a] \<and> attResult a = r \<and>
        (snd r \<noteq> None \<and> Code (snd r) = CodeUnauthenticated \<longrightarrow> \<not> allowNI \<and> IdempotencyLevel sp = IdempotencyUnknown)) \<or>
      (\<exists>b. tr = [a, b] \<and> attResult b = r \<and> snd (attResult a) \<noteq> None \<and>
        Code (snd (attResult a)) = CodeUnauthenticated \<and> (allowNI \<or> IdempotencyLevel sp \<noteq> IdempotencyUnknown))"
proof -
  obtain r1 h1 w1 where n: "next ctx sp (h, w) = (r1, h1, w1)" by (metis surj_pair)
  obtain r2 h2 w2 where n2: "next ctx sp (h1, f w1) = (r2, h2, w2)" by (metis surj_pair)
  show ?thesis
  proof (cases "(allowNI \<or> IdempotencyLevel sp \<noteq> IdempotencyUnknown) \<and> snd r1 \<noteq> None \<and> Code (snd r1) = CodeUnauthenticated")
    case True
    then have "tr = [\<lparr>attCtx = ctx, attHeader = h, attResult = r1\<rparr>, \<lparr>attCtx = ctx, attHeader = h1, attResult = r2\<rparr>] \<and> r = r2"
      using assms n n2 by (auto simp: rotation_WrapUnary_def logged_def lift_inv_def)
    then show ?thesis using True by auto
  next
    case False
    then have "tr = [\<lparr>attCtx = ctx, attHeader = h, attResult = r1\<rparr>] \<and> r = r1"
      using assms n by (auto simp: rotation_WrapUnary_def logged_def split: if_splits)
    then show ?thesis using False by auto
  qed
qed


text \<open>
  A failing token source looks like a rejected token: the auth interceptor reports it as
  Unauthenticated, so the rotation interceptor around it invalidates the cache and asks the
  source again at once, although the server was never called.
\<close>

theorem rotation_repeats_failed_fetch:
  assumes "authSource a ctx w = (Inl e, w1)" and "authSource a ctx (invalidate w1) = (t, w2)"
    and "authSkip a = None" and "allowNI \<or> IdempotencyLevel sp \<noteq> IdempotencyUnknown"
  shows "rotation_WrapUnary invalidate allowNI (auth_WrapUnary a next) ctx sp (h, w) =
    (case t of
       Inl e2 \<Rightarrow> ((None, Some (EConnect CodeUnauthenticated (EWrap ''auth: token'' e2) [])), h, w2)
     | Inr tok \<Rightarrow> next ctx sp (hdr_set h (authHeader a) (authFormat a tok), w2))"
  using assms by (auto simp: rotation_WrapUnary_def auth_WrapUnary_def attach_def Code_def AsConnect_def split: sum.splits)

section \<open>Concrete calls\<close>

definition demo_auth :: "nat auth_interceptor" where
  "demo_auth = \<lparr>authSource = StaticBearer ''s3cret'', authFormat = (\<lambda>t. ''Bearer '' @ t), authSkip = None, authHeader = ''Authorization''\<rparr>"

definition ok_next :: "('w, nat) unary" where
  "ok_next ctx sp st = ((Some \<lparr>rspHeader = [], rspMsg = 7\<rparr>, None), st)"

definition rejecting :: "('w, nat) unary" where
  "rejecting ctx sp st = ((None, Some (EConnect CodeUnauthenticated (EText ''expired'') [])), st)"

abbreviation auth_spec :: spec where
  "auth_spec \<equiv> \<lparr>Procedure = ''/s.S/Get'', IdempotencyLevel = IdempotencyNoSideEffects\<rparr>"

abbreviation auth_ctx :: ctx where
  "auth_ctx \<equiv> \<lparr>ctxDeadline = None, ctxValues = []\<rparr>"

theorem auth_attaches_credential_witness:
  "\<exists>x. fst (snd (snd (auth_WrapUnary (lift_auth demo_auth) (logged ok_next) auth_ctx auth_spec ([], [], 0)))) = [x] \<and>
     hdr_get (attHeader x) ''Authorization'' = ''Bearer s3cret''"
proof -
  have i: "auth_Interceptor \<lparr>aSource = Some (StaticBearer ''s3cret''), aFormatHeader = None, aSkip = None, aHeaderName = []\<rparr> = Inr demo_auth"
    by (simp add: auth_Interceptor_def demo_auth_def fun_eq_iff)
  obtain r h' tr w' where run: "auth_WrapUnary (lift_auth demo_auth) (logged ok_next) auth_ctx auth_spec ([], [], 0) = (r, h', tr, w')"
    by (metis surj_pair)
  from auth_attaches_credential [OF i _ run] run show ?thesis by (auto simp: demo_auth_def StaticBearer_def)
qed

theorem rotation_at_most_one_retry_witness:
  "length (fst (snd (snd (rotation_WrapUnary (lift_inv id) False (logged rejecting) auth_ctx auth_spec ([], [], ()))))) = 2"
proof -
  obtain r h' tr w' where run: "rotation_WrapUnary (lift_inv id) False (logged rejecting) auth_ctx auth_spec ([], [], ()) = (r, h', tr, w')"
    by (metis surj_pair)
  then have "r = (None, Some (EConnect CodeUnauthenticated (EText ''expired'') []))"
    by (auto simp: rotation_WrapUnary_def logged_def rejecting_def lift_inv_def Code_def AsConnect_def)
  with rotation_at_most_one_retry [OF run] run show ?thesis by (auto simp: Code_def AsConnect_def)
qed




theorem rotation_repeats_failed_fetch_witness:
  "snd (snd (rotation_WrapUnary id False (auth_WrapUnary (demo_auth\<lparr>authSource := \<lambda>c w. (Inl (EText ''idp down''), Suc w)\<rparr>) ok_next)
     auth_ctx auth_spec ([], 0))) = 2"
proof -
  let ?a = "demo_auth\<lparr>authSource := \<lambda>c w. (Inl (EText ''idp down''), Suc w)\<rparr>"
  have "rotation_WrapUnary id False (auth_WrapUnary ?a ok_next) auth_ctx auth_spec ([], 0) =
      (case Inl (EText ''idp down'') of
         Inl e2 \<Rightarrow> ((None, Some (EConnect CodeUnauthenticated (EWrap ''auth: token'' e2) [])), [], 2)
       | Inr tok \<Rightarrow> ok_next auth_ctx auth_spec (hdr_set [] (authHeader ?a) (authFormat ?a tok), 2))"
    by (rule rotation_repeats_failed_fetch) (auto simp: demo_auth_def)
  then show ?thesis by simp
qed

end
