(* ===== verification/Otel.thy ===== *)
theory Otel
  imports Rpc
begin

text \<open>
  The tracing interceptor of \<^verbatim>\<open>src/otel/otel.go\<close>. OpenTelemetry (the tracer, the span
  methods, the propagator), google/uuid, \<^verbatim>\<open>Error()\<close> of an error and Connect's
  \<^verbatim>\<open>Code.String\<close> are parameters, the record \<open>otel_api\<close>; the instrumented API \<open>recording\<close>
  also keeps the sequence of span calls, which is what the properties speak about.
\<close>

section \<open>Options\<close>

datatype span_kind = SpanKindClient | SpanKindServer

datatype span_status = StatusOk | StatusError

datatype span_call =
    RecordError err
  | SetStatus span_status string
  | SetAttribute string string
  | End

record propagator =
  Inject :: "ctx \<Rightarrow> header \<Rightarrow> header"
  Extract :: "ctx \<Rightarrow> header \<Rightarrow> ctx"

record ('w, 's) otel_api =
  tracerStart :: "string \<Rightarrow> ctx \<Rightarrow> string \<Rightarrow> span_kind \<Rightarrow> (string \<times> string) list \<Rightarrow> ('w, ctx \<times> 's) io"
  spanCall :: "'s \<Rightarrow> span_call \<Rightarrow> 'w \<Rightarrow> 'w"
  globalPropagator :: propagator
  uuidNewV7 :: "('w, err + string) io"
  uuidNewString :: "('w, string) io"
  errorText :: "err \<Rightarrow> string"
  codeText :: "code \<Rightarrow> string"

record 'w otel_options =
  Propagator :: "propagator option"
  GenerateRequestID :: "('w, string) io option"
  TracerName :: string
  RequestIDHeader :: string

record 'w otel_interceptor =
  oPropagator :: propagator
  oGenerateRequestID :: "('w, string) io"
  oTracerName :: string
  oRequestIDHeader :: string

definition defaultRequestID :: "('w, 's) otel_api \<Rightarrow> ('w, string) io" where
  "defaultRequestID api w =
     (case uuidNewV7 api w of (Inl e, w') \<Rightarrow> uuidNewString api w' | (Inr i, w') \<Rightarrow> (i, w'))"

definition otel_Interceptor :: "('w, 's) otel_api \<Rightarrow> 'w otel_options \<Rightarrow> 'w otel_interceptor" where
  "otel_Interceptor api opts =
     \<lparr>oPropagator = (case Propagator opts of None \<Rightarrow> globalPropagator api | Some p \<Rightarrow> p),
      oGenerateRequestID = (case GenerateRequestID opts of None \<Rightarrow> defaultRequestID api | Some f \<Rightarrow> f),
      oTracerName = (if TracerName opts = [] then ''github.com/Pinguteca/sdk-core-go/otel'' else TracerName opts),
      oRequestIDHeader = (if RequestIDHeader opts = [] then ''X-Request-ID'' else RequestIDHeader opts)\<rparr>"

definition zero_otel_options :: "'w otel_options" where
  "zero_otel_options = \<lparr>Propagator = None, GenerateRequestID = None, TracerName = [], RequestIDHeader = []\<rparr>"

section \<open>Operations\<close>

definition splitProcedure :: "string \<Rightarrow> string \<times> string" where
  "splitProcedure p0 =
     (let p = TrimPrefix p0 ''/''; i = LastIndex p CHR ''/''
      in if 0 \<le> i then (take (nat i) p, drop (nat (i + 1)) p) else (p, []))"

definition otel_start ::
  "('w, 's) otel_api \<Rightarrow> 'w otel_interceptor \<Rightarrow> ctx \<Rightarrow> spec \<Rightarrow> span_kind \<Rightarrow> (header \<times> 'w, ctx \<times> 's \<times> string) io" where
  "otel_start api i ctx0 sp kind = (\<lambda>(hdr, w).
     let ctx = (if kind = SpanKindServer then Extract (oPropagator i) ctx0 hdr else ctx0);
         (service, method) = splitProcedure (Procedure sp)
     in case tracerStart api (oTracerName i) ctx (Procedure sp) kind
          [(''rpc.system'', ''connect_rpc''), (''rpc.service'', service), (''rpc.method'', method)] w of
          ((ctx', spn), w1) \<Rightarrow>
            (case (if hdr_get hdr (oRequestIDHeader i) = [] then
                     (case oGenerateRequestID i w1 of (rid, w2) \<Rightarrow> (rid, hdr_set hdr (oRequestIDHeader i) rid, w2))
                   else (hdr_get hdr (oRequestIDHeader i), hdr, w1)) of
               (requestID, hdr1, w2) \<Rightarrow>
                 let w3 = spanCall api spn (SetAttribute ''request.id'' requestID) w2;
                     hdr2 = (if kind = SpanKindClient then Inject (oPropagator i) ctx' hdr1 else hdr1)
                 in ((ctx', spn, requestID), hdr2, w3)))"

definition otel_finish :: "('w, 's) otel_api \<Rightarrow> 's \<Rightarrow> err option \<Rightarrow> 'w \<Rightarrow> 'w" where
  "otel_finish api spn err w =
     (case err of
        Some e \<Rightarrow>
          spanCall api spn (SetAttribute ''rpc.connect.code'' (codeText api (Code (Some e))))
            (spanCall api spn (SetStatus StatusError (errorText api e)) (spanCall api spn (RecordError e) w))
      | None \<Rightarrow> spanCall api spn (SetStatus StatusOk []) w)"

definition otel_WrapUnary :: "('w, 's) otel_api \<Rightarrow> 'w otel_interceptor \<Rightarrow> ('w, 'm) unary \<Rightarrow> ('w, 'm) unary" where
  "otel_WrapUnary api i next ctx sp st =
     (case otel_start api i ctx sp SpanKindClient st of
        ((ctx', spn, requestID), st1) \<Rightarrow>
          (case next ctx' sp st1 of
             ((resp, err), h2, w2) \<Rightarrow>
               let w3 = otel_finish api spn err w2;
                   resp' = map_option (\<lambda>r. r\<lparr>rspHeader := hdr_set (rspHeader r) (oRequestIDHeader i) requestID\<rparr>) resp
               in ((resp', err), h2, spanCall api spn End w3)))"

definition traced_CloseRequest ::
  "('w, 's) otel_api \<Rightarrow> 's \<Rightarrow> ('w, 'p) stream_conn \<Rightarrow> ('w, err option) io" where
  "traced_CloseRequest api spn conn w =
     (case scCloseRequest conn w of
        (Some e, w1) \<Rightarrow> (Some (EWrap ''otel: stream close request'' e), otel_finish api spn (Some e) w1)
      | (None, w1) \<Rightarrow> (None, w1))"

definition traced_CloseResponse ::
  "('w, 's) otel_api \<Rightarrow> 's \<Rightarrow> ('w, 'p) stream_conn \<Rightarrow> ('w, err option) io" where
  "traced_CloseResponse api spn conn w =
     (case scCloseResponse conn w of
        (err, w1) \<Rightarrow>
          let w2 = spanCall api spn End (otel_finish api spn err w1)
          in (map_option (EWrap ''otel: stream close response'') err, w2))"

definition otel_WrapStreamingClient ::
  "('w, 's) otel_api \<Rightarrow> 'w otel_interceptor \<Rightarrow> ('w, 'p) stream_client \<Rightarrow> ('w, 'p) stream_client" where
  "otel_WrapStreamingClient api i next ctx sp w =
     (case next ctx sp w of
        (conn, w1) \<Rightarrow>
          (case otel_start api i ctx sp SpanKindClient (scHeader conn, w1) of
             ((_, spn, _), h, w2) \<Rightarrow>
               let conn' = conn\<lparr>scHeader := h\<rparr>
               in (conn'\<lparr>scCloseRequest := traced_CloseRequest api spn conn',
                         scCloseResponse := traced_CloseResponse api spn conn'\<rparr>, w2)))"

text \<open>A handler is called with the server side of a stream, of which the interceptor reads the
  specification and the request header.\<close>

definition otel_WrapStreamingHandler ::
  "('w, 's) otel_api \<Rightarrow> 'w otel_interceptor \<Rightarrow> (ctx \<Rightarrow> spec \<Rightarrow> (header \<times> 'w, err option) io) \<Rightarrow>
   ctx \<Rightarrow> spec \<Rightarrow> (header \<times> 'w, err option) io" where
  "otel_WrapStreamingHandler api i next ctx sp st =
     (case otel_start api i ctx sp SpanKindServer st of
        ((ctx', spn, _), st1) \<Rightarrow>
          (case next ctx' sp st1 of
             (err, h2, w2) \<Rightarrow> (err, h2, spanCall api spn End (otel_finish api spn err w2))))"

section \<open>The instrumented API\<close>

datatype 's otel_event =
    Started 's ctx string span_kind "(string \<times> string) list"
  | Called 's span_call

definition recording :: "('w, 's) otel_api \<Rightarrow> ('s otel_event list \<times> 'w, 's) otel_api" where
  "recording api =
     \<lparr>tracerStart = (\<lambda>nm c p k as (l, w). case tracerStart api nm c p k as w of
        ((c', s), w') \<Rightarrow> ((c', s), l @ [Started s c p k as], w')),
      spanCall = (\<lambda>s e (l, w). (l @ [Called s e], spanCall api s e w)),
      globalPropagator = globalPropagator api,
      uuidNewV7 = lift_io (uuidNewV7 api), uuidNewString = lift_io (uuidNewString api),
      errorText = errorText api, codeText = codeText api\<rparr>"

definition lift_otel :: "'w otel_interceptor \<Rightarrow> ('g \<times> 'w) otel_interceptor" where
  "lift_otel i = \<lparr>oPropagator = oPropagator i, oGenerateRequestID = lift_io (oGenerateRequestID i),
     oTracerName = oTracerName i, oRequestIDHeader = oRequestIDHeader i\<rparr>"


fun finish_calls :: "('w, 's) otel_api \<Rightarrow> 's \<Rightarrow> err option \<Rightarrow> 's otel_event list" where
  "finish_calls api s None = [Called s (SetStatus StatusOk [])]"
| "finish_calls api s (Some e) =
     [Called s (RecordError e), Called s (SetStatus StatusError (errorText api e)),
      Called s (SetAttribute ''rpc.connect.code'' (codeText api (Code (Some e))))]"

lemma recording_finish:
  "\<exists>w'. otel_finish (recording api) s err (l, w) = (l @ finish_calls api s err, w')"
  by (cases err) (auto simp: otel_finish_def recording_def)

lemma lift_otel_header [simp]: "oRequestIDHeader (lift_otel i) = oRequestIDHeader i"
  by (simp add: lift_otel_def)

abbreviation rpc_attrs :: "spec \<Rightarrow> (string \<times> string) list" where
  "rpc_attrs sp \<equiv> [(''rpc.system'', ''connect_rpc''), (''rpc.service'', fst (splitProcedure (Procedure sp))),
     (''rpc.method'', snd (splitProcedure (Procedure sp)))]"

text \<open>What \<^verbatim>\<open>start\<close> logs, and the request id it settles on.\<close>

lemma recording_start:
  assumes "otel_start (recording api) (lift_otel i) ctx sp kind (h, l, w) = ((ctx', spn, rid), h', l', w')"
  shows "l' = l @ [Started spn (if kind = SpanKindServer then Extract (oPropagator i) ctx h else ctx) (Procedure sp) kind
        (rpc_attrs sp), Called spn (SetAttribute ''request.id'' rid)] \<and>
    (hdr_get h (oRequestIDHeader i) \<noteq> [] \<longrightarrow> rid = hdr_get h (oRequestIDHeader i)) \<and>
    (let h1 = (if hdr_get h (oRequestIDHeader i) = [] then hdr_set h (oRequestIDHeader i) rid else h)
     in h' = (if kind = SpanKindClient then Inject (oPropagator i) ctx' h1 else h1))"
  using assms
  by (auto simp: otel_start_def recording_def lift_otel_def lift_io_def Let_def case_prod_unfold split: if_splits)

section \<open>Properties\<close>


text \<open>
  A traced client stream: the inner stream is opened in the caller's context, before the span
  exists; sends and receives are passed through untraced; only closing the response ends the
  span, and its status is decided by that close alone. So a stream whose receives failed, or
  whose request side failed to close, still ends with status Ok when the response side closes.
\<close>

theorem otel_stream_span:
  assumes "next ctx sp (l, w) = (conn, l0, w0)"
    and "otel_WrapStreamingClient (recording api) (lift_otel i) next ctx sp (l, w) = (conn', l1, w1)"
  shows "scSend conn' = scSend conn \<and> scReceive conn' = scReceive conn \<and>
    (\<exists>spn rid. l1 = l0 @ [Started spn ctx (Procedure sp) SpanKindClient (rpc_attrs sp),
          Called spn (SetAttribute ''request.id'' rid)] \<and>
      (\<forall>s e lx wx. scCloseRequest conn s = (e, lx, wx) \<longrightarrow>
         (\<exists>wy. scCloseRequest conn' s = (map_option (EWrap ''otel: stream close request'') e,
            (if e = None then lx else lx @ finish_calls api spn e), wy))) \<and>
      (\<forall>s e lx wx. scCloseResponse conn s = (e, lx, wx) \<longrightarrow>
         (\<exists>wy. scCloseResponse conn' s = (map_option (EWrap ''otel: stream close response'') e,
            lx @ finish_calls api spn e @ [Called spn End], wy))))"
proof -
  obtain ctx' spn rid h2 l2 w2 where
    st: "otel_start (recording api) (lift_otel i) ctx sp SpanKindClient (scHeader conn, l0, w0) = ((ctx', spn, rid), h2, l2, w2)"
    by (metis surj_pair)
  have c: "conn' = conn\<lparr>scHeader := h2, scCloseRequest := traced_CloseRequest (recording api) spn (conn\<lparr>scHeader := h2\<rparr>),
      scCloseResponse := traced_CloseResponse (recording api) spn (conn\<lparr>scHeader := h2\<rparr>)\<rparr>" "l1 = l2"
    using assms st by (simp_all add: otel_WrapStreamingClient_def Let_def)
  have "\<exists>wy. traced_CloseRequest (recording api) spn (conn\<lparr>scHeader := h2\<rparr>) s =
      (map_option (EWrap ''otel: stream close request'') e, (if e = None then lx else lx @ finish_calls api spn e), wy)"
    if "scCloseRequest conn s = (e, lx, wx)" for s e lx wx
    using that recording_finish [of api spn e lx wx] by (cases e) (auto simp: traced_CloseRequest_def)
  moreover have "\<exists>wy. traced_CloseResponse (recording api) spn (conn\<lparr>scHeader := h2\<rparr>) s =
      (map_option (EWrap ''otel: stream close response'') e, lx @ finish_calls api spn e @ [Called spn End], wy)"
    if "scCloseResponse conn s = (e, lx, wx)" for s e lx wx
    using that recording_finish [of api spn e lx wx] by (auto simp: traced_CloseResponse_def recording_def)
  moreover have "l2 = l0 @ [Started spn ctx (Procedure sp) SpanKindClient (rpc_attrs sp),
      Called spn (SetAttribute ''request.id'' rid)]" using recording_start [OF st] by simp
  ultimately show ?thesis unfolding c(2) by (intro conjI exI [of _ spn] exI [of _ rid] allI impI) (simp_all add: c(1))
qed

text \<open>
  The service and method names: a procedure \<^verbatim>\<open>/service/method\<close> is split back into its parts,
  and whatever is split, joining the parts again gives the procedure without its leading slash.
\<close>

theorem splitProcedure_roundtrip:
  "(CHR ''/'' \<notin> set method \<longrightarrow> splitProcedure (''/'' @ service @ ''/'' @ method) = (service, method)) \<and>
   (let (s, m) = splitProcedure p
    in (if CHR ''/'' \<in> set (TrimPrefix p ''/'') then s @ ''/'' @ m else s) = TrimPrefix p ''/'' \<and> CHR ''/'' \<notin> set m)"
proof -
  have "TrimPrefix (''/'' @ service @ ''/'' @ method) ''/'' = service @ CHR ''/'' # method"
    by (simp add: TrimPrefix_def)
  then have one: "CHR ''/'' \<notin> set method \<longrightarrow> splitProcedure (''/'' @ service @ ''/'' @ method) = (service, method)"
    by (auto simp: splitProcedure_def Let_def go_simps nat_add_distrib)
  let ?q = "TrimPrefix p ''/''"
  have "(let (s, m) = splitProcedure p in (if CHR ''/'' \<in> set ?q then s @ ''/'' @ m else s) = ?q \<and> CHR ''/'' \<notin> set m)"
  proof (cases "last_index CHR ''/'' ?q")
    case None
    then have "CHR ''/'' \<notin> set ?q" by (rule last_index_None_iff [THEN iffD1])
    moreover have "splitProcedure p = (?q, [])" using None by (simp add: splitProcedure_def Let_def LastIndex_def)
    ultimately show ?thesis by simp
  next
    case (Some k)
    then have "k < length ?q" "?q ! k = CHR ''/''" "CHR ''/'' \<notin> set (drop (Suc k) ?q)"
      using last_index_SomeD by blast+
    moreover from this have "CHR ''/'' \<in> set ?q" by (metis nth_mem)
    ultimately show ?thesis using Some id_take_nth_drop [of k ?q]
      by (simp add: splitProcedure_def Let_def LastIndex_def nat_add_distrib)
  qed
  with one show ?thesis by blast
qed

section \<open>The call bound\<close>

definition otel_keeps :: "('w \<Rightarrow> 'c) \<Rightarrow> ('w, 's) otel_api \<Rightarrow> 'w otel_interceptor \<Rightarrow> bool" where
  "otel_keeps obs api i \<longleftrightarrow>
     (\<forall>nm c p k as. keeps obs (tracerStart api nm c p k as)) \<and> (\<forall>s e w. obs (spanCall api s e w) = obs w) \<and>
     keeps obs (oGenerateRequestID i)"

lemma otel_start_keeps:
  assumes "otel_keeps obs api i" and "otel_start api i ctx sp kind (h, w) = (x, h', w')"
  shows "obs w' = obs w"
proof -
  let ?c = "if kind = SpanKindServer then Extract (oPropagator i) ctx h else ctx"
  obtain x1 s1 w1 where t: "tracerStart api (oTracerName i) ?c (Procedure sp) kind (rpc_attrs sp) w = ((x1, s1), w1)"
    by (metis surj_pair)
  obtain rid w2 where g: "oGenerateRequestID i w1 = (rid, w2)" by (metis surj_pair)
  have "obs w1 = obs w" using assms(1) t unfolding otel_keeps_def keeps_def by (metis snd_conv)
  moreover have "obs w2 = obs w1" using assms(1) g unfolding otel_keeps_def keeps_def by (metis snd_conv)
  ultimately have "obs w1 = obs w" "obs w2 = obs w" by simp_all
  then show ?thesis using assms t g
    by (auto simp: otel_start_def otel_keeps_def Let_def case_prod_unfold split: if_splits)
qed

lemma otel_finish_keeps: "otel_keeps obs api i \<Longrightarrow> obs (otel_finish api s e w) = obs w"
  by (auto simp: otel_finish_def otel_keeps_def split: option.splits)

lemma otel_call_bound:
  assumes "otel_keeps cost api i"
  shows "call_bound cost (otel_WrapUnary api i) 1"
proof
  fix "next" :: "('a, 'c) unary" and m
  assume nx: "adds_calls cost next m"
  show "adds_calls cost (otel_WrapUnary api i next) (1 * m)"
  proof (rule adds_callsI)
    fix ctx sp h w r h' w'
    assume run: "otel_WrapUnary api i next ctx sp (h, w) = (r, h', w')"
    obtain c s rid h1 w1 where st: "otel_start api i ctx sp SpanKindClient (h, w) = ((c, s, rid), h1, w1)"
      by (metis surj_pair)
    obtain resp e h2 w2 where n: "next c sp (h1, w1) = ((resp, e), h2, w2)" by (metis surj_pair)
    have "w' = spanCall api s End (otel_finish api s e w2)"
      using run st n by (simp add: otel_WrapUnary_def Let_def)
    then have "cost w' = cost w2" using otel_finish_keeps [OF assms] assms by (simp add: otel_keeps_def)
    then show "cost w' \<le> cost w + 1 * m" using otel_start_keeps [OF assms st] adds_callsD [OF nx n] by simp
  qed
qed

definition lift_api :: "('w, 's) otel_api \<Rightarrow> ('g \<times> 'w, 's) otel_api" where
  "lift_api api =
     \<lparr>tracerStart = (\<lambda>nm c p k as. lift_io (tracerStart api nm c p k as)),
      spanCall = (\<lambda>s e (g, w). (g, spanCall api s e w)), globalPropagator = globalPropagator api,
      uuidNewV7 = lift_io (uuidNewV7 api), uuidNewString = lift_io (uuidNewString api),
      errorText = errorText api, codeText = codeText api\<rparr>"

interpretation otel_calls: call_bound fst "otel_WrapUnary (lift_api api) (lift_otel i)" 1 for api i
  by (rule otel_call_bound) (simp add: otel_keeps_def lift_api_def lift_otel_def case_prod_unfold)

section \<open>Concrete calls\<close>

definition demo_api :: "(nat, nat) otel_api" where
  "demo_api = \<lparr>tracerStart = (\<lambda>nm c p k as w. ((c\<lparr>ctxValues := (''span'', p) # ctxValues c\<rparr>, w), Suc w)), spanCall = (\<lambda>s e w. w),
     globalPropagator = \<lparr>Inject = (\<lambda>c h. hdr_set h ''traceparent'' ''00''), Extract = (\<lambda>c h. c)\<rparr>,
     uuidNewV7 = (\<lambda>w. (Inr ''id7'', w)), uuidNewString = (\<lambda>w. (''id4'', w)), errorText = (\<lambda>e. ''failed''), codeText = (\<lambda>c. ''code'')\<rparr>"

definition demo_otel :: "nat otel_interceptor" where
  "demo_otel = otel_Interceptor demo_api zero_otel_options"

abbreviation otel_ctx :: ctx where
  "otel_ctx \<equiv> \<lparr>ctxDeadline = None, ctxValues = []\<rparr>"

abbreviation otel_spec :: spec where
  "otel_spec \<equiv> \<lparr>Procedure = ''/p.S/Get'', IdempotencyLevel = IdempotencyNoSideEffects\<rparr>"



definition demo_conn :: "(nat otel_event list \<times> nat, nat) stream_conn" where
  "demo_conn = \<lparr>scHeader = [], scSend = (\<lambda>m w. (None, w)), scReceive = (\<lambda>m w. (Some (EText ''reset''), w)),
     scCloseRequest = (\<lambda>w. (None, w)), scCloseResponse = (\<lambda>w. (None, w))\<rparr>"

text \<open>A stream whose receives fail and whose response side closes: its span ends with status Ok.\<close>

theorem otel_stream_span_witness:
  "\<exists>conn s spn pre w. otel_WrapStreamingClient (recording demo_api) (lift_otel demo_otel) (\<lambda>c sp st. (demo_conn, st))
      otel_ctx otel_spec ([], 0) = (conn, s) \<and>
    fst (scReceive conn 0 s) = Some (EText ''reset'') \<and>
    scCloseResponse conn s = (None, pre @ [Called spn (SetStatus StatusOk []), Called spn End], w)"
proof -
  obtain conn l1 w1 where run: "otel_WrapStreamingClient (recording demo_api) (lift_otel demo_otel) (\<lambda>c sp st. (demo_conn, st))
      otel_ctx otel_spec ([], 0) = (conn, l1, w1)" by (metis surj_pair)
  note th = otel_stream_span [of "\<lambda>c sp st. (demo_conn, st)" otel_ctx otel_spec "[]" 0, OF refl run]
  from th obtain spn where "\<And>s e lx wx. scCloseResponse demo_conn s = (e, lx, wx) \<Longrightarrow>
      \<exists>wy. scCloseResponse conn s = (map_option (EWrap ''otel: stream close response'') e,
        lx @ finish_calls demo_api spn e @ [Called spn End], wy)" by blast
  from this [of "(l1, w1)" None l1 w1] obtain wy where
    "scCloseResponse conn (l1, w1) = (None, l1 @ [Called spn (SetStatus StatusOk []), Called spn End], wy)"
    by (auto simp: demo_conn_def)
  moreover have "fst (scReceive conn 0 (l1, w1)) = Some (EText ''reset'')" using th by (simp add: demo_conn_def)
  ultimately show ?thesis using run by blast
qed

theorem splitProcedure_roundtrip_witness:
  "splitProcedure ''/acme.v1.Users/Get'' = (''acme.v1.Users'', ''Get'')"
  using splitProcedure_roundtrip [of "''Get''" "''acme.v1.Users''"] by simp

end
