(* ===== verification/Presets.thy ===== *)
theory Presets
  imports Breaker Retry Idempotency Auth Otel
begin

text \<open>
  The interceptor stacks of \<^verbatim>\<open>src/presets/presets.go\<close> and their composition. Connect runs the
  first interceptor of the slice outermost, which is \<open>chain\<close>. The circuit breaker's state is
  the first component of the world the chain runs in; every other interceptor is built over
  the rest of the world and lifted past it, so only the breaker (and, through the next
  function, the other calls that share it) can change it.
\<close>

section \<open>The presets\<close>

record 'w standalone_config =
  sAuth :: "'w auth_options option"
  sRetry :: "retry_config option"
  sBreaker :: "breaker_config option"
  sIdempotency :: "'w idem_options option"
  sOTel :: "'w otel_options option"

record 'w mesh_config =
  mAuth :: "'w auth_options option"
  mIdempotency :: "'w idem_options option"
  mOTel :: "'w otel_options option"

record ('w, 's) preset_env =
  pApi :: "('w, 's) otel_api"
  pClock :: "'w clock"
  pDetail :: "int \<Rightarrow> detail option"
  pRetry :: "'w retry_env"
  pRand16 :: "('w, 8 word list option) io"
  pWall :: "'w clock"

datatype 'w ic =
    OtelIC "'w otel_interceptor"
  | BreakerIC
  | IdemIC "'w idem_interceptor"
  | is_RetryIC: RetryIC retry_config
  | AuthIC "'w auth_interceptor"

text \<open>\<^verbatim>\<open>deref\<close>, at the zero value of the type it is used at.\<close>

definition deref :: "'a \<Rightarrow> 'a option \<Rightarrow> 'a" where
  "deref zero p = (case p of None \<Rightarrow> zero | Some x \<Rightarrow> x)"

definition zero_idem_options :: "'w idem_options" where
  "zero_idem_options = \<lparr>KeyFn = None, IsSafe = None, HeaderName = []\<rparr>"

text \<open>A preset returns the stack and, for the standalone one, the new breaker its breaker
  interceptor holds.\<close>

definition Standalone :: "('w, 's) preset_env \<Rightarrow> 'w standalone_config \<Rightarrow> err + 'w ic list \<times> breaker" where
  "Standalone env cfg =
     (let ics = [OtelIC (otel_Interceptor (pApi env) (deref zero_otel_options (sOTel cfg)))];
          breakerCfg = (case sBreaker cfg of None \<Rightarrow> breaker_DefaultConfig | Some c \<Rightarrow> c);
          b = breaker_New breakerCfg;
          ics = ics @ [BreakerIC];
          ics = ics @ [IdemIC (idem_Interceptor (pRand16 env) (pWall env) (deref zero_idem_options (sIdempotency cfg)))];
          retryCfg = (case sRetry cfg of None \<Rightarrow> retry_DefaultConfig | Some c \<Rightarrow> c);
          ics = ics @ [RetryIC (retry_Interceptor retryCfg)]
      in case sAuth cfg of
           None \<Rightarrow> Inr (ics, b)
         | Some opts \<Rightarrow>
             (case auth_Interceptor opts of
                Inl e \<Rightarrow> Inl (EWrap ''presets.Standalone'' e)
              | Inr a \<Rightarrow> Inr (ics @ [AuthIC a], b)))"

definition Mesh :: "('w, 's) preset_env \<Rightarrow> 'w mesh_config \<Rightarrow> err + 'w ic list" where
  "Mesh env cfg =
     (let ics = [OtelIC (otel_Interceptor (pApi env) (deref zero_otel_options (mOTel cfg)))];
          ics = ics @ [IdemIC (idem_Interceptor (pRand16 env) (pWall env) (deref zero_idem_options (mIdempotency cfg)))]
      in case mAuth cfg of
           None \<Rightarrow> Inr ics
         | Some opts \<Rightarrow>
             (case auth_Interceptor opts of
                Inl e \<Rightarrow> Inl (EWrap ''presets.Mesh'' e)
              | Inr a \<Rightarrow> Inr (ics @ [AuthIC a])))"

fun wrap_ic :: "('w, 's) preset_env \<Rightarrow> 'w ic \<Rightarrow> (breaker \<times> 'w, 'm) unary \<Rightarrow> (breaker \<times> 'w, 'm) unary" where
  "wrap_ic env (OtelIC i) = otel_WrapUnary (lift_api (pApi env)) (lift_otel i)"
| "wrap_ic env BreakerIC = breaker_WrapUnary (pClock env) (pDetail env)"
| "wrap_ic env (IdemIC i) = idem_WrapUnary (lift_idem i)"
| "wrap_ic env (RetryIC c) = retry_WrapUnary (lift_env (pRetry env)) c"
| "wrap_ic env (AuthIC a) = auth_WrapUnary (lift_auth a)"

definition chain :: "('w, 's) preset_env \<Rightarrow> 'w ic list \<Rightarrow> (breaker \<times> 'w, 'm) unary \<Rightarrow> (breaker \<times> 'w, 'm) unary" where
  "chain env ics next = foldr (wrap_ic env) ics next"

lemma chain_simps [simp]:
  "chain env [] next = next" "chain env (i # ics) next = wrap_ic env i (chain env ics next)"
  by (simp_all add: chain_def)

abbreviation preset_retry :: "'w standalone_config \<Rightarrow> retry_config" where
  "preset_retry cfg \<equiv> retry_Interceptor (case sRetry cfg of None \<Rightarrow> retry_DefaultConfig | Some c \<Rightarrow> c)"

abbreviation preset_otel :: "('w, 's) preset_env \<Rightarrow> 'w standalone_config \<Rightarrow> 'w otel_interceptor" where
  "preset_otel env cfg \<equiv> otel_Interceptor (pApi env) (deref zero_otel_options (sOTel cfg))"

abbreviation preset_idem :: "('w, 's) preset_env \<Rightarrow> 'w standalone_config \<Rightarrow> 'w idem_interceptor" where
  "preset_idem env cfg \<equiv> idem_Interceptor (pRand16 env) (pWall env) (deref zero_idem_options (sIdempotency cfg))"

definition mesh_of :: "'w standalone_config \<Rightarrow> 'w mesh_config" where
  "mesh_of cfg = \<lparr>mAuth = sAuth cfg, mIdempotency = sIdempotency cfg, mOTel = sOTel cfg\<rparr>"

text \<open>The two shapes a stack has: with and without the auth interceptor.\<close>

lemma Standalone_cases:
  assumes "Standalone env cfg = Inr (ics, b)"
  obtains (open_) "sAuth cfg = None" "ics = [OtelIC (preset_otel env cfg), BreakerIC, IdemIC (preset_idem env cfg), RetryIC (preset_retry cfg)]"
  | (authenticated) opts a where "sAuth cfg = Some opts" "auth_Interceptor opts = Inr a"
      "ics = [OtelIC (preset_otel env cfg), BreakerIC, IdemIC (preset_idem env cfg), RetryIC (preset_retry cfg), AuthIC a]"
  using assms by (auto simp: Standalone_def Let_def split: option.splits sum.splits)

section \<open>How often the network is called\<close>

text \<open>An interceptor keeps an observation of the world when everything it calls beside the next
  function does.\<close>

fun ic_keeps :: "('w \<Rightarrow> 'c) \<Rightarrow> ('w, 's) preset_env \<Rightarrow> 'w ic \<Rightarrow> bool" where
  "ic_keeps obs env (OtelIC i) = otel_keeps obs (pApi env) i"
| "ic_keeps obs env BreakerIC = keeps obs (pClock env)"
| "ic_keeps obs env (IdemIC i) = keeps obs (iKeyFn i)"
| "ic_keeps obs env (RetryIC c) = env_keeps obs (pRetry env)"
| "ic_keeps obs env (AuthIC a) = (\<forall>c. keeps obs (authSource a c))"

fun ic_budget :: "'w ic \<Rightarrow> nat" where
  "ic_budget (RetryIC c) = nat (MaxAttempts c)"
| "ic_budget _ = 1"

abbreviation ic_ok :: "'w ic \<Rightarrow> bool" where
  "ic_ok i \<equiv> (case i of RetryIC c \<Rightarrow> 1 \<le> MaxAttempts c | _ \<Rightarrow> True)"

lemma otel_keeps_lift: "otel_keeps obs api i \<Longrightarrow> otel_keeps (\<lambda>w. obs (snd w)) (lift_api api) (lift_otel i)"
  by (simp add: otel_keeps_def lift_api_def lift_otel_def case_prod_unfold)

lemma env_keeps_lift_snd: "env_keeps obs env \<Longrightarrow> env_keeps (\<lambda>w. obs (snd w)) (lift_env env)"
  by (simp add: env_keeps_def jitter_lift) (simp add: lift_env_def)

lemma auth_keeps_lift: "keeps obs (authSource a c) \<Longrightarrow> keeps (\<lambda>w. obs (snd w)) (authSource (lift_auth a) c)"
  by (simp add: lift_auth_def)

lemma idem_keeps_lift: "keeps obs (iKeyFn i) \<Longrightarrow> keeps (\<lambda>w. obs (snd w)) (iKeyFn (lift_idem i))"
  by (simp add: lift_idem_def)

lemma wrap_ic_call_bound:
  assumes "ic_keeps cost env i" and "ic_ok i"
  shows "call_bound (\<lambda>w. cost (snd w)) (wrap_ic env i) (ic_budget i)"
  using assms
  by (cases i)
    (auto intro!: otel_call_bound otel_keeps_lift breaker_call_bound idem_call_bound idem_keeps_lift
      retry_call_bound env_keeps_lift_snd auth_call_bound auth_keeps_lift simp del: One_nat_def)

lemma call_bound_compose:
  assumes "call_bound cost f k" and "call_bound cost g n"
  shows "call_bound cost (\<lambda>x. f (g x)) (k * n)"
proof -
  have "call_bound_pair cost f g k n" using assms by (rule call_bound_pair.intro)
  then show ?thesis by (rule call_bound_pair.both_bound)
qed

text \<open>The pair innermost in the mesh stack: the key is attached, then the credential.\<close>

interpretation key_then_credential: call_bound_pair fst "idem_WrapUnary (lift_idem i)" "auth_WrapUnary (lift_auth a)" 1 1 for i a
  by (rule call_bound_pair.intro [OF idem_calls.call_bound_axioms auth_calls.call_bound_axioms])

lemma chain_call_bound:
  "list_all (ic_keeps cost env) ics \<Longrightarrow> list_all ic_ok ics \<Longrightarrow>
   call_bound (\<lambda>w. cost (snd w)) (chain env ics) (prod_list (map ic_budget ics))"
proof (induction ics)
  case Nil
  then show ?case by unfold_locales simp
next
  case (Cons i ics)
  have eq: "chain env (i # ics) = (\<lambda>x. wrap_ic env i (chain env ics x))" by (rule ext) simp
  show ?case
    unfolding eq list.map prod_list.Cons
    using Cons by (intro call_bound_compose [of _ "wrap_ic env i" _ "chain env ics"] wrap_ic_call_bound) auto
qed

section \<open>What a call is, by its specification\<close>

text \<open>Every interceptor hands the request on with its own specification, so what it does with a
  request depends on the next function at that specification only.\<close>

lemma wrap_ic_spec_local:
  assumes "\<And>c st. f c sp st = g c sp st"
  shows "wrap_ic env i f ctx sp st = wrap_ic env i g ctx sp st"
proof (cases i)
  case (RetryIC c)
  have "retry_loop e c f ctx sp attempt cap prev res st = retry_loop e c g ctx sp attempt cap prev res st"
    for e attempt cap prev res st
  proof (induction "nat (MaxAttempts c + 1 - attempt)" arbitrary: attempt cap prev res st)
    case 0
    then show ?case by (simp add: retry_loop.simps)
  next
    case (Suc n)
    then have "n = nat (MaxAttempts c + 1 - (attempt + 1))" by simp
    from Suc.hyps(1) [OF this] show ?case
      by (subst (1 2) retry_loop.simps) (simp add: assms split: prod.split option.split)
  qed
  with RetryIC assms show ?thesis by (simp add: retry_WrapUnary_def)
qed (use assms in \<open>simp_all add: otel_WrapUnary_def breaker_WrapUnary_def idem_WrapUnary_def auth_WrapUnary_def
      case_prod_unfold split: option.split\<close>)

lemma chain_drop_retry:
  assumes "IdempotencyLevel sp = IdempotencyUnknown" and "\<And>c. RetryIC c \<in> set ics \<Longrightarrow> \<not> AllowNonIdempotent c"
  shows "chain env ics next ctx sp st = chain env (filter (\<lambda>i. \<not> is_RetryIC i) ics) next ctx sp st"
  using assms(2)
proof (induction ics arbitrary: ctx st)
  case (Cons i ics)
  then have IH: "chain env ics next c sp st = chain env (filter (\<lambda>i. \<not> is_RetryIC i) ics) next c sp st" for c st by simp
  show ?case
  proof (cases i)
    case (RetryIC c)
    then show ?thesis using Cons.prems assms(1) IH by (simp add: retry_WrapUnary_def)
  qed (simp_all only: filter.simps ic.disc simp_thms if_True chain_simps,
      (rule wrap_ic_spec_local [of "chain env ics next" sp "chain env (filter (\<lambda>i. \<not> is_RetryIC i) ics) next"], rule IH)+)
qed simp

text \<open>
  [C34] The whole standalone stack calls the network at most \<^verbatim>\<open>MaxAttempts\<close> times per RPC, and a
  procedure of unknown idempotency at most once unless the configuration allows more: the
  interceptors multiply to the retry interceptor's own bound, however the breaker, the key
  generator, the token source and the tracer behave, as long as they make no RPC of their own
  (keep the count of calls).
\<close>

theorem standalone_call_bound:
  assumes "Standalone env cfg = Inr (ics, b)" and "list_all (ic_keeps cost env) ics"
    and "adds_calls (\<lambda>w. cost (snd w)) next 1"
    and "chain env ics next ctx sp (h, w) = (r, h', w')"
  shows "cost (snd w') \<le> cost (snd w) +
    (if \<not> AllowNonIdempotent (preset_retry cfg) \<and> IdempotencyLevel sp = IdempotencyUnknown then 1
     else nat (MaxAttempts (preset_retry cfg)))"
proof (cases "\<not> AllowNonIdempotent (preset_retry cfg) \<and> IdempotencyLevel sp = IdempotencyUnknown")
  case True
  let ?ics = "filter (\<lambda>i. \<not> is_RetryIC i) ics"
  have "RetryIC c \<in> set ics \<Longrightarrow> \<not> AllowNonIdempotent c" for c
    using assms(1) True by (cases rule: Standalone_cases) auto
  with True assms(4) have run: "chain env ?ics next ctx sp (h, w) = (r, h', w')" using chain_drop_retry by metis
  have keep: "list_all (ic_keeps cost env) ?ics" using assms(2) by (simp add: list_all_iff)
  have "list_all ic_ok ?ics" and one: "prod_list (map ic_budget ?ics) = 1"
    using assms(1) by (cases rule: Standalone_cases; simp)+
  then have "adds_calls (\<lambda>w. cost (snd w)) (chain env ?ics next) (1 * 1)"
    using call_bound.wrap_calls [OF chain_call_bound [OF keep] assms(3)] by metis
  from adds_callsD [OF this run] True show ?thesis by simp
next
  case False
  have ok: "list_all ic_ok ics" and budget: "prod_list (map ic_budget ics) = nat (MaxAttempts (preset_retry cfg))"
    using assms(1) retry_Interceptor_attempts by (cases rule: Standalone_cases; simp)+
  have "adds_calls (\<lambda>w. cost (snd w)) (chain env ics next) (nat (MaxAttempts (preset_retry cfg)) * 1)"
    using call_bound.wrap_calls [OF chain_call_bound [OF assms(2) ok] assms(3)] unfolding budget .
  from adds_callsD [OF this assms(4)] False show ?thesis by auto
qed

section \<open>One idempotency key per call\<close>

text \<open>A function that, given a request carrying the key, only adds attempts that carry it.\<close>

definition sends_key :: "('w \<Rightarrow> 'm attempt list) \<Rightarrow> string \<Rightarrow> string \<Rightarrow> ('w, 'm) unary \<Rightarrow> bool" where
  "sends_key tr k key f \<longleftrightarrow>
     (\<forall>ctx sp h w r h' w'. hdr_get h k = key \<longrightarrow> f ctx sp (h, w) = (r, h', w') \<longrightarrow>
        hdr_get h' k = key \<and> (\<exists>new. tr w' = tr w @ new \<and> (\<forall>a\<in>set new. hdr_get (attHeader a) k = key)))"

lemma sends_keyD:
  assumes "sends_key tr k key f" and "hdr_get h k = key" and "f ctx sp (h, w) = (r, h', w')"
  obtains new where "hdr_get h' k = key" "tr w' = tr w @ new" "\<forall>a\<in>set new. hdr_get (attHeader a) k = key"
  using assms unfolding sends_key_def by blast

lemma retry_loop_sends_key:
  assumes "sends_key tr k key next" and "env_keeps tr env" and "hdr_get h k = key"
    and "retry_loop env cfg next ctx sp attempt cap prev res (h, w) = (r, h', w')"
  shows "hdr_get h' k = key \<and> (\<exists>new. tr w' = tr w @ new \<and> (\<forall>a\<in>set new. hdr_get (attHeader a) k = key))"
  using assms(3,4)
proof (induction "nat (MaxAttempts cfg + 1 - attempt)" arbitrary: attempt cap prev res h w)
  case 0
  then show ?case by (subst (asm) retry_loop.simps) auto
next
  case (Suc n)
  obtain r1 h1 w1 where nx: "next ctx sp (h, w) = (r1, h1, w1)" by (metis surj_pair)
  obtain new where one: "hdr_get h1 k = key" "tr w1 = tr w @ new" "\<forall>a\<in>set new. hdr_get (attHeader a) k = key"
    using sends_keyD [OF assms(1) Suc.prems(1) nx] .
  have le: "attempt \<le> MaxAttempts cfg" using Suc.hyps(2) by simp
  from Suc.prems(2) assms(2) le nx show ?case
  proof (cases rule: retry_loop_turn)
    case (stop w3)
    then show ?thesis using one by auto
  next
    case (again e d w3)
    have "n = nat (MaxAttempts cfg + 1 - (attempt + 1))" using Suc.hyps(2) by simp
    from Suc.hyps(1) [OF this one(1) again(5)] obtain more where
      "hdr_get h' k = key" "tr w' = tr w3 @ more" "\<forall>a\<in>set more. hdr_get (attHeader a) k = key" by blast
    then show ?thesis using one again(4) by (auto intro!: exI [of _ "new @ more"])
  qed
qed

lemma retry_sends_key:
  assumes "sends_key tr k key next" and "env_keeps tr env"
  shows "sends_key tr k key (retry_WrapUnary env cfg next)"
  using assms(1) retry_loop_sends_key [OF assms] unfolding sends_key_def retry_WrapUnary_def by (metis (full_types))

lemma auth_sends_key:
  assumes nx: "sends_key tr k key next" and src: "\<And>c. keeps tr (authSource a c)"
    and other: "CanonicalHeaderKey k \<noteq> CanonicalHeaderKey (authHeader a)"
  shows "sends_key tr k key (auth_WrapUnary a next)"
  unfolding sends_key_def
proof (intro allI impI)
  fix ctx sp h w r h' w'
  assume h: "hdr_get h k = key" and run: "auth_WrapUnary a next ctx sp (h, w) = (r, h', w')"
  obtain e h1 w1 where at: "attach a ctx (Procedure sp) (h, w) = (e, h1, w1)" by (metis surj_pair)
  have w1: "tr w1 = tr w" using attach_keeps [OF src at] .
  have h1: "hdr_get h1 k = key" using at h other by (auto simp: attach_def split: if_splits prod.splits sum.splits)
  show "hdr_get h' k = key \<and> (\<exists>new. tr w' = tr w @ new \<and> (\<forall>a\<in>set new. hdr_get (attHeader a) k = key))"
  proof (cases e)
    case None
    then have "next ctx sp (h1, w1) = (r, h', w')" using run at by (simp add: auth_WrapUnary_def)
    then show ?thesis using sends_keyD [OF nx h1] w1 by metis
  next
    case (Some x)
    then show ?thesis using run at w1 h1 by (simp add: auth_WrapUnary_def)
  qed
qed

text \<open>A function all of whose attempts carry one key, when the procedure is not read-only.\<close>

definition one_key :: "('w \<Rightarrow> 'm attempt list) \<Rightarrow> string \<Rightarrow> (string \<Rightarrow> bool) \<Rightarrow> ('w, 'm) unary \<Rightarrow> bool" where
  "one_key tr k safe f \<longleftrightarrow>
     (\<forall>ctx sp h w r h' w'. \<not> safe (Procedure sp) \<longrightarrow> f ctx sp (h, w) = (r, h', w') \<longrightarrow>
        (\<exists>key new. key \<noteq> [] \<and> tr w' = tr w @ new \<and> (\<forall>a\<in>set new. hdr_get (attHeader a) k = key)))"

lemma one_keyD:
  assumes "one_key tr k safe f" and "\<not> safe (Procedure sp)" and "f ctx sp (h, w) = (r, h', w')"
  obtains key new where "key \<noteq> []" "tr w' = tr w @ new" "\<forall>a\<in>set new. hdr_get (attHeader a) k = key"
  using assms unfolding one_key_def by blast

lemma idem_one_key:
  assumes nx: "\<And>key. sends_key tr (iHeaderName i) key next" and keep: "keeps tr (iKeyFn i)"
    and some: "\<And>w. fst (iKeyFn i w) \<noteq> []"
  shows "one_key tr (iHeaderName i) (iIsSafe i) (idem_WrapUnary i next)"
  unfolding one_key_def
proof (intro allI impI)
  fix ctx sp h w r h' w'
  assume unsafe: "\<not> iIsSafe i (Procedure sp)" and run: "idem_WrapUnary i next ctx sp (h, w) = (r, h', w')"
  obtain key w1 where k: "iKeyFn i w = (key, w1)" by (metis surj_pair)
  have "tr w1 = tr w" using keepsD [OF keep k] .
  moreover have "key \<noteq> []" using some [of w] k by simp
  moreover have "\<exists>hh ww. next ctx sp (hh, ww) = (r, h', w') \<and> tr ww = tr w \<and> hdr_get hh (iHeaderName i) \<noteq> []"
  proof (cases "hdr_get h (iHeaderName i) = []")
    case True
    then have "next ctx sp (hdr_set h (iHeaderName i) key, w1) = (r, h', w')"
      using run unsafe k by (simp add: idem_WrapUnary_def)
    then show ?thesis using calculation hdr_get_set by metis
  next
    case False
    then show ?thesis using run unsafe by (auto simp: idem_WrapUnary_def)
  qed
  then obtain hh ww where run1: "next ctx sp (hh, ww) = (r, h', w')" "tr ww = tr w" and ne: "hdr_get hh (iHeaderName i) \<noteq> []" by blast
  obtain new where "tr w' = tr ww @ new" "\<forall>a\<in>set new. hdr_get (attHeader a) (iHeaderName i) = hdr_get hh (iHeaderName i)"
    using sends_keyD [OF nx refl run1(1)] .
  then show "\<exists>key new. key \<noteq> [] \<and> tr w' = tr w @ new \<and> (\<forall>a\<in>set new. hdr_get (attHeader a) (iHeaderName i) = key)"
    using ne run1(2) by auto
qed

lemma breaker_one_key:
  assumes nx: "one_key (\<lambda>w. tr (snd w)) k safe next" and clk: "keeps tr clk"
  shows "one_key (\<lambda>w. tr (snd w)) k safe (breaker_WrapUnary clk mk_detail next)"
  unfolding one_key_def
proof (intro allI impI)
  fix ctx sp h w r h' w'
  assume unsafe: "\<not> safe (Procedure sp)" and run: "breaker_WrapUnary clk mk_detail next ctx sp (h, w) = (r, h', w')"
  obtain x b1 w1 where a: "allow clk mk_detail (fst w) (snd w) = (x, b1, w1)" by (metis prod_cases3)
  have w1: "tr w1 = tr (snd w)" using allow_keeps [OF clk a] .
  show "\<exists>key new. key \<noteq> [] \<and> tr (snd w') = tr (snd w) @ new \<and> (\<forall>a\<in>set new. hdr_get (attHeader a) k = key)"
  proof (cases x)
    case None
    obtain resp e h2 b2 w2 where n: "next ctx sp (h, b1, w1) = ((resp, e), h2, b2, w2)" by (metis prod.exhaust)
    obtain b3 w3 where rc: "record_result clk (isFailure b2 e) b2 w2 = (b3, w3)" by (metis surj_pair)
    have "snd w' = w3" using run a n None by (cases w) (auto simp: breaker_WrapUnary_def rc)
    then show ?thesis using one_keyD [OF nx unsafe n] w1 record_keeps [OF clk rc] by (metis snd_conv)
  next
    case (Some e)
    then have "snd w' = w1" using run a by (auto simp: breaker_WrapUnary_def case_prod_unfold)
    then show ?thesis using w1 by (intro exI [of _ "''k''"] exI [of _ "[]"]) simp
  qed
qed

lemma otel_one_key:
  assumes nx: "one_key tr k safe next" and keep: "otel_keeps tr api i"
  shows "one_key tr k safe (otel_WrapUnary api i next)"
  unfolding one_key_def
proof (intro allI impI)
  fix ctx sp h w r h' w'
  assume unsafe: "\<not> safe (Procedure sp)" and run: "otel_WrapUnary api i next ctx sp (h, w) = (r, h', w')"
  obtain c s rid h1 w1 where st: "otel_start api i ctx sp SpanKindClient (h, w) = ((c, s, rid), h1, w1)"
    by (metis surj_pair)
  obtain resp e h2 w2 where n: "next c sp (h1, w1) = ((resp, e), h2, w2)" by (metis surj_pair)
  have "w' = spanCall api s End (otel_finish api s e w2)" using run st n by (simp add: otel_WrapUnary_def Let_def)
  then have "tr w' = tr w2" using otel_finish_keeps [OF keep] keep by (simp add: otel_keeps_def)
  then show "\<exists>key new. key \<noteq> [] \<and> tr w' = tr w @ new \<and> (\<forall>a\<in>set new. hdr_get (attHeader a) k = key)"
    using one_keyD [OF nx unsafe n] otel_start_keeps [OF keep st] by metis
qed

text \<open>
  [C35] One key per logical call, through the whole standalone stack: every attempt the stack sends
  for a procedure that is not read-only carries the same, non-empty idempotency key, across
  retries and whatever credential each attempt is given. The key generator yields non-empty
  keys, the credential uses another header, and the network leaves the key header of the
  request as it is and logs what it is sent (\<open>sends_key\<close>).
\<close>

theorem standalone_stable_idempotency_key:
  assumes "Standalone env cfg = Inr (ics, b)" and "list_all (ic_keeps tr env) ics"
    and "\<And>key. sends_key (\<lambda>w. tr (snd w)) (iHeaderName (preset_idem env cfg)) key next"
    and "\<And>w. fst (iKeyFn (preset_idem env cfg) w) \<noteq> []"
    and "\<And>a. AuthIC a \<in> set ics \<Longrightarrow> CanonicalHeaderKey (iHeaderName (preset_idem env cfg)) \<noteq> CanonicalHeaderKey (authHeader a)"
    and "\<not> iIsSafe (preset_idem env cfg) (Procedure sp)"
    and "chain env ics next ctx sp (h, w) = (r, h', w')"
  shows "\<exists>key new. key \<noteq> [] \<and> tr (snd w') = tr (snd w) @ new \<and>
    (\<forall>a\<in>set new. hdr_get (attHeader a) (iHeaderName (preset_idem env cfg)) = key)"
proof -
  let ?i = "preset_idem env cfg" and ?tr = "\<lambda>w. tr (snd w)"
  have lift: "iHeaderName (lift_idem ?i) = iHeaderName ?i" "iIsSafe (lift_idem ?i) = iIsSafe ?i" by (simp_all add: lift_idem_def)
  have gen: "fst (iKeyFn (lift_idem ?i) w) \<noteq> []" for w :: "breaker \<times> 'a"
    using assms(4) by (simp add: lift_idem_def lift_io_def case_prod_unfold)
  have stack: "one_key ?tr (iHeaderName ?i) (iIsSafe ?i) (wrap_ic env (OtelIC (preset_otel env cfg)) (wrap_ic env BreakerIC
      (wrap_ic env (IdemIC ?i) (wrap_ic env (RetryIC (preset_retry cfg)) f))))"
    if f: "\<And>key. sends_key ?tr (iHeaderName ?i) key f" for f
  proof -
    have keep: "ic_keeps tr env (OtelIC (preset_otel env cfg))" "ic_keeps tr env BreakerIC" "ic_keeps tr env (IdemIC ?i)"
      "ic_keeps tr env (RetryIC (preset_retry cfg))" using assms(1,2) by (cases rule: Standalone_cases; simp)+
    then have "sends_key ?tr (iHeaderName ?i) key (retry_WrapUnary (lift_env (pRetry env)) (preset_retry cfg) f)" for key
      using f by (intro retry_sends_key env_keeps_lift_snd) auto
    then have "one_key ?tr (iHeaderName ?i) (iIsSafe ?i) (idem_WrapUnary (lift_idem ?i)
        (retry_WrapUnary (lift_env (pRetry env)) (preset_retry cfg) f))"
      using idem_one_key [of ?tr "lift_idem ?i", unfolded lift, OF _ idem_keeps_lift] gen keep(3) unfolding ic_keeps.simps
      by blast
    then show ?thesis using keep(1,2) by (auto intro!: otel_one_key breaker_one_key otel_keeps_lift)
  qed
  have "one_key ?tr (iHeaderName ?i) (iIsSafe ?i) (chain env ics next)" using assms(1)
  proof (cases rule: Standalone_cases)
    case open_
    then show ?thesis using stack [OF assms(3)] by simp
  next
    case (authenticated opts a)
    then have "sends_key ?tr (iHeaderName ?i) key (wrap_ic env (AuthIC a) next)" for key
      using assms(2,3,5) by (auto intro!: auth_sends_key auth_keeps_lift simp: lift_auth_def)
    from stack [OF this] authenticated show ?thesis by simp
  qed
  from one_keyD [OF this assms(6,7)] show ?thesis by metis
qed

section \<open>Standalone and mesh\<close>

lemma push_success_count:
  assumes "wf_breaker b"
  shows "failureCountLocked (push_outcome b False) \<le> failureCountLocked b"
proof -
  have ring: "ring_ok b" using wf_ring_ok [OF assms] .
  let ?n = "nat (WindowSize (bcfg b))"
  have "length (filter Not (last_n ?n (recent b @ [True]))) \<le> length (filter Not (recent b @ [True]))"
    unfolding last_n_def by (metis append_take_drop_id filter_append le_add2 length_append)
  then show ?thesis
    using failureCount_recent [OF ring] failureCount_recent [OF push_outcome_ring [OF ring, of False]] recent_push [OF ring, of False]
    by simp
qed

text \<open>Reporting a success reads no clock.\<close>

lemma record_success:
  assumes "wf_breaker b"
  shows "\<exists>b'. (\<forall>w. record_result clk False b w = (b', w)) \<and> wf_breaker b'"
proof (cases "bstate b")
  case StateClosed
  then have "\<not> FailureThreshold (bcfg b) \<le> failureCountLocked (push_outcome b False)"
    using push_success_count [OF assms] assms by (simp add: wf_breaker_def)
  then have "record_result clk False b w = (push_outcome b False, w)" for w
    using StateClosed by (simp add: record_result_def)
  then show ?thesis using wf_record [OF assms] by metis
next
  case StateOpen
  then show ?thesis using assms by (simp add: record_result_def)
next
  case StateHalfOpen
  then have "\<exists>b'. \<forall>w. record_result clk False b w = (b', w)"
    by (cases "0 < halfOpenInFlight b"; cases "SuccessThreshold (bcfg b) \<le> consecutiveSuccesses b + 1")
      (simp_all add: record_result_def Let_def)
  then show ?thesis using wf_record [OF assms] by metis
qed

lemma retry_first_success:
  assumes "f ctx sp st = ((resp, None), st')" and "1 \<le> MaxAttempts c"
  shows "retry_WrapUnary env c f ctx sp st = ((resp, None), st')"
  using assms by (cases st') (simp add: retry_WrapUnary_def retry_loop.simps)

lemma breaker_closed_success:
  assumes "bstate b = StateClosed" and "f ctx sp (h, b, w) = ((resp, None), h', b', w')" and "wf_breaker b'"
  shows "\<exists>b''. breaker_WrapUnary clk mk_detail f ctx sp (h, b, w) = ((resp, None), h', b'', w') \<and>
    wf_breaker b'' \<and> record_result clk False b' w' = (b'', w')"
proof -
  obtain b'' where "record_result clk False b' w' = (b'', w')" "wf_breaker b''" using record_success [OF assms(3), of clk] by metis
  then show ?thesis using assms(2) allow_closed [OF assms(1), of clk mk_detail w]
    by (intro exI [of _ b'']) (simp add: breaker_WrapUnary_def isFailure_def)
qed

lemma lifted_start_breaker:
  "otel_start (lift_api api) (lift_otel i) ctx sp kind (h, b, w) =
    (case otel_start api i ctx sp kind (h, w) of (x, h', w') \<Rightarrow> (x, h', b, w'))"
  by (simp add: otel_start_def lift_api_def lift_otel_def lift_io_def Let_def case_prod_unfold)

lemma lifted_finish_breaker: "otel_finish (lift_api api) s e (b, w) = (b, otel_finish api s e w)"
  by (simp add: otel_finish_def lift_api_def split: option.split)

lemma lifted_spanCall: "spanCall (lift_api api) s e (b, w) = (b, spanCall api s e w)"
  by (simp add: lift_api_def)

lemma lifted_idem:
  "\<exists>h1 w1. idem_WrapUnary (lift_idem i) f ctx sp (h, b, w) = f ctx sp (h1, b, w1) \<and>
     idem_WrapUnary (lift_idem i) g ctx sp (h, b, w) = g ctx sp (h1, b, w1)"
  by (auto simp: idem_WrapUnary_def lift_idem_def lift_io_def case_prod_unfold)

text \<open>
  [C36] On the happy path the two presets are the same client: from a closed breaker, a call that
  succeeds under the mesh stack has under the standalone stack of the same configuration the
  same response, request headers and effects on the rest of the world; the only difference is
  that the breaker counts one success.
\<close>

theorem standalone_mesh_equivalent:
  assumes "Standalone env cfg = Inr (ics, b0)" and "Mesh env (mesh_of cfg) = Inr mics"
    and "bstate b = StateClosed"
    and "chain env mics next ctx sp (h, b, w) = ((resp, None), h', b', w')" and "wf_breaker b'"
  shows "\<exists>b''. chain env ics next ctx sp (h, b, w) = ((resp, None), h', b'', w') \<and> wf_breaker b'' \<and>
    (\<exists>v. record_result (pClock env) False b' v = (b'', v))"
proof -
  obtain rest where ics: "ics = [OtelIC (preset_otel env cfg), BreakerIC, IdemIC (preset_idem env cfg), RetryIC (preset_retry cfg)] @ rest"
    and mics: "mics = [OtelIC (preset_otel env cfg), IdemIC (preset_idem env cfg)] @ rest"
    using assms(2) by (rule_tac Standalone_cases [OF assms(1)]) (auto simp: Mesh_def mesh_of_def Let_def)
  let ?f = "chain env rest next" and ?o = "preset_otel env cfg"
  let ?g = "idem_WrapUnary (lift_idem (preset_idem env cfg)) (retry_WrapUnary (lift_env (pRetry env)) (preset_retry cfg) ?f)"
  obtain c s rid h1 w1 where st: "otel_start (pApi env) ?o ctx sp SpanKindClient (h, w) = ((c, s, rid), h1, w1)" by (metis surj_pair)
  obtain h2 w2 where idem: "idem_WrapUnary (lift_idem (preset_idem env cfg)) ?f c sp (h1, b, w1) = ?f c sp (h2, b, w2)"
      "?g c sp (h1, b, w1) =
        retry_WrapUnary (lift_env (pRetry env)) (preset_retry cfg) ?f c sp (h2, b, w2)"
    using lifted_idem [of "preset_idem env cfg" ?f c sp h1 b w1
        "retry_WrapUnary (lift_env (pRetry env)) (preset_retry cfg) ?f"] by blast
  obtain resp3 e3 h3 b3 w3 where f: "?f c sp (h2, b, w2) = ((resp3, e3), h3, b3, w3)" by (metis surj_pair)
  let ?echo = "map_option (\<lambda>r. r\<lparr>rspHeader := hdr_set (rspHeader r) (oRequestIDHeader ?o) rid\<rparr>)"
  have m: "resp = ?echo resp3 \<and> e3 = None \<and> h' = h3 \<and> b' = b3 \<and> w' = spanCall (pApi env) s End (otel_finish (pApi env) s None w3)"
    using assms(4) st idem(1) f unfolding mics
    by (auto simp: otel_WrapUnary_def lifted_start_breaker lifted_finish_breaker lifted_spanCall Let_def)
  then have "?g c sp (h1, b, w1) = ((resp3, None), h3, b3, w3)"
    using idem(2) f retry_first_success [of ?f c sp "(h2, b, w2)" resp3 "(h3, b3, w3)", OF _ retry_Interceptor_attempts] by simp
  with breaker_closed_success [of b ?g c sp h1 w1 resp3 h3 b3 w3 "pClock env" "pDetail env", OF assms(3)] m assms(5) obtain b'' where
    b: "breaker_WrapUnary (pClock env) (pDetail env) ?g c sp (h1, b, w1) = ((resp3, None), h3, b'', w3)"
      "wf_breaker b''" "record_result (pClock env) False b' w3 = (b'', w3)" by blast
  have "chain env ics next ctx sp (h, b, w) = ((?echo resp3, None), h3, b'', spanCall (pApi env) s End (otel_finish (pApi env) s None w3))"
    unfolding ics append.simps chain_simps wrap_ic.simps otel_WrapUnary_def lifted_start_breaker st prod.case b(1)
    by (simp add: lifted_finish_breaker lifted_spanCall Let_def)
  with m have "chain env ics next ctx sp (h, b, w) = ((resp, None), h', b'', w')" by blast
  with b(2,3) show ?thesis by blast
qed

text \<open>
  A preset fails only on its credentials: exactly when auth options without a token source are
  given, with an error naming the preset; otherwise the interceptors come in the documented
  order, outermost first, and the breaker starts closed.
\<close>

theorem presets_build:
  "((\<exists>e. Standalone env cfg = Inl e) \<longleftrightarrow> (\<exists>o'. sAuth cfg = Some o' \<and> aSource o' = None)) \<and>
   ((\<exists>e. Mesh env (mesh_of cfg) = Inl e) \<longleftrightarrow> (\<exists>o'. sAuth cfg = Some o' \<and> aSource o' = None)) \<and>
   (case Standalone env cfg of
      Inl e \<Rightarrow> e = EWrap ''presets.Standalone'' (EText ''auth: Source is required'')
    | Inr (ics, b) \<Rightarrow> bstate b = StateClosed \<and> wf_breaker b \<and>
        map is_RetryIC ics = [False, False, False, True] @ map (\<lambda>_. False) (drop 4 ics) \<and>
        Mesh env (mesh_of cfg) = Inr (ics ! 0 # ics ! 2 # drop 4 ics))"
  by (auto simp: Standalone_def Mesh_def mesh_of_def Let_def auth_Interceptor_def breaker_New_def Let_def
      split: option.splits sum.splits)
    (use wf_New in \<open>auto simp: breaker_New_def Let_def\<close>)

section \<open>A concrete stack\<close>

text \<open>A world of the attempts the server has seen and a clock; a tracer without effect, timers that
  advance the clock, a static token, and a server that is down until the clock reads 100 ms.\<close>

type_synonym demo_world = "nat attempt list \<times> int"

definition silent_api :: "('w, unit) otel_api" where
  "silent_api = \<lparr>tracerStart = (\<lambda>nm c p k as w. ((c, ()), w)), spanCall = (\<lambda>s e w. w),
     globalPropagator = \<lparr>Inject = (\<lambda>c h. h), Extract = (\<lambda>c h. c)\<rparr>, uuidNewV7 = (\<lambda>w. (Inr ''id'', w)),
     uuidNewString = (\<lambda>w. (''id'', w)), errorText = (\<lambda>e. []), codeText = (\<lambda>c. [])\<rparr>"

definition demo_penv :: "(demo_world, unit) preset_env" where
  "demo_penv = \<lparr>pApi = silent_api, pClock = lift_io (\<lambda>t. (t, t)), pDetail = (\<lambda>d. None), pRetry = lift_env demo_env,
     pRand16 = (\<lambda>w. (None, w)), pWall = lift_io (\<lambda>t. (t, t))\<rparr>"

definition demo_pcfg :: "demo_world standalone_config" where
  "demo_pcfg = \<lparr>sAuth = Some \<lparr>aSource = Some (StaticBearer ''t''), aFormatHeader = Some id, aSkip = None, aHeaderName = []\<rparr>,
     sRetry = None, sBreaker = None,
     sIdempotency = Some \<lparr>KeyFn = Some (\<lambda>w. (''k1'', w)), IsSafe = Some (\<lambda>p. False), HeaderName = ''Key''\<rparr>, sOTel = None\<rparr>"

definition demo_net :: "(breaker \<times> demo_world, nat) unary" where
  "demo_net ctx sp = (\<lambda>(h, b, w). case logged flaky_next ctx sp (h, w) of (r, h', w') \<Rightarrow> (r, h', b, w'))"

definition demo_auth_ic :: "demo_world auth_interceptor" where
  "demo_auth_ic = \<lparr>authSource = StaticBearer ''t'', authFormat = id, authSkip = None, authHeader = ''Authorization''\<rparr>"

definition demo_ics :: "demo_world ic list" where
  "demo_ics = [OtelIC (preset_otel demo_penv demo_pcfg), BreakerIC, IdemIC (preset_idem demo_penv demo_pcfg),
     RetryIC (retry_Interceptor retry_DefaultConfig), AuthIC demo_auth_ic]"

definition demo_call :: spec where
  "demo_call = \<lparr>Procedure = ''/p/Create'', IdempotencyLevel = IdempotencyIdempotent\<rparr>"

lemma demo_standalone: "Standalone demo_penv demo_pcfg = Inr (demo_ics, breaker_New breaker_DefaultConfig)"
  by (simp add: Standalone_def demo_ics_def demo_pcfg_def auth_Interceptor_def demo_auth_ic_def Let_def)

lemma demo_mesh: "Mesh demo_penv (mesh_of demo_pcfg) =
    Inr [OtelIC (preset_otel demo_penv demo_pcfg), IdemIC (preset_idem demo_penv demo_pcfg), AuthIC demo_auth_ic]"
  by (simp add: Mesh_def mesh_of_def demo_pcfg_def auth_Interceptor_def demo_auth_ic_def Let_def)

lemma demo_keeps: "list_all (ic_keeps fst demo_penv) demo_ics"
  by (simp add: demo_ics_def demo_penv_def demo_auth_ic_def)
    (simp add: otel_keeps_def keeps_def silent_api_def otel_Interceptor_def demo_pcfg_def deref_def zero_otel_options_def
      defaultRequestID_def idem_Interceptor_def StaticBearer_def)

lemma keeps_length: "list_all (ic_keeps fst env) ics \<Longrightarrow> list_all (ic_keeps (\<lambda>w. length (fst w)) env) ics"
proof (induction ics)
  case (Cons i ics)
  then show ?case by (cases i) (auto simp: keeps_def otel_keeps_def env_keeps_def)
qed simp

lemma demo_net_calls: "adds_calls (\<lambda>w. length (fst (snd w))) demo_net 1"
  by (auto simp: adds_calls_def demo_net_def logged_def split: prod.splits)

lemma demo_net_key: "sends_key (\<lambda>w. fst (snd w)) k key demo_net"
  by (auto simp: sends_key_def demo_net_def logged_def flaky_next_def split: prod.splits if_splits)

theorem standalone_call_bound_witness:
  "length (fst (snd (snd (snd (chain demo_penv demo_ics demo_net background demo_call
     ([], breaker_New breaker_DefaultConfig, [], 0)))))) \<le> 4"
proof -
  obtain r h' w' where run: "chain demo_penv demo_ics demo_net background demo_call
      ([], breaker_New breaker_DefaultConfig, [], 0) = (r, h', w')" by (metis surj_pair)
  have "MaxAttempts (preset_retry demo_pcfg) = 4"
    by (simp add: demo_pcfg_def retry_Interceptor_def retry_DefaultConfig_def retry_defaults)
  with standalone_call_bound [OF demo_standalone keeps_length [OF demo_keeps] demo_net_calls run] run show ?thesis
    by (simp add: demo_call_def)
qed

theorem standalone_stable_idempotency_key_witness:
  "\<exists>key. key \<noteq> [] \<and> (\<forall>a\<in>set (fst (snd (snd (snd (chain demo_penv demo_ics demo_net background demo_call
     ([], breaker_New breaker_DefaultConfig, [], 0)))))). hdr_get (attHeader a) ''Key'' = key)"
proof -
  obtain r h' w' where run: "chain demo_penv demo_ics demo_net background demo_call
      ([], breaker_New breaker_DefaultConfig, [], 0) = (r, h', w')" by (metis surj_pair)
  have i: "preset_idem demo_penv demo_pcfg = \<lparr>iKeyFn = (\<lambda>w. (''k1'', w)), iIsSafe = (\<lambda>p. False), iHeaderName = ''Key''\<rparr>"
    by (simp add: idem_Interceptor_def demo_pcfg_def deref_def)
  have "CanonicalHeaderKey ''Key'' \<noteq> CanonicalHeaderKey ''Authorization''" by (rule CanonicalHeaderKey_length_neq) simp
  then have other: "AuthIC a \<in> set demo_ics \<Longrightarrow> CanonicalHeaderKey (iHeaderName (preset_idem demo_penv demo_pcfg)) \<noteq> CanonicalHeaderKey (authHeader a)"
    for a unfolding i by (auto simp: demo_ics_def demo_auth_ic_def)
  from standalone_stable_idempotency_key [OF demo_standalone demo_keeps demo_net_key _ other _ run] run i show ?thesis by auto
qed

definition demo_ok :: "(breaker \<times> demo_world, nat) unary" where
  "demo_ok ctx sp st = ((None, None), st)"

lemma demo_mesh_run:
  "\<exists>h. chain demo_penv [OtelIC (preset_otel demo_penv demo_pcfg), IdemIC (preset_idem demo_penv demo_pcfg), AuthIC demo_auth_ic]
      demo_ok background demo_call ([], b, [], 0) = ((None, None), h, b, [], 0)"
  by (simp add: otel_WrapUnary_def otel_start_def otel_finish_def otel_Interceptor_def demo_penv_def silent_api_def lift_api_def
      lift_otel_def lift_io_def demo_pcfg_def deref_def zero_otel_options_def defaultRequestID_def Let_def
      idem_WrapUnary_def idem_Interceptor_def lift_idem_def auth_WrapUnary_def attach_def demo_auth_ic_def lift_auth_def
      StaticBearer_def demo_ok_def case_prod_unfold)

theorem standalone_mesh_equivalent_witness:
  "\<exists>h b''. chain demo_penv demo_ics demo_ok background demo_call ([], breaker_New breaker_DefaultConfig, [], 0) =
     ((None, None), h, b'', [], 0) \<and> wf_breaker b''"
proof -
  obtain h where run: "chain demo_penv [OtelIC (preset_otel demo_penv demo_pcfg), IdemIC (preset_idem demo_penv demo_pcfg), AuthIC demo_auth_ic]
      demo_ok background demo_call ([], breaker_New breaker_DefaultConfig, [], 0) = ((None, None), h, breaker_New breaker_DefaultConfig, [], 0)"
    using demo_mesh_run by blast
  have closed: "bstate (breaker_New breaker_DefaultConfig) = StateClosed" by (simp add: breaker_New_def Let_def)
  from standalone_mesh_equivalent [OF demo_standalone demo_mesh closed run wf_New] show ?thesis by blast
qed

theorem presets_build_witness: "bstate (snd (projr (Standalone demo_penv demo_pcfg))) = StateClosed"
  using presets_build [of demo_penv demo_pcfg] by (simp add: demo_standalone)

end
