(* ===== verification/Logging.thy ===== *)
theory Logging
  imports Rpc
begin

text \<open>
  The canonical-log interceptor of \<^verbatim>\<open>src/logging/logging.go\<close>: one record per unary call. The
  slog handler, the clock, the span context of a \<^verbatim>\<open>context.Context\<close>, the caller's attribute
  hooks, \<^verbatim>\<open>Error()\<close> and Connect's \<^verbatim>\<open>Code.String\<close> are parameters.
\<close>

section \<open>Configuration\<close>

datatype slog_value = VString string | VInt64 int | VHeaders header | VOther

type_synonym slog_attr = "string \<times> slog_value"

record log_record =
  recLevel :: int
  recMessage :: string
  recAttrs :: "slog_attr list"

text \<open>The logger is an effect on the world; a nil \<^verbatim>\<open>*slog.Logger\<close> is \<open>None\<close>.\<close>

record ('w, 'm) logging_config =
  Logger :: "(ctx \<Rightarrow> log_record \<Rightarrow> 'w \<Rightarrow> 'w) option"
  AddRequestAttrs :: "(ctx \<Rightarrow> spec \<Rightarrow> header \<Rightarrow> slog_attr list) option"
  AddResponseAttrs :: "(ctx \<Rightarrow> 'm rpc_result \<Rightarrow> slog_attr list) option"
  Message :: string
  LogRequestIDHeader :: string
  RedactHeaders :: "string list"
  LogHeaders :: bool
  SuccessLevel :: int
  ErrorLevel :: int

record 'w logging_env =
  logNow :: "'w clock"
  spanContext :: "ctx \<Rightarrow> (string \<times> string) option"
  logErrorText :: "err \<Rightarrow> string"
  logCodeText :: "code \<Rightarrow> string"

definition redactedValue :: string where "redactedValue = ''[REDACTED]''"

definition LevelInfo :: int where "LevelInfo = 0"
definition LevelError :: int where "LevelError = 8"

definition logging_DefaultConfig :: "('w, 'm) logging_config" where
  "logging_DefaultConfig =
     \<lparr>Logger = None, AddRequestAttrs = None, AddResponseAttrs = None, Message = ''rpc'',
      LogRequestIDHeader = ''X-Request-ID'',
      RedactHeaders = [''authorization'', ''cookie'', ''set-cookie'', ''proxy-authorization'', ''x-api-key''],
      LogHeaders = False, SuccessLevel = LevelInfo, ErrorLevel = LevelError\<rparr>"

text \<open>The loop lower-cases the entries of the caller's slice in place; the list is the slice's
  contents afterwards, seen by the caller and the interceptor alike.\<close>

definition logging_Interceptor :: "('w, 'm) logging_config \<Rightarrow> err + ('w, 'm) logging_config" where
  "logging_Interceptor cfg =
     (case Logger cfg of
        None \<Rightarrow> Inl (EText ''logging: Logger is required'')
      | Some _ \<Rightarrow>
          Inr (cfg\<lparr>Message := (if Message cfg = [] then ''rpc'' else Message cfg),
            LogRequestIDHeader := (if LogRequestIDHeader cfg = [] then ''X-Request-ID'' else LogRequestIDHeader cfg),
            RedactHeaders := map ToLower (RedactHeaders cfg)\<rparr>))"

section \<open>The record\<close>

definition log_splitProcedure :: "string \<Rightarrow> string \<times> string" where
  "log_splitProcedure p0 =
     (let p = TrimPrefix p0 ''/''; i = LastIndex p CHR ''/''
      in if 0 \<le> i then (take (nat i) p, drop (nat (i + 1)) p) else (p, []))"

definition codeString :: "'w logging_env \<Rightarrow> err option \<Rightarrow> string" where
  "codeString env err = (case err of None \<Rightarrow> ''OK'' | Some e \<Rightarrow> logCodeText env (Code (Some e)))"

definition shouldRedact :: "('w, 'm) logging_config \<Rightarrow> string \<Rightarrow> bool" where
  "shouldRedact l name = (ToLower name \<in> set (RedactHeaders l))"

text \<open>A range over a map visits each entry once in some order and writes the result's entry of the
  same name, so the result does not depend on that order.\<close>

fun redact_loop :: "('w, 'm) logging_config \<Rightarrow> header \<Rightarrow> header \<Rightarrow> header" where
  "redact_loop l [] out = out"
| "redact_loop l ((k, vs) # h) out =
     (if shouldRedact l k then redact_loop l h (AList.update k (map (\<lambda>_. redactedValue) vs) out)
      else redact_loop l h (AList.update k vs out))"

definition redactHeaders :: "('w, 'm) logging_config \<Rightarrow> header \<Rightarrow> header" where
  "redactHeaders l h = redact_loop l h []"

text \<open>\<^verbatim>\<open>Duration.Milliseconds\<close> truncates towards zero.\<close>

definition Milliseconds :: "int \<Rightarrow> int" where
  "Milliseconds d = (if 0 \<le> d then d div millisecond else - (- d div millisecond))"

definition log_attrs ::
  "'v logging_env \<Rightarrow> ('w, 'm) logging_config \<Rightarrow> ctx \<Rightarrow> spec \<Rightarrow> header \<Rightarrow> 'm rpc_result \<Rightarrow> int \<Rightarrow> slog_attr list" where
  "log_attrs env l ctx sp h res dur =
     (let (service, method) = log_splitProcedure (Procedure sp);
          rid = hdr_get h (LogRequestIDHeader l)
      in [(''rpc.system'', VString ''connect_rpc''), (''rpc.service'', VString service), (''rpc.method'', VString method),
          (''rpc.duration_ms'', VInt64 (Milliseconds dur)), (''rpc.code'', VString (codeString env (snd res)))]
       @ (if rid \<noteq> [] then [(''request.id'', VString rid)] else [])
       @ (case spanContext env ctx of
            Some (t, s) \<Rightarrow> [(''trace.id'', VString t), (''span.id'', VString s)] | None \<Rightarrow> [])
       @ (case AddRequestAttrs l of Some f \<Rightarrow> f ctx sp h | None \<Rightarrow> [])
       @ (case AddResponseAttrs l of Some f \<Rightarrow> f ctx res | None \<Rightarrow> [])
       @ (case snd res of Some e \<Rightarrow> [(''error'', VString (logErrorText env e))] | None \<Rightarrow> [])
       @ (if LogHeaders l then [(''rpc.headers'', VHeaders (redactHeaders l h))] else []))"

definition log_emit ::
  "'w logging_env \<Rightarrow> ('w, 'm) logging_config \<Rightarrow> ctx \<Rightarrow> spec \<Rightarrow> header \<Rightarrow> 'm rpc_result \<Rightarrow> int \<Rightarrow> 'w \<Rightarrow> 'w" where
  "log_emit env l ctx sp h res dur w =
     (let level = (if snd res = None then SuccessLevel l else ErrorLevel l)
      in case Logger l of
           Some lg \<Rightarrow> lg ctx \<lparr>recLevel = level, recMessage = Message l, recAttrs = log_attrs env l ctx sp h res dur\<rparr> w
         | None \<Rightarrow> w)"

definition logging_WrapUnary ::
  "'w logging_env \<Rightarrow> ('w, 'm) logging_config \<Rightarrow> ('w, 'm) unary \<Rightarrow> ('w, 'm) unary" where
  "logging_WrapUnary env l next ctx sp = (\<lambda>(h, w).
     case logNow env w of
       (start, w1) \<Rightarrow>
         (case next ctx sp (h, w1) of
            (res, h2, w2) \<Rightarrow>
              (case logNow env w2 of
                 (t, w3) \<Rightarrow> (res, h2, log_emit env l ctx sp h2 res (time_sub t start) w3))))"

section \<open>Redaction\<close>

definition redacted :: "('w, 'm) logging_config \<Rightarrow> string \<times> string list \<Rightarrow> string \<times> string list" where
  "redacted l kv = (if shouldRedact l (fst kv) then (fst kv, map (\<lambda>_. redactedValue) (snd kv)) else kv)"

lemma update_fresh: "k \<notin> fst ` set xs \<Longrightarrow> AList.update k v xs = xs @ [(k, v)]"
  by (induction xs) auto

lemma redact_loop_eq:
  "hdr_wf h \<Longrightarrow> fst ` set h \<inter> fst ` set out = {} \<Longrightarrow> redact_loop l h out = out @ map (redacted l) h"
proof (induction l h out rule: redact_loop.induct)
  case (2 l k vs h out)
  have fresh: "k \<notin> fst ` set out" using 2(4) by auto
  have "hdr_wf h" and disj: "fst ` set h \<inter> fst ` set (out @ [(k, v)]) = {}" for v
    using 2(3,4) by (auto simp: hdr_wf_def)
  then show ?case using 2(1,2) by (auto simp: update_fresh [OF fresh] redacted_def)
qed simp

lemma redactHeaders_eq: "hdr_wf h \<Longrightarrow> redactHeaders l h = map (redacted l) h"
  by (simp add: redactHeaders_def redact_loop_eq)

section \<open>Properties\<close>

text \<open>The instrumented logger keeps the records it is given.\<close>

definition to_log :: "ctx \<Rightarrow> log_record \<Rightarrow> log_record list \<times> 'w \<Rightarrow> log_record list \<times> 'w" where
  "to_log ctx rec = (\<lambda>(l, w). (l @ [rec], w))"

definition lift_logging :: "'w logging_env \<Rightarrow> ('g \<times> 'w) logging_env" where
  "lift_logging env = \<lparr>logNow = lift_io (logNow env), spanContext = spanContext env, logErrorText = logErrorText env,
     logCodeText = logCodeText env\<rparr>"

lemma lift_logging_simps:
  "spanContext (lift_logging env) = spanContext env" "logErrorText (lift_logging env) = logErrorText env"
  "logCodeText (lift_logging env) = logCodeText env" "logNow (lift_logging env) = lift_io (logNow env)"
  by (simp_all add: lift_logging_def)

lemma log_attrs_lift: "log_attrs (lift_logging env) l = log_attrs env l"
  by (intro ext) (simp only: log_attrs_def codeString_def lift_logging_simps)

definition lift_next :: "('w, 'm) unary \<Rightarrow> ('g \<times> 'w, 'm) unary" where
  "lift_next next ctx sp = (\<lambda>(h, g, w). case next ctx sp (h, w) of (r, h', w') \<Rightarrow> (r, h', g, w'))"

text \<open>
  One record per call: the next function runs once, with the caller's context and headers, its
  result is returned unchanged, and exactly one record is written after it, at the level its
  outcome selects, starting with the five identity attributes; a request id on the wire is in
  the record.
\<close>

theorem logging_one_record:
  assumes "logging_Interceptor (cfg\<lparr>Logger := Some to_log\<rparr>) = Inr l"
    and "logging_WrapUnary (lift_logging env) l (lift_next next) ctx sp (h, [], w) = (res, h', recs, w')"
  shows "\<exists>w1 w2 r rest d. next ctx sp (h, w1) = (res, h', w2) \<and> recs = [r] \<and>
    recLevel r = (if snd res = None then SuccessLevel cfg else ErrorLevel cfg) \<and>
    recAttrs r = [(''rpc.system'', VString ''connect_rpc''), (''rpc.service'', VString (fst (log_splitProcedure (Procedure sp)))),
      (''rpc.method'', VString (snd (log_splitProcedure (Procedure sp)))), (''rpc.duration_ms'', VInt64 d),
      (''rpc.code'', VString (codeString env (snd res)))] @ rest \<and>
    (hdr_get h' (LogRequestIDHeader l) \<noteq> [] \<longrightarrow> (''request.id'', VString (hdr_get h' (LogRequestIDHeader l))) \<in> set rest)"
proof -
  obtain t w1 where t: "logNow env w = (t, w1)" by (metis surj_pair)
  obtain res0 h2 w2 where n: "next ctx sp (h, w1) = (res0, h2, w2)" by (metis surj_pair)
  obtain t' w3 where t': "logNow env w2 = (t', w3)" by (metis surj_pair)
  have l: "Logger l = Some to_log" "SuccessLevel l = SuccessLevel cfg" "ErrorLevel l = ErrorLevel cfg"
    using assms(1) by (auto simp: logging_Interceptor_def)
  let ?attrs = "log_attrs env l ctx sp h2 res0 (time_sub t' t)"
  let ?rec = "\<lparr>recLevel = if snd res0 = None then SuccessLevel l else ErrorLevel l, recMessage = Message l, recAttrs = ?attrs\<rparr>"
  have eqs: "res = res0 \<and> h' = h2 \<and> recs = [?rec]"
    using assms(2) t n t' l(1)
    by (auto simp: logging_WrapUnary_def lift_next_def lift_logging_simps lift_io_def log_emit_def log_attrs_lift
        to_log_def Let_def)
  show ?thesis
    using n eqs l(2,3)
    by (intro exI [of _ w1] exI [of _ w2] exI [of _ ?rec] exI [of _ "drop 5 ?attrs"] exI [of _ "Milliseconds (time_sub t' t)"])
      (auto simp: log_attrs_def case_prod_unfold Let_def)
qed

text \<open>
  [C39] Redaction: the logged headers have the request's names, in place; every value of a header
  on the redaction list is masked, whatever the case it is written in on either side, and the
  other headers are logged as they are.
\<close>

theorem redaction_complete:
  assumes "logging_Interceptor cfg = Inr l" and "hdr_wf h"
  shows "map fst (redactHeaders l h) = map fst h \<and>
    (\<forall>k vs. (k, vs) \<in> set h \<longrightarrow>
       (if (\<exists>r\<in>set (RedactHeaders cfg). ToLower r = ToLower k)
        then (k, replicate (length vs) redactedValue) \<in> set (redactHeaders l h) \<and>
          (\<forall>vs'. (k, vs') \<in> set (redactHeaders l h) \<longrightarrow> set vs' \<subseteq> {redactedValue})
        else (k, vs) \<in> set (redactHeaders l h)))"
proof -
  have R: "RedactHeaders l = map ToLower (RedactHeaders cfg)"
    using assms(1) by (auto simp: logging_Interceptor_def split: option.splits)
  have red: "shouldRedact l k \<longleftrightarrow> (\<exists>r\<in>set (RedactHeaders cfg). ToLower r = ToLower k)" for k
    unfolding shouldRedact_def R set_map image_iff by metis
  have eq: "redactHeaders l h = map (redacted l) h" using redactHeaders_eq [OF assms(2)] .
  have names: "map fst (redactHeaders l h) = map fst h" by (simp add: eq redacted_def)
  have mem: "redacted l (k, vs) \<in> set (redactHeaders l h)" if "(k, vs) \<in> set h" for k vs
    using that unfolding eq set_map by (rule imageI)
  have "(k, replicate (length vs) redactedValue) \<in> set (redactHeaders l h)" if "(k, vs) \<in> set h" "shouldRedact l k" for k vs
    using mem [OF that(1)] that(2) by (simp add: redacted_def map_replicate_const)
  moreover have "(k, vs) \<in> set (redactHeaders l h)" if "(k, vs) \<in> set h" "\<not> shouldRedact l k" for k vs
    using mem [OF that(1)] that(2) by (simp add: redacted_def)
  moreover have "set vs' \<subseteq> {redactedValue}" if "(k, vs') \<in> set (redactHeaders l h)" "shouldRedact l k" for k vs'
    using that unfolding eq redacted_def by (auto split: if_splits)
  ultimately show ?thesis using names unfolding red [symmetric] by auto
qed

text \<open>
  The list replaces the defaults rather than adding to them: a configuration built without
  \<^verbatim>\<open>RedactHeaders\<close> (only \<^verbatim>\<open>Logger\<close> is documented as mandatory) logs every header in clear,
  credentials included.
\<close>

theorem redaction_empty_list_logs_all:
  assumes "logging_Interceptor cfg = Inr l" and "RedactHeaders cfg = []" and "hdr_wf h"
  shows "redactHeaders l h = h"
proof -
  have "RedactHeaders l = []" using assms(1,2) by (auto simp: logging_Interceptor_def split: option.splits)
  then show ?thesis unfolding redactHeaders_eq [OF assms(3)]
    by (intro map_idI) (simp add: redacted_def shouldRedact_def)
qed



section \<open>The call bound\<close>

lemma log_call_bound:
  assumes "keeps cost (logNow env)" and "\<And>lg c r w. Logger l = Some lg \<Longrightarrow> cost (lg c r w) = cost w"
  shows "call_bound cost (logging_WrapUnary env l) 1"
proof
  fix "next" :: "('a, 'b) unary" and m
  assume nx: "adds_calls cost next m"
  show "adds_calls cost (logging_WrapUnary env l next) (1 * m)"
  proof (rule adds_callsI)
    fix ctx sp h w r h' w'
    assume run: "logging_WrapUnary env l next ctx sp (h, w) = (r, h', w')"
    obtain t w1 where t: "logNow env w = (t, w1)" by (metis surj_pair)
    obtain res h2 w2 where n: "next ctx sp (h, w1) = (res, h2, w2)" by (metis surj_pair)
    obtain t' w3 where t': "logNow env w2 = (t', w3)" by (metis surj_pair)
    have "w' = log_emit env l ctx sp h2 res (time_sub t' t) w3"
      using run t n t' by (auto simp: logging_WrapUnary_def)
    then have "cost w' = cost w3" using assms(2) by (auto simp: log_emit_def Let_def split: option.splits)
    then show "cost w' \<le> cost w + 1 * m"
      using adds_callsD [OF nx n] keepsD [OF assms(1) t] keepsD [OF assms(1) t'] by simp
  qed
qed

interpretation logging_calls: call_bound "\<lambda>w. fst (snd w)"
  "logging_WrapUnary (lift_logging (lift_logging env)) (l\<lparr>Logger := Some to_log\<rparr>)" 1 for env l
  by (rule log_call_bound) (auto simp: lift_logging_def to_log_def)

section \<open>Concrete calls\<close>

definition demo_log_env :: "int logging_env" where
  "demo_log_env = \<lparr>logNow = (\<lambda>w. (w, w + 2500000)), spanContext = (\<lambda>c. None), logErrorText = (\<lambda>e. ''failed''),
     logCodeText = (\<lambda>c. ''unavailable'')\<rparr>"

definition demo_log_cfg :: "(log_record list \<times> int, nat) logging_config" where
  "demo_log_cfg = logging_DefaultConfig\<lparr>LogHeaders := True\<rparr>"

definition down :: "(int, nat) unary" where
  "down ctx sp st = ((None, Some (EConnect CodeUnavailable (EText ''down'') [])), st)"

theorem logging_one_record_witness:
  "\<exists>l r. logging_Interceptor (demo_log_cfg\<lparr>Logger := Some to_log\<rparr>) = Inr l \<and>
     fst (snd (snd (logging_WrapUnary (lift_logging demo_log_env) l (lift_next down) \<lparr>ctxDeadline = None, ctxValues = []\<rparr>
       \<lparr>Procedure = ''/s.S/Get'', IdempotencyLevel = IdempotencyUnknown\<rparr> ([], [], 0)))) = [r] \<and> recLevel r = 8"
proof -
  obtain l where l: "logging_Interceptor (demo_log_cfg\<lparr>Logger := Some to_log\<rparr>) = Inr l"
    by (simp add: logging_Interceptor_def)
  obtain res h' recs w' where run: "logging_WrapUnary (lift_logging demo_log_env) l (lift_next down)
      \<lparr>ctxDeadline = None, ctxValues = []\<rparr> \<lparr>Procedure = ''/s.S/Get'', IdempotencyLevel = IdempotencyUnknown\<rparr> ([], [], 0) =
      (res, h', recs, w')" by (metis surj_pair)
  from logging_one_record [OF l run] obtain r where "recs = [r]" and "snd res \<noteq> None \<longrightarrow> recLevel r = ErrorLevel demo_log_cfg"
    and "snd res \<noteq> None" unfolding down_def by auto
  then show ?thesis using l run by (auto simp: demo_log_cfg_def logging_DefaultConfig_def LevelError_def)
qed

theorem redaction_complete_witness:
  "\<exists>l. logging_Interceptor (demo_log_cfg\<lparr>Logger := Some to_log, RedactHeaders := [''Authorization'']\<rparr>) = Inr l \<and>
     (''Authorization'', [redactedValue]) \<in> set (redactHeaders l [(''Authorization'', [''Bearer s3cret'']), (''Accept'', [''x''])])"
proof -
  let ?cfg = "demo_log_cfg\<lparr>Logger := Some to_log, RedactHeaders := [''Authorization'']\<rparr>"
  let ?h = "[(''Authorization'', [''Bearer s3cret'']), (''Accept'', [''x''])] :: header"
  obtain l where l: "logging_Interceptor ?cfg = Inr l" by (simp add: logging_Interceptor_def)
  have wf: "hdr_wf ?h" by (simp add: hdr_wf_def)
  from redaction_complete [OF l wf] have "(''Authorization'', replicate 1 redactedValue) \<in> set (redactHeaders l ?h)"
    by (auto simp: ToLower_def)
  then show ?thesis using l by simp
qed

theorem redaction_empty_list_logs_all_witness:
  "\<exists>l. logging_Interceptor (demo_log_cfg\<lparr>Logger := Some to_log, RedactHeaders := []\<rparr>) = Inr l \<and>
     redactHeaders l [(''Authorization'', [''Bearer s3cret''])] = [(''Authorization'', [''Bearer s3cret''])]"
proof -
  obtain l where l: "logging_Interceptor (demo_log_cfg\<lparr>Logger := Some to_log, RedactHeaders := []\<rparr>) = Inr l"
    by (simp add: logging_Interceptor_def)
  from redaction_empty_list_logs_all [OF l] show ?thesis using l by (auto simp: hdr_wf_def)
qed


end
