(* ===== verification/Timeout.thy ===== *)
theory Timeout
  imports Rpc
begin

text \<open>
  The deadline interceptor of \<^verbatim>\<open>src/timeout/timeout.go\<close>, for unary calls, client streams and
  handlers. The clock and \<^verbatim>\<open>ctx.Err()\<close> are parameters; a derived context is the parent with
  its deadline replaced (cancellation releases timers and is not observable here).
\<close>

section \<open>Configuration\<close>

definition DefaultTimeout :: int where "DefaultTimeout = 30 * second"

record timeout_config =
  tDefault :: int

definition timeout_DefaultConfig :: timeout_config where
  "timeout_DefaultConfig = \<lparr>tDefault = DefaultTimeout\<rparr>"


record 'w timeout_env =
  tClock :: "'w clock"
  tCtxErr :: "ctx \<Rightarrow> ('w, err option) io"

section \<open>The deadline\<close>

text \<open>\<^verbatim>\<open>context.WithDeadline\<close>: a parent that is due earlier keeps its own deadline.\<close>

definition WithDeadline :: "ctx \<Rightarrow> int \<Rightarrow> ctx" where
  "WithDeadline parent d =
     (case ctxDeadline parent of
        Some cur \<Rightarrow> if cur < d then parent else parent\<lparr>ctxDeadline := Some d\<rparr>
      | None \<Rightarrow> parent\<lparr>ctxDeadline := Some d\<rparr>)"

definition timeout_apply :: "'w timeout_env \<Rightarrow> timeout_config \<Rightarrow> ctx \<Rightarrow> ('w, ctx) io" where
  "timeout_apply env cfg parent w =
     (case tClock env w of
        (now, w') \<Rightarrow>
          let configured = time_add now (tDefault cfg) in
          (case ctxDeadline parent of
             Some existing \<Rightarrow>
               if \<not> time_after existing configured then (parent, w') else (WithDeadline parent configured, w')
           | None \<Rightarrow> (WithDeadline parent configured, w')))"

definition translateDeadline :: "'w timeout_env \<Rightarrow> ctx \<Rightarrow> err \<Rightarrow> ('w, err) io" where
  "translateDeadline env ctx e w =
     (if \<not> errors_is e CtxDeadlineExceeded then (e, w)
      else
        (case tCtxErr env ctx w of
           (None, w') \<Rightarrow> (e, w')
         | (Some _, w') \<Rightarrow> (EConnect CodeDeadlineExceeded e [], w')))"

section \<open>The interceptor\<close>

definition timeout_WrapUnary :: "'w timeout_env \<Rightarrow> timeout_config \<Rightarrow> ('w, 'm) unary \<Rightarrow> ('w, 'm) unary" where
  "timeout_WrapUnary env cfg next parent sp = (\<lambda>(h, w).
     case timeout_apply env cfg parent w of
       (ctx, w1) \<Rightarrow>
         (case next ctx sp (h, w1) of
            ((resp, Some e), h', w2) \<Rightarrow>
              (case translateDeadline env ctx e w2 of (e', w3) \<Rightarrow> ((None, Some e'), h', w3))
          | ((resp, None), h', w2) \<Rightarrow> ((resp, None), h', w2)))"

definition timeout_WrapStreamingClient ::
  "'w timeout_env \<Rightarrow> timeout_config \<Rightarrow> (ctx \<Rightarrow> spec \<Rightarrow> ('w, 'c) io) \<Rightarrow> ctx \<Rightarrow> spec \<Rightarrow> ('w, 'c) io" where
  "timeout_WrapStreamingClient env cfg next parent sp w =
     (case timeout_apply env cfg parent w of (ctx, w1) \<Rightarrow> next ctx sp w1)"

definition timeout_WrapStreamingHandler ::
  "'w timeout_env \<Rightarrow> timeout_config \<Rightarrow> (ctx \<Rightarrow> 'c \<Rightarrow> ('w, err option) io) \<Rightarrow> ctx \<Rightarrow> 'c \<Rightarrow> ('w, err option) io" where
  "timeout_WrapStreamingHandler env cfg next parent conn w =
     (case timeout_apply env cfg parent w of
        (ctx, w1) \<Rightarrow>
          (case next ctx conn w1 of
             (Some e, w2) \<Rightarrow> (case translateDeadline env ctx e w2 of (e', w3) \<Rightarrow> (Some e', w3))
           | (None, w2) \<Rightarrow> (None, w2)))"

section \<open>Properties\<close>

definition effective_deadline :: "int \<Rightarrow> timeout_config \<Rightarrow> ctx \<Rightarrow> int" where
  "effective_deadline now cfg ctx =
     (case ctxDeadline ctx of None \<Rightarrow> now + tDefault cfg | Some d \<Rightarrow> min d (now + tDefault cfg))"

lemma timeout_apply_min:
  "timeout_apply env cfg parent w = (parent\<lparr>ctxDeadline := Some (effective_deadline (fst (tClock env w)) cfg parent)\<rparr>,
     snd (tClock env w))"
proof -
  have same: "ctxDeadline parent = Some d \<Longrightarrow> parent\<lparr>ctxDeadline := Some d\<rparr> = parent" for d
    by (cases parent) simp
  show ?thesis
    by (auto simp: timeout_apply_def WithDeadline_def effective_deadline_def time_defs Let_def min_def same
        split: prod.splits option.splits)
qed


definition lift_timeout :: "'w timeout_env \<Rightarrow> ('g \<times> 'w) timeout_env" where
  "lift_timeout env = \<lparr>tClock = lift_io (tClock env), tCtxErr = (\<lambda>c. lift_io (tCtxErr env c))\<rparr>"

lemma translateDeadline_lift: "translateDeadline (lift_timeout env) ctx e = lift_io (translateDeadline env ctx e)"
  by (rule ext) (auto simp: translateDeadline_def lift_timeout_def lift_io_def split: prod.splits option.splits)

lemma timeout_apply_lift: "timeout_apply (lift_timeout env) cfg parent = lift_io (timeout_apply env cfg parent)"
  by (rule ext) (auto simp: timeout_apply_def lift_timeout_def lift_io_def Let_def split: prod.splits option.splits)


interpretation timeout_calls: call_bound fst "timeout_WrapUnary (lift_timeout env) cfg" 1 for env cfg
proof unfold_locales
  fix "next" :: "(nat \<times> 'a, 'b) unary" and m
  assume nx: "adds_calls fst next m"
  show "adds_calls fst (timeout_WrapUnary (lift_timeout env) cfg next) (1 * m)"
  proof (rule adds_callsI)
    fix ctx sp h w r h' w'
    assume run: "timeout_WrapUnary (lift_timeout env) cfg next ctx sp (h, w) = (r, h', w')"
    obtain c w1 where a: "timeout_apply (lift_timeout env) cfg ctx w = (c, w1)" by (metis surj_pair)
    obtain r1 h1 w2 where n: "next c sp (h, w1) = (r1, h1, w2)" by (metis surj_pair)
    have "fst w1 = fst w" using a lift_io_fst by (simp add: timeout_apply_lift)
    moreover have "fst w' = fst w2" using run a n
      by (auto simp: timeout_WrapUnary_def translateDeadline_lift split: option.splits prod.splits dest: lift_io_fst)
    ultimately show "fst w' \<le> fst w + 1 * m" using adds_callsD [OF nx n] by simp
  qed
qed


text \<open>
  The translation of deadline errors does not depend on who set the deadline: with a caller
  deadline tighter than the default (which the interceptor passes on untouched) an expired
  context's error is wrapped just the same.
\<close>

theorem timeout_translates_caller_deadline:
  assumes "ctxDeadline ctx = Some d" and "d \<le> fst (tClock env w) + tDefault cfg"
    and "next ctx sp (h, snd (tClock env w)) = ((resp, Some e), h', w2)"
    and "errors_is e CtxDeadlineExceeded" and "tCtxErr env ctx w2 = (Some x, w3)"
  shows "timeout_WrapUnary env cfg next ctx sp (h, w) = ((None, Some (EConnect CodeDeadlineExceeded e [])), h', w3)"
proof -
  have "ctx\<lparr>ctxDeadline := Some d\<rparr> = ctx" using assms(1) by (cases ctx) simp
  then have "timeout_apply env cfg ctx w = (ctx, snd (tClock env w))"
    using assms(1,2) by (simp add: timeout_apply_min effective_deadline_def min_def)
  then show ?thesis using assms(3-5) by (simp add: timeout_WrapUnary_def translateDeadline_def)
qed

section \<open>A concrete call\<close>

definition demo_timeout :: "int timeout_env" where
  "demo_timeout = \<lparr>tClock = (\<lambda>w. (w, w)),
     tCtxErr = (\<lambda>c w. (case ctxDeadline c of Some d \<Rightarrow> if d \<le> w then Some (ESentinel CtxDeadlineExceeded) else None | None \<Rightarrow> None, w))\<rparr>"

definition slow_next :: "(int, nat) unary" where
  "slow_next ctx sp = (\<lambda>(h, w). ((None, Some (EWrap ''post'' (ESentinel CtxDeadlineExceeded))), h, w + 60 * second))"

abbreviation demo_ctx :: "int option \<Rightarrow> ctx" where
  "demo_ctx d \<equiv> \<lparr>ctxDeadline = d, ctxValues = []\<rparr>"

abbreviation demo_spec :: spec where
  "demo_spec \<equiv> \<lparr>Procedure = ''/s.S/Get'', IdempotencyLevel = IdempotencyIdempotent\<rparr>"


theorem timeout_translates_caller_deadline_witness:
  "snd (fst (timeout_WrapUnary demo_timeout timeout_DefaultConfig slow_next (demo_ctx (Some (5 * second))) demo_spec ([], 0))) =
     Some (EConnect CodeDeadlineExceeded (EWrap ''post'' (ESentinel CtxDeadlineExceeded)) [])"
  using timeout_translates_caller_deadline [of "demo_ctx (Some (5 * second))" "5 * second" demo_timeout 0
      timeout_DefaultConfig slow_next demo_spec "[]" None "EWrap ''post'' (ESentinel CtxDeadlineExceeded)" "[]" "60 * second"]
  by (simp add: demo_timeout_def timeout_DefaultConfig_def DefaultTimeout_def slow_next_def)

end
