(* ===== verification/Streams.thy ===== *)
theory Streams
  imports Presets Logging Hedge Timeout
begin

text \<open>
  Client streams through the interceptors. Retry, breaker, idempotency, hedge, logging and rotation
  hand a stream on as it is (\<^verbatim>\<open>WrapStreamingClient\<close> and \<^verbatim>\<open>WrapStreamingHandler\<close> return \<^verbatim>\<open>next\<close>);
  tracing and auth wrap it. Connect composes the streaming wrappers of a stack in the same order
  as the unary ones.
\<close>

section \<open>Pass-through wrappers\<close>

type_synonym 'w stream_handler = "ctx \<Rightarrow> spec \<Rightarrow> (header \<times> 'w, err option) io"

definition retry_WrapStreamingClient :: "('w, 'p) stream_client \<Rightarrow> ('w, 'p) stream_client" where
  "retry_WrapStreamingClient next = next"
definition retry_WrapStreamingHandler :: "'w stream_handler \<Rightarrow> 'w stream_handler" where
  "retry_WrapStreamingHandler next = next"
definition breaker_WrapStreamingClient :: "('w, 'p) stream_client \<Rightarrow> ('w, 'p) stream_client" where
  "breaker_WrapStreamingClient next = next"
definition breaker_WrapStreamingHandler :: "'w stream_handler \<Rightarrow> 'w stream_handler" where
  "breaker_WrapStreamingHandler next = next"
definition idem_WrapStreamingClient :: "('w, 'p) stream_client \<Rightarrow> ('w, 'p) stream_client" where
  "idem_WrapStreamingClient next = next"
definition idem_WrapStreamingHandler :: "'w stream_handler \<Rightarrow> 'w stream_handler" where
  "idem_WrapStreamingHandler next = next"
definition hedge_WrapStreamingClient :: "('w, 'p) stream_client \<Rightarrow> ('w, 'p) stream_client" where
  "hedge_WrapStreamingClient next = next"
definition hedge_WrapStreamingHandler :: "'w stream_handler \<Rightarrow> 'w stream_handler" where
  "hedge_WrapStreamingHandler next = next"
definition logging_WrapStreamingClient :: "('w, 'p) stream_client \<Rightarrow> ('w, 'p) stream_client" where
  "logging_WrapStreamingClient next = next"
definition logging_WrapStreamingHandler :: "'w stream_handler \<Rightarrow> 'w stream_handler" where
  "logging_WrapStreamingHandler next = next"
definition rotation_WrapStreamingClient :: "('w, 'p) stream_client \<Rightarrow> ('w, 'p) stream_client" where
  "rotation_WrapStreamingClient next = next"
definition rotation_WrapStreamingHandler :: "'w stream_handler \<Rightarrow> 'w stream_handler" where
  "rotation_WrapStreamingHandler next = next"
definition auth_WrapStreamingHandler :: "'w stream_handler \<Rightarrow> 'w stream_handler" where
  "auth_WrapStreamingHandler next = next"

section \<open>The stacks on streams\<close>

fun stream_ic :: "('w, 's) preset_env \<Rightarrow> 'w ic \<Rightarrow> (breaker \<times> 'w, 'p) stream_client \<Rightarrow> (breaker \<times> 'w, 'p) stream_client" where
  "stream_ic env (OtelIC i) = otel_WrapStreamingClient (lift_api (pApi env)) (lift_otel i)"
| "stream_ic env BreakerIC = breaker_WrapStreamingClient"
| "stream_ic env (IdemIC i) = idem_WrapStreamingClient"
| "stream_ic env (RetryIC c) = retry_WrapStreamingClient"
| "stream_ic env (AuthIC a) = auth_WrapStreamingClient (lift_auth a)"

definition stream_chain :: "('w, 's) preset_env \<Rightarrow> 'w ic list \<Rightarrow> (breaker \<times> 'w, 'p) stream_client \<Rightarrow> (breaker \<times> 'w, 'p) stream_client" where
  "stream_chain env ics next = foldr (stream_ic env) ics next"

lemmas stream_pass = breaker_WrapStreamingClient_def idem_WrapStreamingClient_def retry_WrapStreamingClient_def

section \<open>What the stacks do to a stream\<close>

text \<open>The header after tracing: the request id and whatever the propagator injects.\<close>

lemma otel_start_header:
  assumes "otel_start api i ctx sp kind (h, w) = (x, h', w')"
    and "\<And>c h. hdr_get (Inject (oPropagator i) c h) k = hdr_get h k"
    and "CanonicalHeaderKey k \<noteq> CanonicalHeaderKey (oRequestIDHeader i)"
  shows "hdr_get h' k = hdr_get h k"
  using assms by (auto simp: otel_start_def Let_def split: prod.splits if_splits)

lemma otel_start_breaker:
  assumes "otel_start (lift_api api) (lift_otel i) ctx sp kind (h, b, w) = (x, h', b', w')"
  shows "b' = b"
  using assms by (auto simp: otel_start_def lift_api_def lift_otel_def lift_io_def Let_def split: prod.splits if_splits)

lemma auth_stream_breaker:
  assumes "auth_WrapStreamingClient (lift_auth a) next ctx sp (b0, w) = (conn', b2, w2)" and "next ctx sp (b0, w) = (conn, b1, w1)"
  shows "b2 = b1"
  using assms by (auto simp: auth_WrapStreamingClient_def attach_def lift_auth_def lift_io_def split: prod.splits sum.splits if_splits)

lemma otel_stream_breaker:
  assumes "otel_WrapStreamingClient (lift_api api) (lift_otel i) next ctx sp (b0, w) = (conn', b2, w2)" and "next ctx sp (b0, w) = (conn, b1, w1)"
  shows "b2 = b1"
  using assms by (auto simp: otel_WrapStreamingClient_def Let_def dest: otel_start_breaker split: prod.splits)

text \<open>The wrappers that remain of a stack, outermost first.\<close>

definition stream_stack :: "('w, 's) preset_env \<Rightarrow> 'w otel_interceptor \<Rightarrow> 'w auth_interceptor option \<Rightarrow>
    (breaker \<times> 'w, 'p) stream_client \<Rightarrow> (breaker \<times> 'w, 'p) stream_client" where
  "stream_stack env i auth next = otel_WrapStreamingClient (lift_api (pApi env)) (lift_otel i)
     (case auth of None \<Rightarrow> next | Some a \<Rightarrow> auth_WrapStreamingClient (lift_auth a) next)"

lemma stream_stack_breaker:
  assumes "stream_stack env i auth next ctx sp (b0, w) = (conn', b2, w2)" and "next ctx sp (b0, w) = (conn, b1, w1)"
  shows "b2 = b1"
proof (cases auth)
  case None
  then show ?thesis using assms otel_stream_breaker by (fastforce simp: stream_stack_def)
next
  case (Some a)
  obtain c b w' where m: "auth_WrapStreamingClient (lift_auth a) next ctx sp (b0, w) = (c, b, w')" by (metis surj_pair)
  have "b2 = b" using assms(1) Some m otel_stream_breaker [of _ _ "auth_WrapStreamingClient (lift_auth a) next"] by (fastforce simp: stream_stack_def)
  then show ?thesis using auth_stream_breaker [OF m assms(2)] by simp
qed

lemma Standalone_stream:
  assumes "Standalone env cfg = Inr (ics, b)"
  shows "\<exists>auth. stream_chain env ics next = stream_stack env (preset_otel env cfg) auth next \<and>
    (case sAuth cfg of None \<Rightarrow> auth = None | Some opts \<Rightarrow> (\<exists>a. auth_Interceptor opts = Inr a \<and> auth = Some a))"
  using assms
  by (auto simp: Standalone_def stream_chain_def stream_stack_def stream_pass Let_def split: option.splits sum.splits)

lemma Mesh_stream:
  assumes "Mesh env (mesh_of cfg) = Inr ics"
  shows "\<exists>auth. stream_chain env ics next = stream_stack env (preset_otel env cfg) auth next \<and>
    (case sAuth cfg of None \<Rightarrow> auth = None | Some opts \<Rightarrow> (\<exists>a. auth_Interceptor opts = Inr a \<and> auth = Some a))"
  using assms
  by (auto simp: Mesh_def mesh_of_def stream_chain_def stream_stack_def stream_pass Let_def split: option.splits sum.splits)

text \<open>
  On streams the two presets are the same stack: opening a stream through the standalone
  interceptors is opening it through the mesh ones for the same configuration, for every next
  function; retry, breaker and idempotency do not touch it, and the breaker's state is whatever
  the next function left. A configuration one preset rejects is rejected by the other.
\<close>

theorem presets_agree_on_streams:
  fixes "next" :: "(breaker \<times> 'w, 'p) stream_client"
  shows "case Standalone env cfg of
      Inl e \<Rightarrow> \<exists>e'. Mesh env (mesh_of cfg) = Inl e'
    | Inr (ics, b) \<Rightarrow> \<exists>ics'. Mesh env (mesh_of cfg) = Inr ics' \<and> stream_chain env ics next = stream_chain env ics' next \<and>
        (\<forall>ctx sp b0 w. fst (snd (stream_chain env ics next ctx sp (b0, w))) = fst (snd (next ctx sp (b0, w))))"
proof (cases "Standalone env cfg")
  case (Inl e)
  then show ?thesis by (auto simp: Standalone_def Mesh_def mesh_of_def Let_def split: option.splits sum.splits)
next
  case (Inr x)
  obtain ics b where x: "x = (ics, b)" by (cases x)
  obtain ics' where m: "Mesh env (mesh_of cfg) = Inr ics'"
    using Inr by (auto simp: Standalone_def Mesh_def mesh_of_def Let_def split: option.splits sum.splits)
  obtain auth where s: "stream_chain env ics next = stream_stack env (preset_otel env cfg) auth next"
    and sa: "case sAuth cfg of None \<Rightarrow> auth = None | Some opts \<Rightarrow> (\<exists>a. auth_Interceptor opts = Inr a \<and> auth = Some a)"
    using Standalone_stream Inr x by blast
  obtain auth' where s': "stream_chain env ics' next = stream_stack env (preset_otel env cfg) auth' next"
    and sa': "case sAuth cfg of None \<Rightarrow> auth' = None | Some opts \<Rightarrow> (\<exists>a. auth_Interceptor opts = Inr a \<and> auth' = Some a)"
    using Mesh_stream [OF m] by blast
  have "auth = auth'" using sa sa' by (auto split: option.splits)
  moreover have "fst (snd (stream_stack env (preset_otel env cfg) auth next ctx sp (b0, w))) = fst (snd (next ctx sp (b0, w)))" for ctx sp b0 w
    using stream_stack_breaker [of env "preset_otel env cfg" auth "next" ctx sp b0 w] by (metis prod.collapse)
  ultimately show ?thesis using Inr x m s s' by simp
qed

text \<open>
  [C37] A stream through a preset with credentials carries them or fails before it is used: the stream
  is opened once, then the token is fetched; with a token the request header carries it in the
  configured form when the caller sends, and messages go straight to the opened stream; without
  one every send and receive fails with Unauthenticated and touches nothing, while closing still
  closes the opened stream. The trace propagator writes its own headers only, and the request id
  has another header than the credential.
\<close>

theorem preset_stream_credential:
  fixes "next" :: "(breaker \<times> 'w, 'p) stream_client"
  assumes "Standalone env cfg = Inr (ics, b)" and "sAuth cfg = Some opts" and "auth_Interceptor opts = Inr a" and "authSkip a = None"
    and "\<And>c h. hdr_get (Inject (oPropagator (preset_otel env cfg)) c h) (authHeader a) = hdr_get h (authHeader a)"
    and "CanonicalHeaderKey (authHeader a) \<noteq> CanonicalHeaderKey (oRequestIDHeader (preset_otel env cfg))"
    and "next ctx sp (b0, w) = (conn, b1, w1)" and "authSource a ctx w1 = (t, w2)"
    and "stream_chain env ics next ctx sp (b0, w) = (conn', b2, w3)"
  shows "case t of
      Inr tok \<Rightarrow> hdr_get (scHeader conn') (authHeader a) = authFormat a tok \<and> scSend conn' = scSend conn \<and> scReceive conn' = scReceive conn
    | Inl e \<Rightarrow> (\<forall>m v. scSend conn' m v = (Some (EConnect CodeUnauthenticated (EWrap ''auth: token'' e) []), v) \<and>
          scReceive conn' m v = (Some (EConnect CodeUnauthenticated (EWrap ''auth: token'' e) []), v)) \<and>
        (\<forall>v. fst (scCloseResponse conn' v) \<noteq> None)"
proof -
  obtain auth where "stream_chain env ics next = stream_stack env (preset_otel env cfg) auth next" "auth = Some a"
    using Standalone_stream [OF assms(1), of "next"] assms(2,3) by auto
  then have run: "otel_WrapStreamingClient (lift_api (pApi env)) (lift_otel (preset_otel env cfg))
      (auth_WrapStreamingClient (lift_auth a) next) ctx sp (b0, w) = (conn', b2, w3)"
    using assms(9) by (simp add: stream_stack_def)
  define c1 where "c1 = (case t of
      Inl e \<Rightarrow> failedStreamingConn (EConnect CodeUnauthenticated (EWrap ''auth: token'' e) []) conn
    | Inr tok \<Rightarrow> conn\<lparr>scHeader := hdr_set (scHeader conn) (authHeader a) (authFormat a tok)\<rparr>)"
  have c1: "auth_WrapStreamingClient (lift_auth a) next ctx sp (b0, w) = (c1, b1, w2)"
    using assms(4,7,8) by (auto simp: auth_WrapStreamingClient_def attach_def lift_auth_def lift_io_def c1_def split: sum.splits)
  obtain y h' b' w' where st: "otel_start (lift_api (pApi env)) (lift_otel (preset_otel env cfg)) ctx sp SpanKindClient (scHeader c1, b1, w2) = (y, h', b', w')"
    by (metis surj_pair)
  have hd: "hdr_get h' (authHeader a) = hdr_get (scHeader c1) (authHeader a)"
    using assms(5,6) by (intro otel_start_header [OF st]) (simp_all add: lift_otel_def)
  have conn': "scHeader conn' = h'" "scSend conn' = scSend c1" "scReceive conn' = scReceive c1"
      "\<exists>spn. scCloseResponse conn' = traced_CloseResponse (lift_api (pApi env)) spn (c1\<lparr>scHeader := h'\<rparr>)"
    using run c1 st by (auto simp: otel_WrapStreamingClient_def Let_def split: prod.splits)
  show ?thesis
    using conn' hd by (cases t) (auto simp: c1_def failedStreamingConn_def traced_CloseResponse_def Let_def split: prod.splits)
qed

section \<open>A concrete stream\<close>

definition demo_conn :: "(breaker \<times> demo_world, nat) stream_conn" where
  "demo_conn = \<lparr>scHeader = [], scSend = (\<lambda>m w. (None, w)), scReceive = (\<lambda>m w. (None, w)), scCloseRequest = (\<lambda>w. (None, w)),
     scCloseResponse = (\<lambda>w. (None, w))\<rparr>"

definition demo_open :: "(breaker \<times> demo_world, nat) stream_client" where
  "demo_open ctx sp w = (demo_conn, w)"

theorem preset_stream_credential_witness:
  "hdr_get (scHeader (fst (stream_chain demo_penv demo_ics demo_open background demo_call (breaker_New breaker_DefaultConfig, [], 0))))
     ''Authorization'' = ''t''"
proof -
  let ?w = "([], 0) :: demo_world" and ?b = "breaker_New breaker_DefaultConfig"
  obtain conn' b2 w3 where run: "stream_chain demo_penv demo_ics demo_open background demo_call (?b, ?w) = (conn', b2, w3)" by (metis surj_pair)
  have a: "auth_Interceptor (the (sAuth demo_pcfg)) = Inr demo_auth_ic" "sAuth demo_pcfg = Some (the (sAuth demo_pcfg))"
    by (simp_all add: demo_pcfg_def auth_Interceptor_def demo_auth_ic_def)
  have o: "Inject (oPropagator (preset_otel demo_penv demo_pcfg)) c h = h" "oRequestIDHeader (preset_otel demo_penv demo_pcfg) = ''X-Request-ID''" for c h
    by (simp_all add: otel_Interceptor_def demo_penv_def silent_api_def demo_pcfg_def deref_def zero_otel_options_def)
  have k: "CanonicalHeaderKey (authHeader demo_auth_ic) \<noteq> CanonicalHeaderKey (oRequestIDHeader (preset_otel demo_penv demo_pcfg))"
    unfolding o(2) by (rule CanonicalHeaderKey_length_neq) (simp add: demo_auth_ic_def)
  have src: "authSource demo_auth_ic background ?w = (Inr ''t'', ?w)" by (simp add: demo_auth_ic_def StaticBearer_def)
  have "case Inr ''t'' :: err + string of
      Inr tok \<Rightarrow> hdr_get (scHeader conn') (authHeader demo_auth_ic) = authFormat demo_auth_ic tok \<and> scSend conn' = scSend demo_conn \<and> scReceive conn' = scReceive demo_conn
    | Inl e \<Rightarrow> (\<forall>m v. scSend conn' m v = (Some (EConnect CodeUnauthenticated (EWrap ''auth: token'' e) []), v) \<and>
          scReceive conn' m v = (Some (EConnect CodeUnauthenticated (EWrap ''auth: token'' e) []), v)) \<and>
        (\<forall>v. fst (scCloseResponse conn' v) \<noteq> None)"
    by (rule preset_stream_credential [OF demo_standalone a(2,1) _ _ k _ src run]) (simp_all add: demo_auth_ic_def o(1) demo_open_def)
  then show ?thesis using run by (simp add: demo_auth_ic_def)
qed

end
