(* ===== verification/Encoding.thy ===== *)
theory Encoding
  imports Prelude "HOL-Library.Word" "HOL-Library.List_Lexorder" "HOL-Library.Char_ord"
begin

text \<open>
  The encodings of the standard library that the OAuth sources use on the wire: base64
  (\<^verbatim>\<open>RawURLEncoding\<close> of the PKCE values, \<^verbatim>\<open>StdEncoding\<close> inside \<^verbatim>\<open>SetBasicAuth\<close>) and
  \<^verbatim>\<open>url.Values\<close> with its \<^verbatim>\<open>Encode\<close>. Each is proved to be inverted by the decoder the
  receiving side runs.
\<close>

section \<open>Base64\<close>

definition url_alphabet :: string where
  "url_alphabet = ''ABCDEFGHIJKLMNOPQRSTUVWXYZabcdefghijklmnopqrstuvwxyz0123456789-_''"

definition std_alphabet :: string where
  "std_alphabet = ''ABCDEFGHIJKLMNOPQRSTUVWXYZabcdefghijklmnopqrstuvwxyz0123456789+/''"

text \<open>Groups of three bytes become four sextets, most significant first.\<close>

fun sextets :: "nat list \<Rightarrow> nat list" where
  "sextets (a # b # c # bs) =
     (let v = a * 65536 + b * 256 + c in [v div 262144, v div 4096 mod 64, v div 64 mod 64, v mod 64] @ sextets bs)"
| "sextets [a, b] = (let v = a * 65536 + b * 256 in [v div 262144, v div 4096 mod 64, v div 64 mod 64])"
| "sextets [a] = (let v = a * 65536 in [v div 262144, v div 4096 mod 64])"
| "sextets [] = []"

definition EncodeRaw :: "string \<Rightarrow> nat list \<Rightarrow> string" where
  "EncodeRaw alphabet bs = map (\<lambda>s. alphabet ! s) (sextets bs)"

definition EncodePadded :: "string \<Rightarrow> nat list \<Rightarrow> string" where
  "EncodePadded alphabet bs =
     EncodeRaw alphabet bs @ replicate (case length bs mod 3 of 0 \<Rightarrow> 0 | Suc 0 \<Rightarrow> 2 | _ \<Rightarrow> 1) CHR ''=''"

fun unsextets :: "nat list \<Rightarrow> nat list" where
  "unsextets (p # q # r # s # ss) =
     (let v = p * 262144 + q * 4096 + r * 64 + s in [v div 65536, v div 256 mod 256, v mod 256] @ unsextets ss)"
| "unsextets [p, q, r] = (let v = p * 262144 + q * 4096 + r * 64 in [v div 65536, v div 256 mod 256])"
| "unsextets [p, q] = (let v = p * 262144 + q * 4096 in [v div 65536])"
| "unsextets _ = []"

fun index_of :: "char \<Rightarrow> string \<Rightarrow> nat" where
  "index_of c [] = 0"
| "index_of c (x # xs) = (if x = c then 0 else Suc (index_of c xs))"

definition DecodeRaw :: "string \<Rightarrow> string \<Rightarrow> nat list" where
  "DecodeRaw alphabet s = unsextets (map (\<lambda>c. index_of c alphabet) s)"

lemma index_of_nth: "distinct xs \<Longrightarrow> i < length xs \<Longrightarrow> index_of (xs ! i) xs = i"
proof (induction xs arbitrary: i)
  case (Cons x xs)
  then show ?case by (cases i) (auto simp: nth_mem)
qed simp

lemma base64_group:
  fixes a b c :: nat
  assumes "a < 256" and "b < 256" and "c < 256"
  defines "v \<equiv> a * 65536 + b * 256 + c"
  shows "v div 262144 * 262144 + v div 4096 mod 64 * 4096 + v div 64 mod 64 * 64 + v mod 64 = v"
    and "v div 65536 = a" and "v div 256 mod 256 = b" and "v mod 256 = c"
    and "v div 262144 < 64"
proof -
  have "v mod 4096 = v div 64 mod 64 * 64 + v mod 64"
    using mod_mult2_eq [of v 64 64] by (simp add: mult.commute)
  moreover have "v mod 262144 = v div 4096 mod 64 * 4096 + v mod 4096"
    using mod_mult2_eq [of v 4096 64] by (simp add: mult.commute)
  moreover have "v div 262144 * 262144 + v mod 262144 = v" by (rule div_mult_mod_eq)
  ultimately show "v div 262144 * 262144 + v div 4096 mod 64 * 4096 + v div 64 mod 64 * 64 + v mod 64 = v" by linarith
  have v: "v = (a * 256 + b) * 256 + c" by (simp add: v_def)
  then have d: "v div 256 = a * 256 + b" using assms(3) by simp
  show "v div 256 mod 256 = b" unfolding d using assms(2) by (simp add: mod_less)
  show "v mod 256 = c" using v assms(3) mod_mult_self3 [of "a * 256 + b" 256 c] by simp
  have "v div 65536 = v div 256 div 256" by (simp add: div_mult2_eq [symmetric])
  then show "v div 65536 = a" unfolding d using assms(2) by simp
  show "v div 262144 < 64" using assms by (simp add: v_def less_mult_imp_div_less)
qed

lemma unsextets_sextets: "list_all (\<lambda>b. b < 256) bs \<Longrightarrow> unsextets (sextets bs) = bs"
proof (induction bs rule: sextets.induct)
  case (1 a b c bs)
  then show ?case using base64_group [of a b c] by (simp add: Let_def)
next
  case (2 a b)
  then show ?case using base64_group [of a b 0] by (simp add: Let_def)
next
  case (3 a)
  then show ?case using base64_group [of a 0 0] by (simp add: Let_def)
qed simp

lemma sextets_less: "list_all (\<lambda>b. b < 256) bs \<Longrightarrow> s \<in> set (sextets bs) \<Longrightarrow> s < 64"
proof (induction bs rule: sextets.induct)
  case (1 a b c bs)
  then show ?case using base64_group(5) [of a b c] by (auto simp: Let_def)
next
  case (2 a b)
  then show ?case using base64_group(5) [of a b 0] by (auto simp: Let_def)
next
  case (3 a)
  then show ?case using base64_group(5) [of a 0 0] by (auto simp: Let_def)
qed simp

lemma length_sextets: "length (sextets bs) = (4 * length bs + 2) div 3"
  by (induction bs rule: sextets.induct) (auto simp: Let_def)

lemma length_EncodeRaw [simp]: "length (EncodeRaw alphabet bs) = (4 * length bs + 2) div 3"
  by (simp add: EncodeRaw_def length_sextets)

lemma alphabet_lengths [simp]: "length url_alphabet = 64" "length std_alphabet = 64"
  by (simp_all add: url_alphabet_def std_alphabet_def)

lemma alphabet_distinct [simp]: "distinct url_alphabet" "distinct std_alphabet"
  by code_simp+

lemma DecodeRaw_EncodeRaw:
  assumes "distinct alphabet" and "length alphabet = 64" and "list_all (\<lambda>b. b < 256) bs"
  shows "DecodeRaw alphabet (EncodeRaw alphabet bs) = bs"
proof -
  have "map (\<lambda>c. index_of c alphabet) (EncodeRaw alphabet bs) = sextets bs"
    using sextets_less [OF assms(3)] assms(1,2) by (auto simp: EncodeRaw_def index_of_nth intro!: map_idI)
  then show ?thesis using unsextets_sextets [OF assms(3)] by (simp add: DecodeRaw_def)
qed

lemma set_EncodeRaw:
  assumes "length alphabet = 64" and "list_all (\<lambda>b. b < 256) bs"
  shows "set (EncodeRaw alphabet bs) \<subseteq> set alphabet"
  using sextets_less [OF assms(2)] assms(1) by (auto simp: EncodeRaw_def)

section \<open>Form values\<close>

text \<open>
  \<^verbatim>\<open>url.Values\<close> is a map from names to value lists, an association list here. \<^verbatim>\<open>Encode\<close> writes the
  names in byte order, every value of a name in turn, escaped as query components.
\<close>

type_synonym url_values = "(string \<times> string list) list"

definition values_set :: "string \<Rightarrow> string \<Rightarrow> url_values \<Rightarrow> url_values" where
  "values_set k v form = AList.update k [v] form"

definition values_get :: "string \<Rightarrow> url_values \<Rightarrow> string" where
  "values_get k form = (case map_of form k of Some (v # _) \<Rightarrow> v | _ \<Rightarrow> [])"

text \<open>\<^verbatim>\<open>maps.Copy\<close>.\<close>

definition maps_Copy :: "url_values \<Rightarrow> url_values \<Rightarrow> url_values" where
  "maps_Copy dst src = foldl (\<lambda>d (k, vs). AList.update k vs d) dst src"

definition unreserved :: "char \<Rightarrow> bool" where
  "unreserved c \<longleftrightarrow> c \<in> set (url_alphabet @ ''.~'')"

definition upper_hex :: "nat \<Rightarrow> char" where
  "upper_hex n = ''0123456789ABCDEF'' ! n"

definition escape_char :: "char \<Rightarrow> string" where
  "escape_char c =
     (if unreserved c then [c] else if c = CHR '' '' then ''+''
      else [CHR ''%'', upper_hex (of_char c div 16), upper_hex (of_char c mod 16)])"

definition QueryEscape :: "string \<Rightarrow> string" where
  "QueryEscape s = concat (map escape_char s)"

definition Encode :: "url_values \<Rightarrow> string" where
  "Encode v = join_strings (concat (map (\<lambda>(k, vs). map (\<lambda>x. QueryEscape k @ ''='' @ QueryEscape x) vs) (sort_key fst v))) ''&''"

text \<open>The receiving side: split at the separators, then at the first equals sign, then unescape.\<close>

fun split_on :: "char \<Rightarrow> string \<Rightarrow> string list" where
  "split_on c [] = [[]]"
| "split_on c (x # xs) =
     (if x = c then [] # split_on c xs
      else case split_on c xs of [] \<Rightarrow> [[x]] | y # ys \<Rightarrow> (x # y) # ys)"

definition unhex :: "char \<Rightarrow> nat" where
  "unhex c = index_of c ''0123456789ABCDEF''"

fun QueryUnescape :: "string \<Rightarrow> string" where
  "QueryUnescape [] = []"
| "QueryUnescape (c # s) =
     (if c = CHR ''+'' then CHR '' '' # QueryUnescape s
      else if c = CHR ''%'' then
        (case s of a # b # t \<Rightarrow> char_of (unhex a * 16 + unhex b) # QueryUnescape t | _ \<Rightarrow> [])
      else c # QueryUnescape s)"

definition cut_eq :: "string \<Rightarrow> string \<times> string" where
  "cut_eq s = (takeWhile (\<lambda>c. c \<noteq> CHR ''='') s, drop 1 (dropWhile (\<lambda>c. c \<noteq> CHR ''='') s))"

definition ParseForm :: "string \<Rightarrow> (string \<times> string) list" where
  "ParseForm s = (if s = [] then [] else map (map_prod QueryUnescape QueryUnescape \<circ> cut_eq) (split_on CHR ''&'' s))"

lemma split_on_nonempty: "split_on c s \<noteq> []"
  by (induction s) (auto split: list.splits)

lemma split_on_fresh: "c \<notin> set s \<Longrightarrow> split_on c s = [s]"
  by (induction s) auto

lemma split_on_append: "c \<notin> set s \<Longrightarrow> split_on c (s @ c # t) = s # split_on c t"
  by (induction s) auto

lemma split_on_join:
  "ss \<noteq> [] \<Longrightarrow> (\<And>s. s \<in> set ss \<Longrightarrow> c \<notin> set s) \<Longrightarrow> split_on c (join_strings ss [c]) = ss"
proof (induction ss "[c]" rule: join_strings.induct)
  case (2 s)
  then show ?case by (simp add: split_on_fresh)
next
  case (3 s t ss)
  then show ?case by (simp add: split_on_append)
qed simp

lemma upper_hex_unhex: "n < 16 \<Longrightarrow> unhex (upper_hex n) = n"
proof -
  have "distinct ''0123456789ABCDEF''" by code_simp
  then show "n < 16 \<Longrightarrow> unhex (upper_hex n) = n"
    unfolding unhex_def upper_hex_def by (intro index_of_nth) simp_all
qed

lemma upper_hex_in: "n < 16 \<Longrightarrow> upper_hex n \<in> set ''0123456789ABCDEF''"
  unfolding upper_hex_def by (intro nth_mem) simp

lemma upper_hex_neq: "n < 16 \<Longrightarrow> d \<in> {CHR ''&'', CHR ''=''} \<Longrightarrow> upper_hex n \<noteq> d"
  using upper_hex_in [of n] by auto

lemma escape_char_fresh:
  assumes "d \<in> {CHR ''&'', CHR ''=''}"
  shows "d \<notin> set (escape_char c)"
proof -
  have "unreserved c \<Longrightarrow> c \<noteq> d" using assms by (auto simp: unreserved_def url_alphabet_def)
  moreover have "of_char c div 16 < (16 :: nat)" using nat_of_char_less_256 [of c] by (simp add: less_mult_imp_div_less)
  then have "upper_hex (of_char c div 16) \<noteq> d" "upper_hex (of_char c mod 16) \<noteq> d"
    using upper_hex_neq [OF _ assms] by auto
  ultimately show ?thesis using assms by (auto simp: escape_char_def)
qed

lemma QueryEscape_fresh: "d \<in> {CHR ''&'', CHR ''=''} \<Longrightarrow> d \<notin> set (QueryEscape s)"
  using escape_char_fresh by (auto simp: QueryEscape_def)

lemma QueryUnescape_char: "QueryUnescape (escape_char c @ s) = c # QueryUnescape s"
proof -
  have "of_char c div 16 < (16 :: nat)" using nat_of_char_less_256 [of c] by (simp add: less_mult_imp_div_less)
  then have "unhex (upper_hex (of_char c div 16)) * 16 + unhex (upper_hex (of_char c mod 16)) = of_char c"
    by (simp add: upper_hex_unhex)
  moreover have "unreserved c \<Longrightarrow> c \<noteq> CHR ''+'' \<and> c \<noteq> CHR ''%''" by (auto simp: unreserved_def url_alphabet_def)
  ultimately show ?thesis by (simp add: escape_char_def)
qed

lemma QueryUnescape_QueryEscape [simp]: "QueryUnescape (QueryEscape s) = s"
proof (induction s)
  case (Cons c s)
  then show ?case using QueryUnescape_char [of c "QueryEscape s"] by (simp add: QueryEscape_def)
qed (simp add: QueryEscape_def)

lemma QueryEscape_unreserved: "list_all unreserved s \<Longrightarrow> QueryEscape s = s"
  by (induction s) (simp_all add: QueryEscape_def escape_char_def)

lemma cut_eq_pair: "CHR ''='' \<notin> set a \<Longrightarrow> cut_eq (a @ ''='' @ b) = (a, b)"
  by (simp add: cut_eq_def takeWhile_append2 dropWhile_append2 cong: if_cong) (auto simp: takeWhile_append dropWhile_append)

text \<open>A form is read back as it was written, names in byte order.\<close>

lemma ParseForm_Encode:
  "ParseForm (Encode v) = concat (map (\<lambda>(k, vs). map (\<lambda>x. (k, x)) vs) (sort_key fst v))"
proof -
  define pairs where "pairs = concat (map (\<lambda>(k, vs). map (\<lambda>x. (k, x)) vs) (sort_key fst v))"
  let ?enc = "\<lambda>(k, x). QueryEscape k @ ''='' @ QueryEscape x"
  have enc: "Encode v = join_strings (map ?enc pairs) ''&''"
    by (simp add: Encode_def pairs_def map_concat comp_def case_prod_unfold)
  have inv: "map_prod QueryUnescape QueryUnescape (cut_eq (?enc p)) = p" for p
    using cut_eq_pair [OF QueryEscape_fresh] by (cases p) simp
  have "ParseForm (Encode v) = pairs"
  proof (cases "pairs = []")
    case True
    then show ?thesis unfolding enc by (simp add: ParseForm_def)
  next
    case False
    have fresh: "CHR ''&'' \<notin> set s" if "s \<in> set (map ?enc pairs)" for s
      using that QueryEscape_fresh [of "CHR ''&''"] by auto
    have "split_on CHR ''&'' (Encode v) = map ?enc pairs"
      unfolding enc using False fresh by (intro split_on_join) auto
    moreover from this have "Encode v \<noteq> []" using fresh False by (cases pairs) (auto split: if_splits)
    ultimately show ?thesis using inv by (simp add: ParseForm_def comp_def)
  qed
  then show ?thesis by (simp only: pairs_def)
qed

end
