(* ===== verification/Oauth.thy ===== *)
theory Oauth
  imports Http Encoding
begin

text \<open>
  The request side of \<^verbatim>\<open>src/oauth\<close>: the typed error (\<^verbatim>\<open>errors.go\<close>), the client authentication
  modes (\<^verbatim>\<open>client_auth.go\<close>), the token response (\<^verbatim>\<open>token_response.go\<close>), the shared token
  endpoint request (\<^verbatim>\<open>token_endpoint.go\<close>), PKCE (\<^verbatim>\<open>pkce.go\<close>), discovery (\<^verbatim>\<open>discovery.go\<close>) and the
  authorization-code flow (\<^verbatim>\<open>authcode.go\<close>). The HTTP client is part of each configuration;
  the JSON decoder, the URL parser, SHA-256, \<^verbatim>\<open>%q\<close> and \<^verbatim>\<open>Error()\<close> are the record \<open>oauth_lib\<close>. A
  decoded structure has the zero value in the fields its document leaves out.
\<close>

section \<open>Errors\<close>

definition ErrorCodeInvalidRequest :: string where "ErrorCodeInvalidRequest = ''invalid_request''"
definition ErrorCodeInvalidClient :: string where "ErrorCodeInvalidClient = ''invalid_client''"
definition ErrorCodeInvalidGrant :: string where "ErrorCodeInvalidGrant = ''invalid_grant''"
definition ErrorCodeUnauthorizedClient :: string where "ErrorCodeUnauthorizedClient = ''unauthorized_client''"
definition ErrorCodeUnsupportedGrantType :: string where "ErrorCodeUnsupportedGrantType = ''unsupported_grant_type''"
definition ErrorCodeInvalidScope :: string where "ErrorCodeInvalidScope = ''invalid_scope''"
definition ErrorCodeInvalidIssuer :: string where "ErrorCodeInvalidIssuer = ''invalid_issuer''"
definition ErrorCodeInvalidVerifier :: string where "ErrorCodeInvalidVerifier = ''invalid_verifier''"
definition ErrorCodeTransport :: string where "ErrorCodeTransport = ''transport''"

lemmas oauth_codes = ErrorCodeInvalidRequest_def ErrorCodeInvalidClient_def ErrorCodeInvalidGrant_def
  ErrorCodeUnauthorizedClient_def ErrorCodeUnsupportedGrantType_def ErrorCodeInvalidScope_def ErrorCodeInvalidIssuer_def
  ErrorCodeInvalidVerifier_def ErrorCodeTransport_def

text \<open>\<^verbatim>\<open>&OAuthError{Code: c, Description: d}\<close>, the other fields zero.\<close>

abbreviation oauth_error :: "string \<Rightarrow> string \<Rightarrow> err" where
  "oauth_error c d \<equiv> EOAuth None c d [] 0"

text \<open>The first \<^verbatim>\<open>*OAuthError\<close> of a chain, as \<^verbatim>\<open>errors.As\<close> finds it: its code, description and status.\<close>

fun as_oauth :: "err \<Rightarrow> (string \<times> string \<times> int) option" where
  "as_oauth (EText m) = None"
| "as_oauth (ESentinel t) = None"
| "as_oauth (EWrap m e) = as_oauth e"
| "as_oauth (EConnect c e ds) = as_oauth e"
| "as_oauth (EOAuth w c d u h) = Some (c, d, h)"
| "as_oauth (EJoin e f) = (case as_oauth e of Some x \<Rightarrow> Some x | None \<Rightarrow> as_oauth f)"

fun oauth_Error :: "err \<Rightarrow> string" where
  "oauth_Error (EOAuth w c d u h) = (if d \<noteq> [] then ''oauth: '' @ c @ '': '' @ d else ''oauth: '' @ c)"
| "oauth_Error _ = []"

fun oauth_Unwrap :: "err \<Rightarrow> err option" where
  "oauth_Unwrap (EOAuth w c d u h) = w"
| "oauth_Unwrap _ = None"

fun oauth_Is :: "err \<Rightarrow> err \<Rightarrow> bool" where
  "oauth_Is (EOAuth w c d u h) target = (case as_oauth target of None \<Rightarrow> False | Some (c', _, _) \<Rightarrow> c = c')"
| "oauth_Is _ target = False"

record token_error_payload =
  peError :: string
  peDescription :: string
  peURI :: string

record TokenResponse =
  trAccessToken :: string
  TokenType :: string
  RefreshToken :: string
  Scope :: string
  IDToken :: string
  ExpiresIn :: int

record mtls_aliases =
  alTokenEndpoint :: string
  alRevocationEndpoint :: string
  alIntrospectionEndpoint :: string
  alUserInfoEndpoint :: string

record OidcMetadata =
  MtlsEndpointAliases :: "mtls_aliases option"
  mdIssuer :: string
  mdAuthorizationEndpoint :: string
  mdTokenEndpoint :: string
  mdUserInfoEndpoint :: string
  mdJwksURI :: string
  mdIntrospectionEndpoint :: string
  mdRevocationEndpoint :: string
  mdEndSessionEndpoint :: string
  ScopesSupported :: "string list"
  ResponseTypesSupported :: "string list"
  GrantTypesSupported :: "string list"
  TokenEndpointAuthMethodsSupported :: "string list"
  CodeChallengeMethodsSupported :: "string list"

text \<open>A parsed URL: its scheme, host and query values; the rest of it decides how it is written
  again with another query.\<close>

record url =
  uScheme :: string
  uHost :: string
  uQuery :: url_values
  uWithQuery :: "string \<Rightarrow> string"

record oauth_lib =
  jsonToken :: "string \<Rightarrow> err + TokenResponse"
  jsonTokenError :: "string \<Rightarrow> err + token_error_payload"
  jsonMetadata :: "string \<Rightarrow> err + OidcMetadata"
  urlParse :: "string \<Rightarrow> err + url"
  newRequest :: "string \<Rightarrow> err option"
  sha256 :: "string \<Rightarrow> nat list"
  quoteText :: "string \<Rightarrow> string"
  goErrorText :: "err \<Rightarrow> string"

definition FromTokenEndpointError :: "oauth_lib \<Rightarrow> int \<Rightarrow> string \<Rightarrow> err" where
  "FromTokenEndpointError lib httpStatus body =
     (case jsonTokenError lib body of
        Inl _ \<Rightarrow> EOAuth None ErrorCodeInvalidRequest body [] httpStatus
      | Inr p \<Rightarrow>
          if peError p = [] then EOAuth None ErrorCodeInvalidRequest body [] httpStatus
          else EOAuth None (peError p) (peDescription p) (peURI p) httpStatus)"

definition FromTransportError :: "err \<Rightarrow> err" where
  "FromTransportError e = EOAuth (Some e) ErrorCodeTransport [] [] 0"

definition ParseTokenResponse :: "oauth_lib \<Rightarrow> string \<Rightarrow> err + TokenResponse" where
  "ParseTokenResponse lib body =
     (case jsonToken lib body of
        Inl e \<Rightarrow> Inl (EWrap ''oauth: decode token response'' e)
      | Inr resp \<Rightarrow>
          if trAccessToken resp = [] then Inl (EText ''oauth: token response missing access_token'')
          else if TokenType resp = [] then Inl (EText ''oauth: token response missing token_type'')
          else Inr resp)"

section \<open>The token endpoint\<close>

type_synonym ClientAuthMode = string

definition ClientAuthBasic :: ClientAuthMode where "ClientAuthBasic = ''basic''"
definition ClientAuthFormPost :: ClientAuthMode where "ClientAuthFormPost = ''form_post''"
definition ClientAuthNone :: ClientAuthMode where "ClientAuthNone = ''none''"
definition ClientAuthMtls :: ClientAuthMode where "ClientAuthMtls = ''mtls''"

lemmas auth_modes = ClientAuthBasic_def ClientAuthFormPost_def ClientAuthNone_def ClientAuthMtls_def

definition schemeHTTPS :: string where "schemeHTTPS = ''https''"
definition tokenEndpointBodyLimit :: int where "tokenEndpointBodyLimit = 2 ^ 20"

record oauth_request =
  orMethod :: string
  orURL :: string
  orHeader :: header
  orBody :: string

type_synonym 'w http_client = "ctx \<Rightarrow> oauth_request \<Rightarrow> ('w, err + http_response) io"

definition SetBasicAuth :: "string \<Rightarrow> string \<Rightarrow> header \<Rightarrow> header" where
  "SetBasicAuth user password h =
     hdr_set h ''Authorization''
       (''Basic '' @ EncodePadded std_alphabet (map of_char (user @ '':'' @ password)))"

definition applyClientAuth :: "url_values \<Rightarrow> ClientAuthMode \<Rightarrow> string \<Rightarrow> string \<Rightarrow> url_values" where
  "applyClientAuth form mode clientID clientSecret =
     (let form1 = values_set ''client_id'' clientID form
      in if mode = ClientAuthFormPost then values_set ''client_secret'' clientSecret form1 else form1)"

definition token_request ::
  "string \<Rightarrow> url_values \<Rightarrow> ClientAuthMode \<Rightarrow> string \<Rightarrow> string \<Rightarrow> oauth_request" where
  "token_request endpoint form authMode clientID clientSecret =
     (let h1 = hdr_set [] ''Content-Type'' ''application/x-www-form-urlencoded'';
          h2 = hdr_set h1 ''Accept'' ''application/json'';
          h3 = (if authMode = ClientAuthBasic then SetBasicAuth clientID clientSecret h2 else h2)
      in \<lparr>orMethod = ''POST'', orURL = endpoint, orHeader = h3, orBody = Encode form\<rparr>)"

definition postTokenRequest ::
  "oauth_lib \<Rightarrow> ctx \<Rightarrow> 'w http_client \<Rightarrow> string \<Rightarrow> url_values \<Rightarrow> ClientAuthMode \<Rightarrow> string \<Rightarrow> string \<Rightarrow>
   ('w, err + TokenResponse) io" where
  "postTokenRequest lib ctx client endpoint form0 authMode clientID clientSecret w =
     (let form = applyClientAuth form0 authMode clientID clientSecret in
      case newRequest lib endpoint of
        Some e \<Rightarrow> (Inl (EWrap ''oauth: build token request'' e), w)
      | None \<Rightarrow>
          (case client ctx (token_request endpoint form authMode clientID clientSecret) w of
             (Inl e, w1) \<Rightarrow> (Inl (FromTransportError e), w1)
           | (Inr resp, w1) \<Rightarrow>
               (case read_limited resp tokenEndpointBodyLimit of
                  Inl e \<Rightarrow> (Inl (EWrap ''oauth: read token response'' e), w1)
                | Inr body \<Rightarrow>
                    if \<not> status_ok (StatusCode resp) then (Inl (FromTokenEndpointError lib (StatusCode resp) body), w1)
                    else (ParseTokenResponse lib body, w1))))"

definition validateClientAuthMode :: "oauth_lib \<Rightarrow> ClientAuthMode \<Rightarrow> string \<Rightarrow> err option" where
  "validateClientAuthMode lib mode clientSecret =
     (if mode = ClientAuthBasic \<or> mode = ClientAuthFormPost then
        (if clientSecret = []
         then Some (oauth_error ErrorCodeInvalidRequest (''client_secret is required for AuthMode '' @ quoteText lib mode))
         else None)
      else if mode = ClientAuthNone \<or> mode = ClientAuthMtls then None
      else if mode = [] then Some (oauth_error ErrorCodeInvalidRequest ''AuthMode is required'')
      else Some (oauth_error ErrorCodeInvalidRequest (''unknown AuthMode '' @ quoteText lib mode)))"

definition validateHTTPSEndpoint :: "oauth_lib \<Rightarrow> string \<Rightarrow> string \<Rightarrow> err option" where
  "validateHTTPSEndpoint lib name raw =
     (case urlParse lib raw of
        Inl e \<Rightarrow> Some (oauth_error ErrorCodeInvalidRequest (name @ '' is not a valid URL: '' @ goErrorText lib e))
      | Inr u \<Rightarrow>
          if uScheme u \<noteq> schemeHTTPS then Some (oauth_error ErrorCodeInvalidRequest (name @ '' must use https'')) else None)"

section \<open>PKCE\<close>

record PkcePair =
  Verifier :: string
  Challenge :: string

definition pkce_Method :: "PkcePair \<Rightarrow> string" where "pkce_Method p = ''S256''"

definition PkcePairFromVerifier :: "oauth_lib \<Rightarrow> string \<Rightarrow> err + PkcePair" where
  "PkcePairFromVerifier lib verifier =
     (if length verifier < 43 \<or> 128 < length verifier
      then Inl (oauth_error ErrorCodeInvalidVerifier (''PKCE verifier must be 43-128 characters (RFC 7636 '' @ [CHR 0xC2, CHR 0xA7] @ ''4.1)''))
      else Inr \<lparr>Verifier = verifier, Challenge = EncodeRaw url_alphabet (sha256 lib verifier)\<rparr>)"

text \<open>The 32 random bytes, or the error of the random source.\<close>

definition GeneratePkcePair :: "oauth_lib \<Rightarrow> ('w, err + nat list) io \<Rightarrow> ('w, err + PkcePair) io" where
  "GeneratePkcePair lib rand32 w =
     (case rand32 w of
        (Inl e, w') \<Rightarrow> (Inl (EWrap ''oauth: read random bytes for PKCE verifier'' e), w')
      | (Inr buf, w') \<Rightarrow>
          (case PkcePairFromVerifier lib (EncodeRaw url_alphabet buf) of
             Inl e \<Rightarrow> (Inl (EWrap ''oauth: compute PKCE pair from generated verifier'' e), w')
           | Inr p \<Rightarrow> (Inr p, w')))"

section \<open>Properties\<close>

definition byte_list :: "nat list \<Rightarrow> bool" where
  "byte_list bs \<longleftrightarrow> list_all (\<lambda>b. b < 256) bs"

text \<open>
  [C25] PKCE: from 32 random bytes a pair is always produced. The verifier has the 43 characters that
  RFC 7636 asks for, all unreserved (they survive a query or a form unescaped), the random
  bytes can be read back from it, so distinct bytes give distinct verifiers; the challenge is the
  encoded digest of exactly this verifier and, for a 32-byte digest, has 43 characters too; and
  the pair recomputed from the stored verifier is the same pair.
\<close>

theorem pkce_pair_generated:
  assumes "rand32 w = (Inr buf, w')" and "length buf = 32" and "byte_list buf"
    and "\<And>v. length (sha256 lib v) = 32 \<and> byte_list (sha256 lib v)"
  shows "\<exists>p. GeneratePkcePair lib rand32 w = (Inr p, w') \<and> length (Verifier p) = 43 \<and>
    list_all unreserved (Verifier p) \<and> QueryEscape (Verifier p) = Verifier p \<and>
    DecodeRaw url_alphabet (Verifier p) = buf \<and>
    DecodeRaw url_alphabet (Challenge p) = sha256 lib (Verifier p) \<and> length (Challenge p) = 43 \<and>
    PkcePairFromVerifier lib (Verifier p) = Inr p"
proof -
  let ?v = "EncodeRaw url_alphabet buf"
  let ?p = "\<lparr>Verifier = ?v, Challenge = EncodeRaw url_alphabet (sha256 lib ?v)\<rparr>"
  have len: "length ?v = 43" using assms(2) by simp
  have "set ?v \<subseteq> set url_alphabet" using set_EncodeRaw [OF alphabet_lengths(1)] assms(3) by (simp add: byte_list_def)
  then have unres: "list_all unreserved ?v" by (auto simp: unreserved_def list_all_iff)
  then have esc: "QueryEscape ?v = ?v" by (rule QueryEscape_unreserved)
  have pair: "PkcePairFromVerifier lib ?v = Inr ?p" using len by (simp add: PkcePairFromVerifier_def)
  moreover have "GeneratePkcePair lib rand32 w = (Inr ?p, w')" using assms(1) pair by (simp add: GeneratePkcePair_def)
  moreover have "DecodeRaw url_alphabet ?v = buf" "DecodeRaw url_alphabet (Challenge ?p) = sha256 lib ?v"
    using assms(3,4) by (simp_all add: byte_list_def DecodeRaw_EncodeRaw)
  ultimately show ?thesis using len unres esc assms(4) by (intro exI [of _ ?p]) simp
qed

text \<open>What a form carries, as the token endpoint reads it.\<close>

definition form_pairs :: "url_values \<Rightarrow> (string \<times> string) set" where
  "form_pairs form = {(k, v). \<exists>vs. (k, vs) \<in> set form \<and> v \<in> set vs}"

lemma set_ParseForm: "set (ParseForm (Encode form)) = form_pairs form"
  by (auto simp: ParseForm_Encode form_pairs_def)

lemma form_pairs_set:
  assumes "distinct (map fst form)"
  shows "form_pairs (values_set k v form) = {p \<in> form_pairs form. fst p \<noteq> k} \<union> {(k, v)}"
proof -
  have d: "distinct (map fst (AList.update k [v] form))" using assms by (rule distinct_update)
  have "(a, vs) \<in> set (AList.update k [v] form) \<longleftrightarrow> (if a = k then vs = [v] else (a, vs) \<in> set form)" for a vs
    unfolding map_of_eq_Some_iff [OF d, symmetric] map_of_eq_Some_iff [OF assms, symmetric] by (auto simp: update_conv)
  then show ?thesis by (auto simp: form_pairs_def values_set_def split: if_splits)
qed

lemma distinct_values_set: "distinct (map fst form) \<Longrightarrow> distinct (map fst (values_set k v form))"
  by (simp add: values_set_def distinct_update)

lemma request_header_keys:
  "CanonicalHeaderKey ''Authorization'' \<noteq> CanonicalHeaderKey ''Content-Type''"
  "CanonicalHeaderKey ''Authorization'' \<noteq> CanonicalHeaderKey ''Accept''"
  by (rule CanonicalHeaderKey_length_neq, simp)+

text \<open>
  Where the client secret goes. A token request over a form without a \<^verbatim>\<open>client_secret\<close> of its own
  is read by the endpoint as that form with exactly one \<^verbatim>\<open>client_id\<close>; the secret is in the form in
  form-post mode only, in the Basic header (base64 of \<^verbatim>\<open>id:secret\<close>) in basic mode only, and in
  no part of the request in the other modes.
\<close>

theorem token_request_credentials:
  assumes "distinct (map fst form)" and "''client_secret'' \<notin> fst ` set form"
  shows "let req = token_request endpoint (applyClientAuth form mode cid secret) mode cid secret;
             sent = set (ParseForm (orBody req)); credential = hdr_get (orHeader req) ''Authorization''
    in {v. (''client_id'', v) \<in> sent} = {cid} \<and>
       {p \<in> sent. fst p \<notin> {''client_id'', ''client_secret''}} = {p \<in> form_pairs form. fst p \<noteq> ''client_id''} \<and>
       {v. (''client_secret'', v) \<in> sent} = (if mode = ClientAuthFormPost then {secret} else {}) \<and>
       credential = (if mode = ClientAuthBasic
         then ''Basic '' @ EncodePadded std_alphabet (map of_char (cid @ '':'' @ secret)) else [])"
proof -
  let ?req = "token_request endpoint (applyClientAuth form mode cid secret) mode cid secret"
  have no_secret: "(''client_secret'', v) \<notin> form_pairs form" for v
    using assms(2) by (auto simp: form_pairs_def image_iff)
  have body: "set (ParseForm (orBody ?req)) = {p \<in> form_pairs form. fst p \<noteq> ''client_id''} \<union> {(''client_id'', cid)} \<union>
      (if mode = ClientAuthFormPost then {(''client_secret'', secret)} else {})"
    using no_secret
    by (auto simp: token_request_def Let_def set_ParseForm applyClientAuth_def form_pairs_set assms(1) distinct_values_set)
  have "hdr_get (orHeader ?req) ''Authorization'' = (if mode = ClientAuthBasic
      then ''Basic '' @ EncodePadded std_alphabet (map of_char (cid @ '':'' @ secret)) else [])"
    by (simp add: token_request_def SetBasicAuth_def Let_def request_header_keys) (simp add: hdr_get_def)
  then show ?thesis unfolding Let_def body using no_secret by (intro conjI) (auto split: if_splits)
qed

text \<open>
  The typed boundary has holes: the package documents an \<^verbatim>\<open>*OAuthError\<close> for every failure the
  server or transport produces, but a body that breaks off, is not JSON or lacks a required
  field is reported by a plain error that \<^verbatim>\<open>errors.As\<close> does not find one in. (The decoder's own
  errors are not OAuth errors.)
\<close>

theorem token_errors_untyped:
  assumes "newRequest lib endpoint = None"
    and "client ctx (token_request endpoint (applyClientAuth form mode cid secret) mode cid secret) w = (Inr resp, w1)"
    and "status_ok (StatusCode resp)"
    and "\<And>b e. jsonToken lib b = Inl e \<Longrightarrow> as_oauth e = None" and "\<And>e. respErr resp = Some e \<Longrightarrow> as_oauth e = None"
  shows "case fst (postTokenRequest lib ctx client endpoint form mode cid secret w) of
      Inl e \<Rightarrow> as_oauth e = None
    | Inr tok \<Rightarrow> trAccessToken tok \<noteq> [] \<and> TokenType tok \<noteq> []"
  using assms
  by (auto simp: postTokenRequest_def ParseTokenResponse_def read_limited_def Let_def split: option.splits sum.splits if_splits)

section \<open>Concrete requests\<close>

definition demo_lib :: oauth_lib where
  "demo_lib = \<lparr>jsonToken = (\<lambda>b. if b = ''tok'' then Inr \<lparr>trAccessToken = ''at'', TokenType = ''Bearer'', RefreshToken = ''rt'',
       Scope = [], IDToken = [], ExpiresIn = 3600\<rparr> else Inl (EText ''bad json'')),
     jsonTokenError = (\<lambda>b. Inl (EText ''bad json'')), jsonMetadata = (\<lambda>b. Inl (EText ''bad json'')),
     urlParse = (\<lambda>u. Inr \<lparr>uScheme = (if take 6 u = ''https:'' then ''https'' else ''http''), uHost = ''h'', uQuery = [], uWithQuery = (\<lambda>q. u @ ''?'' @ q)\<rparr>),
     newRequest = (\<lambda>u. None), sha256 = (\<lambda>v. replicate 32 7), quoteText = (\<lambda>s. s), goErrorText = (\<lambda>e. ''failed'')\<rparr>"

theorem pkce_pair_generated_witness:
  "\<exists>p. GeneratePkcePair demo_lib (\<lambda>w. (Inr (replicate 32 255), w)) () = (Inr p, ()) \<and> length (Verifier p) = 43"
  using pkce_pair_generated [of "\<lambda>w. (Inr (replicate 32 255), w)" "()" "replicate 32 255" "()" demo_lib]
  by (auto simp: byte_list_def demo_lib_def list_all_iff)

theorem token_request_credentials_witness:
  "hdr_get (orHeader (token_request ''https://idp'' (applyClientAuth [(''grant_type'', [''x''])] ClientAuthNone ''id'' ''s3cret'')
     ClientAuthNone ''id'' ''s3cret'')) ''Authorization'' = []"
  using token_request_credentials [of "[(''grant_type'', [''x''])]" "''https://idp''" ClientAuthNone "''id''" "''s3cret''"]
  by (simp add: Let_def auth_modes)

theorem token_errors_untyped_witness:
  "\<exists>e. fst (postTokenRequest demo_lib \<lparr>ctxDeadline = None, ctxValues = []\<rparr>
      (\<lambda>c r w. (Inr \<lparr>StatusCode = 200, respHeader = [], respBytes = ''<html>'', respErr = None\<rparr>, w)) ''https://idp'' [] ClientAuthNone ''id'' [] ()) =
      Inl e \<and> as_oauth e = None"
proof -
  let ?resp = "\<lparr>StatusCode = 200, respHeader = [], respBytes = ''<html>'', respErr = None\<rparr> :: http_response"
  let ?client = "(\<lambda>c r w. (Inr ?resp, w)) :: unit http_client"
  have "case fst (postTokenRequest demo_lib \<lparr>ctxDeadline = None, ctxValues = []\<rparr> ?client ''https://idp'' [] ClientAuthNone ''id'' [] ()) of
      Inl e \<Rightarrow> as_oauth e = None | Inr tok \<Rightarrow> trAccessToken tok \<noteq> [] \<and> TokenType tok \<noteq> []"
    by (rule token_errors_untyped [where resp = ?resp]) (auto simp: demo_lib_def split: if_splits)
  moreover have "\<exists>e. fst (postTokenRequest demo_lib \<lparr>ctxDeadline = None, ctxValues = []\<rparr> ?client ''https://idp'' [] ClientAuthNone ''id'' [] ()) = Inl e"
    by (simp add: postTokenRequest_def demo_lib_def read_limited_def tokenEndpointBodyLimit_def ParseTokenResponse_def)
  ultimately show ?thesis by force
qed

end
