(* ===== verification/Oauth_Flow.thy ===== *)
theory Oauth_Flow
  imports Oauth "HOL-Library.Multiset"
begin

text \<open>
  OIDC discovery (\<^verbatim>\<open>src/oauth/discovery.go\<close>) and the authorization-code flow
  (\<^verbatim>\<open>src/oauth/authcode.go\<close>). \<^verbatim>\<open>validateAuthCodeConfig\<close> ranges over a map literal, whose order
  Go leaves open: it is the parameter \<open>ord\<close>, of which only that it permutes is used.
\<close>

section \<open>Discovery\<close>

record 'w DiscoverConfig =
  dcClient :: "'w http_client option"
  dcIssuer :: string

definition discoveryErrorBodyLimit :: int where "discoveryErrorBodyLimit = 4096"
definition discoveryBodyLimit :: int where "discoveryBodyLimit = 2 ^ 20"

definition TrimRight_slash :: "string \<Rightarrow> string" where
  "TrimRight_slash s = rev (dropWhile (\<lambda>c. c = CHR ''/'') (rev s))"

definition validateDiscoverConfig :: "oauth_lib \<Rightarrow> 'w DiscoverConfig \<Rightarrow> err option" where
  "validateDiscoverConfig lib cfg =
     (if dcIssuer cfg = [] then Some (oauth_error ErrorCodeInvalidIssuer ''issuer is required'')
      else if dcClient cfg = None then Some (oauth_error ErrorCodeInvalidRequest ''DiscoverConfig.Client is required'')
      else case urlParse lib (dcIssuer cfg) of
             Inl e \<Rightarrow> Some (oauth_error ErrorCodeInvalidIssuer (''issuer is not a valid URL: '' @ goErrorText lib e))
           | Inr u \<Rightarrow>
               if uScheme u \<noteq> ''https'' then Some (oauth_error ErrorCodeInvalidIssuer ''issuer must use https'') else None)"

text \<open>The error path keeps whatever could be read; the success path reads one byte past the limit.\<close>

definition parseDiscoveryResponse :: "oauth_lib \<Rightarrow> http_response \<Rightarrow> string \<Rightarrow> err + OidcMetadata" where
  "parseDiscoveryResponse lib resp expectedIssuer =
     (if \<not> status_ok (StatusCode resp) then
        (let body = take (nat discoveryErrorBodyLimit) (respBytes resp)
         in Inl (EOAuth None ErrorCodeInvalidIssuer (''discovery returned HTTP '' @ int_text (StatusCode resp) @ '': '' @ body) []
              (StatusCode resp)))
      else case read_limited resp (discoveryBodyLimit + 1) of
             Inl e \<Rightarrow> Inl (EWrap ''oauth: read discovery document'' e)
           | Inr body \<Rightarrow>
               if discoveryBodyLimit < int (length body)
               then Inl (oauth_error ErrorCodeInvalidIssuer (''discovery document exceeds '' @ int_text discoveryBodyLimit @ '' bytes''))
               else case jsonMetadata lib body of
                      Inl e \<Rightarrow> Inl (EWrap ''oauth: decode discovery document'' e)
                    | Inr md \<Rightarrow>
                        if mdIssuer md \<noteq> expectedIssuer
                        then Inl (oauth_error ErrorCodeInvalidIssuer
                               (''issuer mismatch: requested '' @ quoteText lib expectedIssuer @ '', document returned '' @ quoteText lib (mdIssuer md)))
                        else Inr md)"

definition discovery_request :: "string \<Rightarrow> oauth_request" where
  "discovery_request issuer =
     \<lparr>orMethod = ''GET'', orURL = TrimRight_slash issuer @ ''/.well-known/openid-configuration'',
      orHeader = hdr_set [] ''Accept'' ''application/json'', orBody = []\<rparr>"

definition Discover :: "oauth_lib \<Rightarrow> ctx \<Rightarrow> 'w DiscoverConfig \<Rightarrow> ('w, err + OidcMetadata) io" where
  "Discover lib ctx cfg w =
     (case validateDiscoverConfig lib cfg of
        Some e \<Rightarrow> (Inl e, w)
      | None \<Rightarrow>
          (case newRequest lib (orURL (discovery_request (dcIssuer cfg))) of
             Some e \<Rightarrow> (Inl (EWrap ''oauth: build discovery request'' e), w)
           | None \<Rightarrow>
               (case the (dcClient cfg) ctx (discovery_request (dcIssuer cfg)) w of
                  (Inl e, w1) \<Rightarrow> (Inl (FromTransportError e), w1)
                | (Inr resp, w1) \<Rightarrow> (parseDiscoveryResponse lib resp (dcIssuer cfg), w1))))"

section \<open>The authorization-code flow\<close>

record 'w AuthorizationCodeConfig =
  acClient :: "'w http_client option"
  acClientID :: string
  acClientSecret :: string
  acRedirectURI :: string
  acAuthorizationEndpoint :: string
  acTokenEndpoint :: string
  acAuthMode :: ClientAuthMode
  acScopes :: "string list"

record 'w AuthorizationCodeFromIssuerConfig =
  aiClient :: "'w http_client option"
  aiIssuer :: string
  aiClientID :: string
  aiClientSecret :: string
  aiRedirectURI :: string
  aiAuthMode :: ClientAuthMode
  aiScopes :: "string list"

type_synonym field_order = "(string \<times> string) list \<Rightarrow> (string \<times> string) list"

fun missing_field :: "(string \<times> string) list \<Rightarrow> err option" where
  "missing_field [] = None"
| "missing_field ((field, value) # fs) =
     (if value = [] then Some (oauth_error ErrorCodeInvalidRequest (field @ '' is required'')) else missing_field fs)"

definition auth_code_fields :: "'w AuthorizationCodeConfig \<Rightarrow> (string \<times> string) list" where
  "auth_code_fields cfg =
     [(''client_id'', acClientID cfg), (''redirect_uri'', acRedirectURI cfg),
      (''authorization_endpoint'', acAuthorizationEndpoint cfg), (''token_endpoint'', acTokenEndpoint cfg)]"

definition validateAuthCodeConfig :: "oauth_lib \<Rightarrow> field_order \<Rightarrow> 'w AuthorizationCodeConfig \<Rightarrow> err option" where
  "validateAuthCodeConfig lib ord cfg =
     (if acClient cfg = None then Some (oauth_error ErrorCodeInvalidRequest ''AuthorizationCodeConfig.Client is required'')
      else case missing_field (ord (auth_code_fields cfg)) of
             Some e \<Rightarrow> Some e
           | None \<Rightarrow>
               (case validateHTTPSEndpoint lib ''authorization_endpoint'' (acAuthorizationEndpoint cfg) of
                  Some e \<Rightarrow> Some e
                | None \<Rightarrow>
                    (case validateHTTPSEndpoint lib ''token_endpoint'' (acTokenEndpoint cfg) of
                       Some e \<Rightarrow> Some e
                     | None \<Rightarrow> validateClientAuthMode lib (acAuthMode cfg) (acClientSecret cfg))))"

text \<open>A flow is its validated configuration.\<close>

type_synonym 'w AuthorizationCodeFlow = "'w AuthorizationCodeConfig"

definition NewAuthorizationCodeFlow ::
  "oauth_lib \<Rightarrow> field_order \<Rightarrow> 'w AuthorizationCodeConfig \<Rightarrow> err + 'w AuthorizationCodeFlow" where
  "NewAuthorizationCodeFlow lib ord cfg =
     (case validateAuthCodeConfig lib ord cfg of Some e \<Rightarrow> Inl e | None \<Rightarrow> Inr cfg)"

text \<open>The endpoint a client of this mode uses.\<close>

definition pick_token_endpoint :: "OidcMetadata \<Rightarrow> ClientAuthMode \<Rightarrow> string" where
  "pick_token_endpoint md mode =
     (case MtlsEndpointAliases md of
        Some al \<Rightarrow> if mode = ClientAuthMtls \<and> alTokenEndpoint al \<noteq> [] then alTokenEndpoint al else mdTokenEndpoint md
      | None \<Rightarrow> mdTokenEndpoint md)"

definition NewAuthorizationCodeFlowFromIssuer ::
  "oauth_lib \<Rightarrow> field_order \<Rightarrow> ctx \<Rightarrow> 'w AuthorizationCodeFromIssuerConfig \<Rightarrow> ('w, err + 'w AuthorizationCodeFlow) io" where
  "NewAuthorizationCodeFlowFromIssuer lib ord ctx cfg w =
     (if aiClient cfg = None
      then (Inl (oauth_error ErrorCodeInvalidRequest ''AuthorizationCodeFromIssuerConfig.Client is required''), w)
      else case Discover lib ctx \<lparr>dcClient = aiClient cfg, dcIssuer = aiIssuer cfg\<rparr> w of
             (Inl e, w1) \<Rightarrow> (Inl e, w1)
           | (Inr md, w1) \<Rightarrow>
               (NewAuthorizationCodeFlow lib ord
                  \<lparr>acClient = aiClient cfg, acClientID = aiClientID cfg, acClientSecret = aiClientSecret cfg,
                   acRedirectURI = aiRedirectURI cfg, acAuthorizationEndpoint = mdAuthorizationEndpoint md,
                   acTokenEndpoint = pick_token_endpoint md (aiAuthMode cfg), acAuthMode = aiAuthMode cfg,
                   acScopes = aiScopes cfg\<rparr>, w1))"

definition set_scopes :: "string list \<Rightarrow> url_values \<Rightarrow> url_values" where
  "set_scopes scopes form = (if scopes \<noteq> [] then values_set ''scope'' (join_strings scopes '' '') form else form)"

definition auth_query :: "'w AuthorizationCodeConfig \<Rightarrow> string \<Rightarrow> PkcePair \<Rightarrow> url_values \<Rightarrow> url_values" where
  "auth_query cfg state pkce q0 =
     (let q = values_set ''response_type'' ''code'' q0;
          q = values_set ''client_id'' (acClientID cfg) q;
          q = values_set ''redirect_uri'' (acRedirectURI cfg) q;
          q = values_set ''state'' state q;
          q = values_set ''code_challenge'' (Challenge pkce) q;
          q = values_set ''code_challenge_method'' (pkce_Method pkce) q
      in set_scopes (acScopes cfg) q)"

definition BuildAuthorizationURL :: "oauth_lib \<Rightarrow> 'w AuthorizationCodeConfig \<Rightarrow> string \<Rightarrow> PkcePair \<Rightarrow> err + string" where
  "BuildAuthorizationURL lib cfg state pkce =
     (if state = [] then Inl (oauth_error ErrorCodeInvalidRequest ''state is required'')
      else if Challenge pkce = [] then Inl (oauth_error ErrorCodeInvalidVerifier ''PKCE challenge is empty'')
      else case urlParse lib (acAuthorizationEndpoint cfg) of
             Inl e \<Rightarrow> Inl (oauth_error ErrorCodeInvalidRequest (''authorization endpoint is not a valid URL: '' @ goErrorText lib e))
           | Inr u \<Rightarrow> Inr (uWithQuery u (Encode (auth_query cfg state pkce (uQuery u)))))"

abbreviation flow_post ::
  "oauth_lib \<Rightarrow> 'w AuthorizationCodeConfig \<Rightarrow> ctx \<Rightarrow> url_values \<Rightarrow> ('w, err + TokenResponse) io" where
  "flow_post lib cfg ctx form \<equiv>
     postTokenRequest lib ctx (the (acClient cfg)) (acTokenEndpoint cfg) form (acAuthMode cfg) (acClientID cfg) (acClientSecret cfg)"

definition Exchange ::
  "oauth_lib \<Rightarrow> 'w AuthorizationCodeConfig \<Rightarrow> ctx \<Rightarrow> string \<Rightarrow> string \<Rightarrow> ('w, err + TokenResponse) io" where
  "Exchange lib cfg ctx code verifier w =
     (if code = [] then (Inl (oauth_error ErrorCodeInvalidGrant ''code is empty''), w)
      else
        let form = values_set ''grant_type'' ''authorization_code'' [];
            form = values_set ''code'' code form;
            form = values_set ''redirect_uri'' (acRedirectURI cfg) form;
            form = values_set ''code_verifier'' verifier form
        in flow_post lib cfg ctx form w)"

definition Refresh ::
  "oauth_lib \<Rightarrow> 'w AuthorizationCodeConfig \<Rightarrow> ctx \<Rightarrow> string \<Rightarrow> ('w, err + TokenResponse) io" where
  "Refresh lib cfg ctx refreshToken w =
     (if refreshToken = [] then (Inl (oauth_error ErrorCodeInvalidGrant ''refresh_token is empty''), w)
      else
        let form = values_set ''grant_type'' ''refresh_token'' [];
            form = values_set ''refresh_token'' refreshToken form
        in flow_post lib cfg ctx (set_scopes (acScopes cfg) form) w)"

section \<open>Properties\<close>



definition https :: "oauth_lib \<Rightarrow> string \<Rightarrow> bool" where
  "https lib raw \<longleftrightarrow> (\<exists>u. urlParse lib raw = Inr u \<and> uScheme u = ''https'')"


lemma form_pairs_Nil [simp]: "form_pairs [] = {}"
  by (simp add: form_pairs_def)

lemma distinct_set_scopes: "distinct (map fst form) \<Longrightarrow> distinct (map fst (set_scopes scopes form))"
  by (simp add: set_scopes_def distinct_values_set)

lemma form_pairs_scopes:
  "distinct (map fst form) \<Longrightarrow>
   form_pairs (set_scopes scopes form) =
     (if scopes = [] then form_pairs form else {p \<in> form_pairs form. fst p \<noteq> ''scope''} \<union> {(''scope'', join_strings scopes '' '')})"
  by (simp add: set_scopes_def form_pairs_set)

text \<open>
  [C20] PKCE ties the two halves of the flow together: the URL the user is sent to carries exactly one
  state, the caller's, exactly one challenge, method S256, and keeps the endpoint's other query
  parameters; the exchange that follows carries the verifier; and the challenge decodes to the
  digest of that verifier, which is what the server checks.
\<close>

theorem authorization_code_binding:
  assumes "PkcePairFromVerifier lib v = Inr pkce" and "byte_list (sha256 lib v)"
    and "urlParse lib (acAuthorizationEndpoint flow) = Inr u" and "distinct (map fst (uQuery u))"
    and "state \<noteq> []" and "sha256 lib v \<noteq> []" and "code \<noteq> []" and "acClient flow = Some client"
    and "newRequest lib (acTokenEndpoint flow) = None"
  shows "\<exists>q req. BuildAuthorizationURL lib flow state pkce = Inr (uWithQuery u q) \<and>
    {x. (''state'', x) \<in> set (ParseForm q)} = {state} \<and>
    {x. (''code_challenge'', x) \<in> set (ParseForm q)} = {Challenge pkce} \<and>
    {x. (''code_challenge_method'', x) \<in> set (ParseForm q)} = {''S256''} \<and>
    {p \<in> set (ParseForm q). fst p \<notin> {''response_type'', ''client_id'', ''redirect_uri'', ''state'', ''code_challenge'', ''code_challenge_method'', ''scope''}} =
      {p \<in> form_pairs (uQuery u). fst p \<notin> {''response_type'', ''client_id'', ''redirect_uri'', ''state'', ''code_challenge'', ''code_challenge_method'', ''scope''}} \<and>
    snd (Exchange lib flow ctx code (Verifier pkce) w) = snd (client ctx req w) \<and> orURL req = acTokenEndpoint flow \<and>
    {x. (''code_verifier'', x) \<in> set (ParseForm (orBody req))} = {v} \<and>
    {x. (''code'', x) \<in> set (ParseForm (orBody req))} = {code} \<and>
    DecodeRaw url_alphabet (Challenge pkce) = sha256 lib v"
proof -
  have pk: "Verifier pkce = v" "Challenge pkce = EncodeRaw url_alphabet (sha256 lib v)"
    using assms(1) by (auto simp: PkcePairFromVerifier_def split: if_splits)
  have ch: "DecodeRaw url_alphabet (Challenge pkce) = sha256 lib v"
    using assms(2) by (simp add: pk byte_list_def DecodeRaw_EncodeRaw)
  have "Challenge pkce \<noteq> []" using ch assms(6) by (auto simp: DecodeRaw_def)
  then have url: "BuildAuthorizationURL lib flow state pkce = Inr (uWithQuery u (Encode (auth_query flow state pkce (uQuery u))))"
    using assms(3,5) by (simp add: BuildAuthorizationURL_def)
  have q: "set (ParseForm (Encode (auth_query flow state pkce (uQuery u)))) = form_pairs (auth_query flow state pkce (uQuery u))"
    by (rule set_ParseForm)
  let ?form = "values_set ''code_verifier'' v (values_set ''redirect_uri'' (acRedirectURI flow) (values_set ''code'' code
      (values_set ''grant_type'' ''authorization_code'' [])))"
  let ?req = "token_request (acTokenEndpoint flow) (applyClientAuth ?form (acAuthMode flow) (acClientID flow) (acClientSecret flow))
      (acAuthMode flow) (acClientID flow) (acClientSecret flow)"
  have ex: "snd (Exchange lib flow ctx code (Verifier pkce) w) = snd (client ctx ?req w)"
    using assms(7-9) by (auto simp: Exchange_def postTokenRequest_def pk(1) Let_def split: prod.splits sum.splits)
  have body: "set (ParseForm (orBody ?req)) = form_pairs (applyClientAuth ?form (acAuthMode flow) (acClientID flow) (acClientSecret flow))"
    by (simp add: token_request_def set_ParseForm Let_def)
  note pairs = form_pairs_set distinct_values_set form_pairs_scopes distinct_set_scopes assms(4)
  show ?thesis
  proof (intro exI conjI)
    show "BuildAuthorizationURL lib flow state pkce = Inr (uWithQuery u (Encode (auth_query flow state pkce (uQuery u))))" by (rule url)
    show "snd (Exchange lib flow ctx code (Verifier pkce) w) = snd (client ctx ?req w)" by (rule ex)
    show "DecodeRaw url_alphabet (Challenge pkce) = sha256 lib v" by (rule ch)
    show "orURL ?req = acTokenEndpoint flow" by (simp add: token_request_def Let_def)
  qed (unfold q body, auto simp: auth_query_def applyClientAuth_def pkce_Method_def Let_def pairs split: if_splits)
qed

section \<open>Concrete flows\<close>

definition demo_md :: OidcMetadata where
  "demo_md = \<lparr>MtlsEndpointAliases = None, mdIssuer = ''https://idp'', mdAuthorizationEndpoint = ''https://idp/auth'',
     mdTokenEndpoint = ''https://idp/token'', mdUserInfoEndpoint = [], mdJwksURI = [], mdIntrospectionEndpoint = [],
     mdRevocationEndpoint = [], mdEndSessionEndpoint = [], ScopesSupported = [], ResponseTypesSupported = [],
     GrantTypesSupported = [], TokenEndpointAuthMethodsSupported = [], CodeChallengeMethodsSupported = []\<rparr>"

definition demo_flow_lib :: oauth_lib where
  "demo_flow_lib = demo_lib\<lparr>jsonMetadata := \<lambda>b. Inr demo_md\<rparr>"

definition demo_client :: "nat http_client" where
  "demo_client ctx req w = (Inr \<lparr>StatusCode = 200, respHeader = [], respBytes = ''tok'', respErr = None\<rparr>, Suc w)"

definition demo_issuer_cfg :: "nat AuthorizationCodeFromIssuerConfig" where
  "demo_issuer_cfg = \<lparr>aiClient = Some demo_client, aiIssuer = ''https://idp'', aiClientID = ''id'', aiClientSecret = [],
     aiRedirectURI = ''https://app/cb'', aiAuthMode = ClientAuthNone, aiScopes = [''openid'']\<rparr>"

abbreviation flow_ctx :: ctx where
  "flow_ctx \<equiv> \<lparr>ctxDeadline = None, ctxValues = []\<rparr>"

lemma demo_flow_built:
  "\<exists>flow. NewAuthorizationCodeFlowFromIssuer demo_flow_lib id flow_ctx demo_issuer_cfg 0 = (Inr flow, 1) \<and>
     acTokenEndpoint flow = ''https://idp/token'' \<and> acAuthorizationEndpoint flow = ''https://idp/auth'' \<and> acClient flow = Some demo_client"
  by (simp add: NewAuthorizationCodeFlowFromIssuer_def demo_issuer_cfg_def Discover_def validateDiscoverConfig_def
      demo_flow_lib_def demo_lib_def demo_client_def parseDiscoveryResponse_def read_limited_def discoveryBodyLimit_def
      demo_md_def NewAuthorizationCodeFlow_def validateAuthCodeConfig_def auth_code_fields_def validateHTTPSEndpoint_def
      schemeHTTPS_def validateClientAuthMode_def auth_modes pick_token_endpoint_def)


theorem authorization_code_binding_witness:
  "\<exists>(flow :: nat AuthorizationCodeConfig) q (req :: oauth_request). BuildAuthorizationURL demo_flow_lib flow ''xyz''
       \<lparr>Verifier = replicate 43 CHR ''v'', Challenge = EncodeRaw url_alphabet (replicate 32 7)\<rparr> = Inr (''https://idp/auth?'' @ q) \<and>
     {x. (''state'', x) \<in> set (ParseForm q)} = {''xyz''} \<and>
     {x. (''code_verifier'', x) \<in> set (ParseForm (orBody req))} = {replicate 43 CHR ''v''}"
proof -
  let ?v = "replicate 43 CHR ''v''"
  let ?pkce = "\<lparr>Verifier = ?v, Challenge = EncodeRaw url_alphabet (replicate 32 7)\<rparr>"
  obtain flow :: "nat AuthorizationCodeConfig" where f: "acAuthorizationEndpoint flow = ''https://idp/auth''" "acClient flow = Some demo_client"
    using demo_flow_built by blast
  let ?u = "\<lparr>uScheme = ''https'', uHost = ''h'', uQuery = [], uWithQuery = (\<lambda>q. ''https://idp/auth?'' @ q)\<rparr>"
  have pk: "PkcePairFromVerifier demo_flow_lib ?v = Inr ?pkce"
    by (simp add: PkcePairFromVerifier_def demo_flow_lib_def demo_lib_def)
  have u: "urlParse demo_flow_lib (acAuthorizationEndpoint flow) = Inr ?u"
    by (simp add: f demo_flow_lib_def demo_lib_def)
  have h: "byte_list (sha256 demo_flow_lib ?v)" "distinct (map fst (uQuery ?u))" "''xyz'' \<noteq> []"
      "sha256 demo_flow_lib ?v \<noteq> []" "''c'' \<noteq> []" "newRequest demo_flow_lib (acTokenEndpoint flow) = None"
    by (simp_all add: byte_list_def demo_flow_lib_def demo_lib_def list_all_iff)
  obtain q and req :: oauth_request where url: "BuildAuthorizationURL demo_flow_lib flow ''xyz'' ?pkce = Inr (uWithQuery ?u q)"
    and st: "{x. (''state'', x) \<in> set (ParseForm q)} = {''xyz''}"
    and cv: "{x. (''code_verifier'', x) \<in> set (ParseForm (orBody req))} = {?v}"
    using authorization_code_binding [OF pk h(1) u h(2-5) f(2) h(6), where ctx = flow_ctx and w = 0]
    by (elim exE conjE) (rule that; assumption)
  have "uWithQuery ?u q = ''https://idp/auth?'' @ q" by (simp only: url.select_convs)
  then show ?thesis using url st cv by (intro exI conjI) (simp only:, assumption+)
qed

end
