(* ===== verification/Oauth_Sources.thy ===== *)
theory Oauth_Sources
  imports Oauth_Flow Auth
begin

text \<open>
  The rotating token sources of \<^verbatim>\<open>src/oauth\<close>: client credentials (\<^verbatim>\<open>client_credentials.go\<close>),
  authorization code (\<^verbatim>\<open>authcode_source.go\<close>) and the broker sources (\<^verbatim>\<open>broker.go\<close>). Every method
  holds the source's mutex, so it is one step on the pair of the source and the rest of the
  world; the injected clock is \<open>clk\<close>. The sources are interpreted as \<open>fresh_source\<close>, the contract the
  rotation interceptor relies on.
\<close>

section \<open>Client credentials\<close>

definition skewWindow :: int where "skewWindow = 30 * second"

record 'w ClientCredentialsConfig =
  gcClient :: "'w http_client option"
  gcEndpointParams :: url_values
  gcClientID :: string
  gcClientSecret :: string
  gcTokenEndpoint :: string
  gcAuthMode :: ClientAuthMode
  gcScopes :: "string list"

record 'w ClientCredentialsFromIssuerConfig =
  giClient :: "'w http_client option"
  giEndpointParams :: url_values
  giIssuer :: string
  giClientID :: string
  giClientSecret :: string
  giAuthMode :: ClientAuthMode
  giScopes :: "string list"

record 'w ClientCredentialsSource =
  csAsOf :: int
  csCache :: "TokenResponse option"
  csCfg :: "'w ClientCredentialsConfig"

definition validateClientCredentialsConfig :: "oauth_lib \<Rightarrow> 'w ClientCredentialsConfig \<Rightarrow> err option" where
  "validateClientCredentialsConfig lib cfg =
     (if gcClient cfg = None then Some (oauth_error ErrorCodeInvalidRequest ''ClientCredentialsConfig.Client is required'')
      else if gcClientID cfg = [] then Some (oauth_error ErrorCodeInvalidRequest ''client_id is required'')
      else if gcTokenEndpoint cfg = [] then Some (oauth_error ErrorCodeInvalidRequest ''token_endpoint is required'')
      else case validateHTTPSEndpoint lib ''token_endpoint'' (gcTokenEndpoint cfg) of
             Some e \<Rightarrow> Some e
           | None \<Rightarrow> validateClientAuthMode lib (gcAuthMode cfg) (gcClientSecret cfg))"

definition NewClientCredentialsSource :: "oauth_lib \<Rightarrow> 'w ClientCredentialsConfig \<Rightarrow> err + 'w ClientCredentialsSource" where
  "NewClientCredentialsSource lib cfg =
     (case validateClientCredentialsConfig lib cfg of
        Some e \<Rightarrow> Inl e
      | None \<Rightarrow> Inr \<lparr>csAsOf = 0, csCache = None, csCfg = cfg\<rparr>)"

definition NewClientCredentialsSourceFromIssuer ::
  "oauth_lib \<Rightarrow> ctx \<Rightarrow> 'w ClientCredentialsFromIssuerConfig \<Rightarrow> ('w, err + 'w ClientCredentialsSource) io" where
  "NewClientCredentialsSourceFromIssuer lib ctx cfg w =
     (if giClient cfg = None
      then (Inl (oauth_error ErrorCodeInvalidRequest ''ClientCredentialsFromIssuerConfig.Client is required''), w)
      else case Discover lib ctx \<lparr>dcClient = giClient cfg, dcIssuer = giIssuer cfg\<rparr> w of
             (Inl e, w1) \<Rightarrow> (Inl e, w1)
           | (Inr md, w1) \<Rightarrow>
               (NewClientCredentialsSource lib
                  \<lparr>gcClient = giClient cfg, gcEndpointParams = giEndpointParams cfg, gcClientID = giClientID cfg,
                   gcClientSecret = giClientSecret cfg, gcTokenEndpoint = pick_token_endpoint md (giAuthMode cfg),
                   gcAuthMode = giAuthMode cfg, gcScopes = giScopes cfg\<rparr>, w1))"

text \<open>\<^verbatim>\<open>expired\<close>: a response without a lifetime never expires.\<close>

definition token_expired :: "'w clock \<Rightarrow> int \<Rightarrow> TokenResponse \<Rightarrow> ('w, bool) io" where
  "token_expired clk asOf tok w =
     (if ExpiresIn tok \<le> 0 then (False, w)
      else
        let expiry = time_add asOf (wrap64 (ExpiresIn tok * second))
        in case clk w of (now, w1) \<Rightarrow> (time_after (time_add now skewWindow) expiry, w1))"

definition cc_form :: "'w ClientCredentialsConfig \<Rightarrow> url_values" where
  "cc_form cfg =
     (let form = values_set ''grant_type'' ''client_credentials'' [];
          form = set_scopes (gcScopes cfg) form
      in maps_Copy form (gcEndpointParams cfg))"

definition cc_refreshLocked ::
  "oauth_lib \<Rightarrow> 'w clock \<Rightarrow> ctx \<Rightarrow> ('w ClientCredentialsSource \<times> 'w, err + string) io" where
  "cc_refreshLocked lib clk ctx = (\<lambda>(s, w).
     let cfg = csCfg s in
     case postTokenRequest lib ctx (the (gcClient cfg)) (gcTokenEndpoint cfg) (cc_form cfg) (gcAuthMode cfg) (gcClientID cfg)
            (gcClientSecret cfg) w of
       (Inl e, w1) \<Rightarrow> (Inl e, s, w1)
     | (Inr resp, w1) \<Rightarrow>
         (case clk w1 of (now, w2) \<Rightarrow> (Inr (trAccessToken resp), s\<lparr>csCache := Some resp, csAsOf := now\<rparr>, w2)))"

definition cc_Token :: "oauth_lib \<Rightarrow> 'w clock \<Rightarrow> ('w ClientCredentialsSource \<times> 'w) token_source" where
  "cc_Token lib clk ctx = (\<lambda>(s, w).
     case csCache s of
       None \<Rightarrow> cc_refreshLocked lib clk ctx (s, w)
     | Some tok \<Rightarrow>
         (case token_expired clk (csAsOf s) tok w of
            (expired, w1) \<Rightarrow>
              if \<not> expired then (Inr (trAccessToken tok), s, w1) else cc_refreshLocked lib clk ctx (s, w1)))"


section \<open>Authorization code\<close>

record 'w AuthorizationCodeSource =
  asFlow :: "'w AuthorizationCodeConfig"
  asCache :: "TokenResponse option"
  asAsOf :: int
  asRefresh :: string

definition NewAuthorizationCodeSource ::
  "'w clock \<Rightarrow> 'w AuthorizationCodeConfig option \<Rightarrow> TokenResponse option \<Rightarrow> ('w, err + 'w AuthorizationCodeSource) io" where
  "NewAuthorizationCodeSource clk flow initial w =
     (case flow of
        None \<Rightarrow> (Inl (oauth_error ErrorCodeInvalidRequest ''AuthorizationCodeFlow is required''), w)
      | Some f \<Rightarrow>
          (case initial of
             None \<Rightarrow> (Inl (oauth_error ErrorCodeInvalidRequest ''initial TokenResponse is required''), w)
           | Some tok \<Rightarrow>
               (case clk w of
                  (now, w1) \<Rightarrow> (Inr \<lparr>asFlow = f, asCache = Some tok, asAsOf = now, asRefresh = RefreshToken tok\<rparr>, w1))))"

definition ac_refresh ::
  "oauth_lib \<Rightarrow> 'w clock \<Rightarrow> ctx \<Rightarrow> ('w AuthorizationCodeSource \<times> 'w, err + string) io" where
  "ac_refresh lib clk ctx = (\<lambda>(s, w).
     if asRefresh s = []
     then (Inl (oauth_error ErrorCodeInvalidGrant ''no refresh_token available; re-authentication required''), s, w)
     else case Refresh lib (asFlow s) ctx (asRefresh s) w of
            (Inl e, w1) \<Rightarrow> (Inl e, s, w1)
          | (Inr resp, w1) \<Rightarrow>
              (case clk w1 of
                 (now, w2) \<Rightarrow>
                   let s1 = s\<lparr>asCache := Some resp, asAsOf := now\<rparr>;
                       s2 = (if RefreshToken resp \<noteq> [] then s1\<lparr>asRefresh := RefreshToken resp\<rparr> else s1)
                   in (Inr (trAccessToken resp), s2, w2)))"

definition ac_expired :: "'w clock \<Rightarrow> int \<Rightarrow> TokenResponse \<Rightarrow> ('w, bool) io" where
  "ac_expired clk asOf tok w =
     (if ExpiresIn tok \<le> 0 then (False, w)
      else
        let expiry = time_add asOf (wrap64 (ExpiresIn tok * second))
        in case clk w of (now, w1) \<Rightarrow> (time_after (time_add now skewWindow) expiry, w1))"


definition ac_Token :: "oauth_lib \<Rightarrow> 'w clock \<Rightarrow> ('w AuthorizationCodeSource \<times> 'w) token_source" where
  "ac_Token lib clk ctx = (\<lambda>(s, w).
     case asCache s of
       None \<Rightarrow> ac_refresh lib clk ctx (s, w)
     | Some tok \<Rightarrow>
         (case ac_expired clk (asAsOf s) tok w of
            (expired, w1) \<Rightarrow> if \<not> expired then (Inr (trAccessToken tok), s, w1) else ac_refresh lib clk ctx (s, w1)))"


section \<open>Brokers\<close>

definition ErrorCodeBrokerUnavailable :: string where "ErrorCodeBrokerUnavailable = ''broker_unavailable''"
definition ErrorCodeBrokerUnauthorised :: string where "ErrorCodeBrokerUnauthorised = ''broker_unauthorised''"
definition ErrorCodeBrokerProtocol :: string where "ErrorCodeBrokerProtocol = ''broker_protocol''"
definition brokerCacheMax :: int where "brokerCacheMax = 30 * second"

record 'w LocalEndpointBrokerConfig =
  bkClient :: "'w http_client option"
  bkEndpointParams :: url_values
  bkEndpoint :: string
  bkAudience :: string
  bkScopes :: "string list"
  bkMaxCacheDuration :: int

record 'w LocalEndpointBrokerSource =
  bsAsOf :: int
  bsCache :: "TokenResponse option"
  bsCfg :: "'w LocalEndpointBrokerConfig"

definition isLoopback :: "string \<Rightarrow> bool" where
  "isLoopback host =
     (let i = LastIndex host CHR '':''; hostOnly = (if 0 \<le> i then take (nat i) host else host)
      in hostOnly \<in> {''localhost'', ''127.0.0.1'', ''::1'', ''[::1]''})"

definition NewLocalEndpointBrokerSource :: "oauth_lib \<Rightarrow> 'w LocalEndpointBrokerConfig \<Rightarrow> err + 'w LocalEndpointBrokerSource" where
  "NewLocalEndpointBrokerSource lib cfg =
     (if bkClient cfg = None then Inl (oauth_error ErrorCodeInvalidRequest ''LocalEndpointBrokerConfig.Client is required'')
      else if bkEndpoint cfg = [] then Inl (oauth_error ErrorCodeInvalidRequest ''Endpoint is required'')
      else case urlParse lib (bkEndpoint cfg) of
             Inl e \<Rightarrow> Inl (oauth_error ErrorCodeInvalidRequest (''Endpoint is not a valid URL: '' @ goErrorText lib e))
           | Inr u \<Rightarrow>
               if uScheme u \<noteq> schemeHTTPS \<and> \<not> isLoopback (uHost u)
               then Inl (oauth_error ErrorCodeInvalidRequest ''Endpoint must use https or a loopback host'')
               else Inr \<lparr>bsAsOf = 0, bsCache = None, bsCfg = cfg\<rparr>)"

definition brokerStatusError :: "int \<Rightarrow> string \<Rightarrow> err option" where
  "brokerStatusError status body =
     (if status = 401 \<or> status = 403
      then Some (EOAuth None ErrorCodeBrokerUnauthorised
             (''broker rejected the request: HTTP '' @ int_text status @ '': '' @ body) [] status)
      else if \<not> status_ok status
      then Some (EOAuth None ErrorCodeBrokerUnavailable (''broker returned HTTP '' @ int_text status @ '': '' @ body) [] status)
      else None)"

definition broker_request :: "'w LocalEndpointBrokerConfig \<Rightarrow> oauth_request" where
  "broker_request cfg =
     (let form = (if bkAudience cfg \<noteq> [] then values_set ''audience'' (bkAudience cfg) [] else []);
          form = set_scopes (bkScopes cfg) form;
          form = maps_Copy form (bkEndpointParams cfg)
      in \<lparr>orMethod = ''POST'', orURL = bkEndpoint cfg,
          orHeader = hdr_set (hdr_set [] ''Content-Type'' ''application/x-www-form-urlencoded'') ''Accept'' ''application/json'',
          orBody = Encode form\<rparr>)"

definition exchangeLocked ::
  "oauth_lib \<Rightarrow> 'w clock \<Rightarrow> ctx \<Rightarrow> ('w LocalEndpointBrokerSource \<times> 'w, err + string) io" where
  "exchangeLocked lib clk ctx = (\<lambda>(s, w).
     let cfg = bsCfg s in
     case newRequest lib (bkEndpoint cfg) of
       Some e \<Rightarrow> (Inl (EWrap ''oauth: build broker request'' e), s, w)
     | None \<Rightarrow>
         (case the (bkClient cfg) ctx (broker_request cfg) w of
            (Inl e, w1) \<Rightarrow>
              (Inl (EOAuth (Some e) ErrorCodeBrokerUnavailable (''broker endpoint unreachable: '' @ goErrorText lib e) [] 0), s, w1)
          | (Inr resp, w1) \<Rightarrow>
              (case read_limited resp tokenEndpointBodyLimit of
                 Inl e \<Rightarrow> (Inl (EWrap ''oauth: read broker response'' e), s, w1)
               | Inr body \<Rightarrow>
                   (case brokerStatusError (StatusCode resp) body of
                      Some e \<Rightarrow> (Inl e, s, w1)
                    | None \<Rightarrow>
                        (case ParseTokenResponse lib body of
                           Inl e \<Rightarrow>
                             (Inl (oauth_error ErrorCodeBrokerProtocol
                                (''broker response is not a valid token response: '' @ goErrorText lib e)), s, w1)
                         | Inr tr \<Rightarrow>
                             (case clk w1 of
                                (now, w2) \<Rightarrow> (Inr (trAccessToken tr), s\<lparr>bsCache := Some tr, bsAsOf := now\<rparr>, w2)))))))"

definition broker_maxDur :: "int \<Rightarrow> TokenResponse \<Rightarrow> int" where
  "broker_maxDur maxCache tok =
     (let maxDur = (if maxCache \<le> 0 then brokerCacheMax else maxCache)
      in if 0 < ExpiresIn tok then
           (let supplied = wrap64 (ExpiresIn tok * second) in if supplied < maxDur then supplied else maxDur)
         else maxDur)"

definition broker_expired :: "'w clock \<Rightarrow> 'w LocalEndpointBrokerSource \<Rightarrow> TokenResponse \<Rightarrow> ('w, bool) io" where
  "broker_expired clk s tok w =
     (case clk w of
        (now, w1) \<Rightarrow> (time_after now (time_add (bsAsOf s) (broker_maxDur (bkMaxCacheDuration (bsCfg s)) tok)), w1))"

definition broker_Token :: "oauth_lib \<Rightarrow> 'w clock \<Rightarrow> ('w LocalEndpointBrokerSource \<times> 'w) token_source" where
  "broker_Token lib clk ctx = (\<lambda>(s, w).
     case bsCache s of
       None \<Rightarrow> exchangeLocked lib clk ctx (s, w)
     | Some tok \<Rightarrow>
         (case broker_expired clk s tok w of
            (expired, w1) \<Rightarrow> if \<not> expired then (Inr (trAccessToken tok), s, w1) else exchangeLocked lib clk ctx (s, w1)))"

definition broker_Invalidate :: "'w LocalEndpointBrokerSource \<times> 'w \<Rightarrow> 'w LocalEndpointBrokerSource \<times> 'w" where
  "broker_Invalidate = (\<lambda>(s, w). (s\<lparr>bsCache := None\<rparr>, w))"

definition broker_Origin :: string where "broker_Origin = ''local-endpoint''"

record HeaderPassthroughSource =
  hpToken :: string

definition NewHeaderPassthroughSource :: "string \<Rightarrow> HeaderPassthroughSource" where
  "NewHeaderPassthroughSource t = \<lparr>hpToken = t\<rparr>"

definition passthrough_Origin :: string where "passthrough_Origin = ''header-passthrough''"

definition passthrough_Token :: "(HeaderPassthroughSource \<times> 'w) token_source" where
  "passthrough_Token ctx = (\<lambda>(s, w).
     if hpToken s = []
     then (Inl (oauth_error ErrorCodeBrokerUnauthorised ''no broker-supplied token; expecting upstream Authorization header''), s, w)
     else (Inr (hpToken s), s, w))"

definition passthrough_Invalidate :: "HeaderPassthroughSource \<times> 'w \<Rightarrow> HeaderPassthroughSource \<times> 'w" where
  "passthrough_Invalidate = (\<lambda>(s, w). (s\<lparr>hpToken := []\<rparr>, w))"

definition SetToken :: "string \<Rightarrow> HeaderPassthroughSource \<times> 'w \<Rightarrow> HeaderPassthroughSource \<times> 'w" where
  "SetToken t = (\<lambda>(s, w). (s\<lparr>hpToken := t\<rparr>, w))"

section \<open>The contract of a rotating source\<close>

text \<open>An HTTP client that counts its requests.\<close>

definition counted_client :: "'w http_client \<Rightarrow> (nat \<times> 'w) http_client" where
  "counted_client client ctx req = (\<lambda>(n, w). case client ctx req w of (r, w') \<Rightarrow> (r, Suc n, w'))"




abbreviation request_count :: "'s \<times> nat \<times> 'w \<Rightarrow> nat" where
  "request_count w \<equiv> fst (snd w)"



definition broker_counted :: "(nat \<times> 'w) LocalEndpointBrokerSource \<times> nat \<times> 'w \<Rightarrow> bool" where
  "broker_counted sw \<longleftrightarrow> (\<exists>client. bkClient (bsCfg (fst sw)) = Some (counted_client client))"



lemma exchange_counts:
  assumes "broker_counted sw" and "exchangeLocked lib (lift_io clk) ctx sw = (r, sw')"
  shows "broker_counted sw' \<and> request_count sw \<le> request_count sw' \<and> ((\<exists>t. r = Inr t) \<longrightarrow> request_count sw < request_count sw')"
  using assms
  by (auto simp: exchangeLocked_def broker_counted_def counted_client_def lift_io_def Let_def
      split: option.splits sum.splits prod.splits)

text \<open>
  The shape all three sources share: the cached token while it is not expired, otherwise a refresh;
  \<^verbatim>\<open>Invalidate\<close> empties the cache. Any such source is fresh when its refresh is.
\<close>

locale cached_source =
  fixes ok :: "'s \<times> nat \<times> 'w \<Rightarrow> bool" and token :: "('s \<times> nat \<times> 'w) token_source"
    and invalidate :: "'s \<times> nat \<times> 'w \<Rightarrow> 's \<times> nat \<times> 'w"
    and cache :: "'s \<Rightarrow> TokenResponse option" and empty :: "'s \<Rightarrow> 's"
    and expired :: "'s \<Rightarrow> TokenResponse \<Rightarrow> (nat \<times> 'w, bool) io"
    and refresh :: "('s \<times> nat \<times> 'w) token_source"
  assumes token_eq: "token ctx (s, nw) =
      (case cache s of
         None \<Rightarrow> refresh ctx (s, nw)
       | Some tok \<Rightarrow>
           (case expired s tok nw of (e, nw1) \<Rightarrow> if \<not> e then (Inr (trAccessToken tok), s, nw1) else refresh ctx (s, nw1)))"
    and invalidate_eq: "invalidate (s, nw) = (empty s, nw)"
    and cache_empty: "cache (empty s) = None"
    and ok_source: "ok (s, nw) \<Longrightarrow> ok (s, nw') \<and> ok (empty s, nw')"
    and expired_keeps: "expired s tok nw = (e, nw1) \<Longrightarrow> fst nw1 = fst nw"
    and refresh_counts: "ok sw \<Longrightarrow> refresh ctx sw = (r, sw') \<Longrightarrow>
      ok sw' \<and> request_count sw \<le> request_count sw' \<and> ((\<exists>t. r = Inr t) \<longrightarrow> request_count sw < request_count sw')"
begin

sublocale fresh: fresh_source ok token invalidate request_count
proof
  fix sw ctx r sw'
  assume ok: "ok sw" and run: "token ctx sw = (r, sw')"
  obtain s nw where sw: "sw = (s, nw)" by (cases sw)
  show "ok sw' \<and> request_count sw \<le> request_count sw'"
  proof (cases "cache s")
    case None
    then show ?thesis using run sw refresh_counts [OF ok] by (simp add: token_eq)
  next
    case (Some tok)
    obtain e nw1 where x: "expired s tok nw = (e, nw1)" by (metis surj_pair)
    have "ok (s, nw1)" using ok ok_source sw by blast
    then show ?thesis using run sw Some x expired_keeps [OF x] refresh_counts [of "(s, nw1)" ctx r sw']
      by (auto simp: token_eq split: if_splits)
  qed
next
  fix sw :: "'s \<times> nat \<times> 'w"
  assume "ok sw"
  then show "ok (invalidate sw) \<and> request_count (invalidate sw) = request_count sw"
    using ok_source by (cases sw) (auto simp: invalidate_eq)
next
  fix sw ctx t sw'
  assume ok: "ok sw" and run: "token ctx (invalidate sw) = (Inr t, sw')"
  obtain s nw where sw: "sw = (s, nw)" by (cases sw)
  have "ok (empty s, nw)" using ok ok_source sw by blast
  from refresh_counts [OF this] run show "request_count sw < request_count sw'"
    by (auto simp: sw invalidate_eq token_eq cache_empty)
qed

end



interpretation broker: cached_source broker_counted "broker_Token lib (lift_io clk)" broker_Invalidate bsCache "bsCache_update (\<lambda>_. None)"
  "broker_expired (lift_io clk)" "exchangeLocked lib (lift_io clk)" for lib clk
proof (unfold_locales, goal_cases)
  case 6
  then show ?case by (rule exchange_counts)
next
  case 5
  then show ?case by (auto simp: broker_expired_def lift_io_def split: prod.splits)
qed (auto simp: broker_Token_def broker_Invalidate_def broker_counted_def)

text \<open>A pass-through source has nothing to fetch: after an invalidation there is no token.\<close>

interpretation passthrough: fresh_source "\<lambda>_. True" passthrough_Token passthrough_Invalidate "\<lambda>_. 0"
  by unfold_locales (auto simp: passthrough_Token_def passthrough_Invalidate_def)

section \<open>Properties\<close>

lemma wrap64_seconds: "0 \<le> n \<Longrightarrow> n \<le> 9223372036 \<Longrightarrow> wrap64 (n * second) = n * second"
  by (intro wrap64_id) (simp add: int64_defs)

text \<open>
  [C22] A token from the client-credentials source is fresh: it is either the cached one, and then its
  lifetime (if it has one) reaches at least 30 s beyond the present, without any request; or it
  comes from a token request made by this call, is cached and dated after the response. A failed
  call leaves the source as it was. Lifetimes are below 292 years, where the product in
  nanoseconds is exact.
\<close>

theorem cc_token_fresh:
  assumes "\<And>tok. csCache s = Some tok \<Longrightarrow> ExpiresIn tok \<le> 9223372036"
    and "cc_Token lib clk ctx (s, w) = (r, s', w')"
  shows "case r of
      Inl e \<Rightarrow> s' = s
    | Inr t \<Rightarrow>
        (\<exists>tok. csCache s = Some tok \<and> t = trAccessToken tok \<and> s' = s \<and>
           (if ExpiresIn tok \<le> 0 then w' = w
            else \<exists>now. clk w = (now, w') \<and> now + 30 * second \<le> csAsOf s + ExpiresIn tok * second)) \<or>
        (\<exists>resp w1 w2. csCache s' = Some resp \<and> t = trAccessToken resp \<and> csCfg s' = csCfg s \<and>
           postTokenRequest lib ctx (the (gcClient (csCfg s))) (gcTokenEndpoint (csCfg s)) (cc_form (csCfg s))
             (gcAuthMode (csCfg s)) (gcClientID (csCfg s)) (gcClientSecret (csCfg s)) w1 = (Inr resp, w2) \<and>
           clk w2 = (csAsOf s', w'))"
proof -
  have refresh: "case r of Inl e \<Rightarrow> s' = s
    | Inr t \<Rightarrow> \<exists>resp w2. csCache s' = Some resp \<and> t = trAccessToken resp \<and> csCfg s' = csCfg s \<and>
           postTokenRequest lib ctx (the (gcClient (csCfg s))) (gcTokenEndpoint (csCfg s)) (cc_form (csCfg s))
             (gcAuthMode (csCfg s)) (gcClientID (csCfg s)) (gcClientSecret (csCfg s)) w1 = (Inr resp, w2) \<and>
           clk w2 = (csAsOf s', w')"
    if "cc_refreshLocked lib clk ctx (s, w1) = (r, s', w')" for w1
    using that by (auto simp: cc_refreshLocked_def Let_def split: prod.splits sum.splits)
  show ?thesis
  proof (cases "csCache s")
    case None
    then show ?thesis using assms(2) refresh [of w] by (auto simp: cc_Token_def split: sum.splits)
  next
    case (Some tok)
    obtain x w1 where x: "token_expired clk (csAsOf s) tok w = (x, w1)" by (metis surj_pair)
    show ?thesis
    proof (cases x)
      case True
      then show ?thesis using assms(2) Some x refresh [of w1] by (auto simp: cc_Token_def split: sum.splits)
    next
      case False
      then have out: "r = Inr (trAccessToken tok)" "s' = s" "w' = w1" using assms(2) Some x by (auto simp: cc_Token_def)
      moreover have "if ExpiresIn tok \<le> 0 then w1 = w
          else \<exists>now. clk w = (now, w1) \<and> now + 30 * second \<le> csAsOf s + ExpiresIn tok * second"
        using x False assms(1) [OF Some] wrap64_seconds [of "ExpiresIn tok"]
        by (auto simp: token_expired_def time_defs skewWindow_def Let_def not_less split: if_splits prod.splits)
      ultimately show ?thesis using Some by auto
    qed
  qed
qed

text \<open>
  The lifetime is converted to nanoseconds in 64 bits: an \<^verbatim>\<open>expires_in\<close> from 9223372037 s (292
  years) up to 18446744073 s wraps to a negative duration, so such a token counts as expired the
  moment it arrives and every call asks the endpoint again.
\<close>

theorem huge_expires_in_never_cached:
  assumes "9223372037 \<le> ExpiresIn tok" and "ExpiresIn tok \<le> 18446744073" and "clk w = (now, w1)" and "asOf \<le> now"
  shows "token_expired clk asOf tok w = (True, w1)"
proof -
  let ?x = "ExpiresIn tok * second"
  have "(?x + 2 ^ 63) mod 2 ^ 64 = (?x + 2 ^ 63 - 2 ^ 64 + 2 ^ 64) mod 2 ^ 64" by (simp add: add.commute)
  also have "\<dots> = (?x + 2 ^ 63 - 2 ^ 64) mod 2 ^ 64" by (rule mod_add_self2)
  also have "\<dots> = ?x + 2 ^ 63 - 2 ^ 64" using assms(1,2) by (intro mod_pos_pos_trivial) simp_all
  finally have "wrap64 ?x < 0" using assms(2) by (simp add: wrap64_def)
  then show ?thesis using assms by (simp add: token_expired_def time_defs skewWindow_def Let_def)
qed

text \<open>
  [C23] The authorization-code source never loses its refresh token: whatever a call returns, a
  refresh token it held is replaced only by a newer non-empty one, which the next refresh then
  uses; a failed refresh changes nothing; and with none to use it asks for re-authentication
  without any request.
\<close>

theorem refresh_token_kept:
  assumes "ac_Token lib clk ctx (s, w) = (r, s', w')"
  shows "asFlow s' = asFlow s \<and> (asRefresh s \<noteq> [] \<longrightarrow> asRefresh s' \<noteq> []) \<and>
    (case r of
       Inl e \<Rightarrow> s' = s \<and> (asRefresh s = [] \<longrightarrow> as_oauth e = Some (''invalid_grant'', ''no refresh_token available; re-authentication required'', 0))
     | Inr t \<Rightarrow> s' = s \<and> (\<exists>tok. asCache s = Some tok \<and> t = trAccessToken tok) \<or>
         asRefresh s \<noteq> [] \<and>
         (\<exists>resp w1 w2. Refresh lib (asFlow s) ctx (asRefresh s) w1 = (Inr resp, w2) \<and> t = trAccessToken resp \<and>
            asCache s' = Some resp \<and> asRefresh s' = (if RefreshToken resp = [] then asRefresh s else RefreshToken resp)))"
proof -
  have refresh: "asFlow s' = asFlow s \<and> (asRefresh s \<noteq> [] \<longrightarrow> asRefresh s' \<noteq> []) \<and>
    (case r of
       Inl e \<Rightarrow> s' = s \<and> (asRefresh s = [] \<longrightarrow> as_oauth e = Some (''invalid_grant'', ''no refresh_token available; re-authentication required'', 0))
     | Inr t \<Rightarrow> asRefresh s \<noteq> [] \<and>
         (\<exists>resp w2. Refresh lib (asFlow s) ctx (asRefresh s) w1 = (Inr resp, w2) \<and> t = trAccessToken resp \<and>
            asCache s' = Some resp \<and> asRefresh s' = (if RefreshToken resp = [] then asRefresh s else RefreshToken resp)))"
    if run: "ac_refresh lib clk ctx (s, w1) = (r, s', w')" for w1
  proof (cases "asRefresh s = []")
    case True
    then show ?thesis using run by (auto simp: ac_refresh_def oauth_codes)
  next
    case False
    obtain p w2 where p: "Refresh lib (asFlow s) ctx (asRefresh s) w1 = (p, w2)" by (metis surj_pair)
    show ?thesis
    proof (cases p)
      case (Inl e)
      then show ?thesis using run p False by (auto simp: ac_refresh_def)
    next
      case (Inr resp)
      obtain now w3 where "clk w2 = (now, w3)" by (metis surj_pair)
      then have "r = Inr (trAccessToken resp)" "s' = s\<lparr>asCache := Some resp, asAsOf := now,
          asRefresh := (if RefreshToken resp = [] then asRefresh s else RefreshToken resp)\<rparr>"
        using run p False Inr by (auto simp: ac_refresh_def Let_def)
      then show ?thesis using p False Inr by simp
    qed
  qed
  have "(s' = s \<and> (\<exists>tok. asCache s = Some tok \<and> r = Inr (trAccessToken tok))) \<or> (\<exists>w1. ac_refresh lib clk ctx (s, w1) = (r, s', w'))"
    using assms by (auto simp: ac_Token_def split: option.splits prod.splits if_splits)
  then show ?thesis
  proof (elim disjE exE)
    fix w1
    assume "ac_refresh lib clk ctx (s, w1) = (r, s', w')"
    note rf = refresh [OF this]
    show ?thesis
    proof (cases r)
      case (Inl e)
      then show ?thesis using rf by simp
    next
      case (Inr t)
      then show ?thesis using rf unfolding Inr sum.case by blast
    qed
  qed auto
qed

text \<open>
  [C24] A broker token is never used beyond the cap: what the local-endpoint source returns from its
  cache is at most \<^verbatim>\<open>MaxCacheDuration\<close> old (30 s when none is set), whatever lifetime the broker
  claims, wrapped or not; anything else was exchanged by this call. A failed exchange keeps the
  source as it was.
\<close>

theorem broker_cache_bounded:
  assumes "broker_Token lib clk ctx (s, w) = (r, s', w')"
  shows "bsCfg s' = bsCfg s \<and>
    (case r of
       Inl e \<Rightarrow> s' = s
     | Inr t \<Rightarrow>
         (\<exists>tok now. bsCache s = Some tok \<and> t = trAccessToken tok \<and> s' = s \<and> clk w = (now, w') \<and>
            now \<le> bsAsOf s + (if bkMaxCacheDuration (bsCfg s) \<le> 0 then 30 * second else bkMaxCacheDuration (bsCfg s))) \<or>
         (\<exists>w1. exchangeLocked lib clk ctx (s, w1) = (r, s', w')))"
proof -
  have ex: "bsCfg s' = bsCfg s \<and> (case r of Inl e \<Rightarrow> s' = s | Inr t \<Rightarrow> True)"
    if "exchangeLocked lib clk ctx (s, w1) = (r, s', w')" for w1
    using that by (auto simp: exchangeLocked_def Let_def split: option.splits prod.splits sum.splits)
  have cap: "broker_maxDur m tok \<le> (if m \<le> 0 then 30 * second else m)" for m tok
    by (simp add: broker_maxDur_def brokerCacheMax_def Let_def)
  show ?thesis
  proof (cases "bsCache s")
    case None
    then have x: "exchangeLocked lib clk ctx (s, w) = (r, s', w')" using assms by (simp add: broker_Token_def)
    then show ?thesis using ex [OF x] by (auto split: sum.splits)
  next
    case (Some tok)
    obtain now w1 where n: "clk w = (now, w1)" by (metis surj_pair)
    show ?thesis
    proof (cases "time_after now (time_add (bsAsOf s) (broker_maxDur (bkMaxCacheDuration (bsCfg s)) tok))")
      case True
      then have x: "exchangeLocked lib clk ctx (s, w1) = (r, s', w')"
        using assms Some n by (simp add: broker_Token_def broker_expired_def)
      then show ?thesis using ex [OF x] by (auto split: sum.splits)
    next
      case False
      then have "r = Inr (trAccessToken tok)" "s' = s" "w' = w1"
        using assms Some n by (auto simp: broker_Token_def broker_expired_def)
      moreover have "now \<le> bsAsOf s + (if bkMaxCacheDuration (bsCfg s) \<le> 0 then 30 * second else bkMaxCacheDuration (bsCfg s))"
        using False cap [of "bkMaxCacheDuration (bsCfg s)" tok] unfolding time_after_def time_add_def by linarith
      ultimately show ?thesis using Some n by (auto simp del: if_split)
    qed
  qed
qed

text \<open>
  Which plaintext broker endpoints are accepted: without https the host has to be
  \<^verbatim>\<open>localhost\<close> or \<^verbatim>\<open>127.0.0.1\<close>, with or without a port, or an IPv6 loopback literal with a port. The
  IPv6 literal without a port is refused, because the text after its last colon is taken for one.
\<close>

theorem broker_plaintext_is_loopback:
  "(case NewLocalEndpointBrokerSource lib cfg of
      Inl e \<Rightarrow> as_oauth e \<noteq> None
    | Inr s \<Rightarrow> \<exists>u. urlParse lib (bkEndpoint cfg) = Inr u \<and> bsCfg s = cfg \<and> bsCache s = None \<and>
        (uScheme u = ''https'' \<or> uHost u \<in> {''localhost'', ''127.0.0.1''} \<or>
          (\<exists>n port. n \<in> {''localhost'', ''127.0.0.1'', ''::1'', ''[::1]''} \<and> CHR '':'' \<notin> set port \<and> uHost u = n @ '':'' @ port))) \<and>
   \<not> isLoopback ''[::1]'' \<and> isLoopback ''[::1]:8080'' \<and> \<not> isLoopback ''127.0.0.1.evil.example''"
proof -
  have loop: "host \<in> {''localhost'', ''127.0.0.1''} \<or>
      (\<exists>n port. n \<in> {''localhost'', ''127.0.0.1'', ''::1'', ''[::1]''} \<and> CHR '':'' \<notin> set port \<and> host = n @ '':'' @ port)"
    if "isLoopback host" for host
  proof (cases "last_index CHR '':'' host")
    case None
    then have "CHR '':'' \<notin> set host" by (rule last_index_None_iff [THEN iffD1])
    moreover have "host = ''localhost'' \<or> host = ''127.0.0.1'' \<or> host = ''::1'' \<or> host = ''[::1]''"
      using that None by (simp add: isLoopback_def LastIndex_def)
    ultimately show ?thesis by (elim disjE) simp_all
  next
    case (Some i)
    then have i: "i < length host" "host ! i = CHR '':''" "CHR '':'' \<notin> set (drop (Suc i) host)" using last_index_SomeD by blast+
    moreover have "take i host \<in> {''localhost'', ''127.0.0.1'', ''::1'', ''[::1]''}"
      using that Some by (simp add: isLoopback_def LastIndex_def Let_def)
    moreover have "host = take i host @ '':'' @ drop (Suc i) host" using id_take_nth_drop [OF i(1)] i(2) by simp
    ultimately show ?thesis by metis
  qed
  have "\<not> isLoopback ''[::1]''" "isLoopback ''[::1]:8080''" "\<not> isLoopback ''127.0.0.1.evil.example''"
    by (simp_all add: isLoopback_def LastIndex_def Let_def)
  moreover have "case NewLocalEndpointBrokerSource lib cfg of
      Inl e \<Rightarrow> as_oauth e \<noteq> None
    | Inr s \<Rightarrow> \<exists>u. urlParse lib (bkEndpoint cfg) = Inr u \<and> bsCfg s = cfg \<and> bsCache s = None \<and> (uScheme u = ''https'' \<or> isLoopback (uHost u))"
    by (auto simp: NewLocalEndpointBrokerSource_def schemeHTTPS_def split: sum.splits)
  ultimately show ?thesis using loop by (cases "NewLocalEndpointBrokerSource lib cfg") (simp_all only: sum.case, metis+)
qed


text \<open>
  A pass-through source cannot recover: when the server rejects its token, the rotation interceptor
  throws the token away, the retry fails for want of one, and the server's own error is replaced by
  the source's.
\<close>

lemma passthrough_rotation_drops_token:
  assumes "authSource a = passthrough_Token" and "authSkip a = None"
    and "allowNI \<or> IdempotencyLevel sp \<noteq> IdempotencyUnknown"
    and "auth_WrapUnary a next ctx sp (h, w) = ((resp, Some e), h1, s1, w1)" and "Code (Some e) = CodeUnauthenticated"
  shows "rotation_WrapUnary passthrough_Invalidate allowNI (auth_WrapUnary a next) ctx sp (h, w) =
    ((None, Some (EConnect CodeUnauthenticated (EWrap ''auth: token''
       (oauth_error ErrorCodeBrokerUnauthorised ''no broker-supplied token; expecting upstream Authorization header'')) [])),
     h1, s1\<lparr>hpToken := []\<rparr>, w1)"
proof -
  have "rotation_WrapUnary passthrough_Invalidate allowNI (auth_WrapUnary a next) ctx sp (h, w) =
      auth_WrapUnary a next ctx sp (h1, passthrough_Invalidate (s1, w1))"
    using assms(3-5) by (auto simp: rotation_WrapUnary_def)
  then show ?thesis using assms(1,2)
    by (simp add: auth_WrapUnary_def attach_def passthrough_Token_def passthrough_Invalidate_def)
qed

section \<open>Concrete sources\<close>

text \<open>A clock that reads the number of requests made so far, in seconds.\<close>

definition demo_clk :: "nat clock" where "demo_clk w = (int w * second, w)"

definition demo_token :: TokenResponse where
  "demo_token = \<lparr>trAccessToken = ''old'', TokenType = ''Bearer'', RefreshToken = ''rt0'', Scope = [], IDToken = [], ExpiresIn = 3600\<rparr>"

definition demo_cc :: "'w http_client \<Rightarrow> 'w ClientCredentialsSource" where
  "demo_cc client = \<lparr>csAsOf = 0, csCache = Some demo_token,
     csCfg = \<lparr>gcClient = Some client, gcEndpointParams = [], gcClientID = ''id'', gcClientSecret = [],
       gcTokenEndpoint = ''https://idp/token'', gcAuthMode = ClientAuthNone, gcScopes = []\<rparr>\<rparr>"

definition demo_ac :: "nat AuthorizationCodeSource" where
  "demo_ac = \<lparr>asFlow = \<lparr>acClient = Some demo_client, acClientID = ''id'', acClientSecret = [], acRedirectURI = ''https://app/cb'',
       acAuthorizationEndpoint = ''https://idp/auth'', acTokenEndpoint = ''https://idp/token'', acAuthMode = ClientAuthNone, acScopes = []\<rparr>,
     asCache = None, asAsOf = 0, asRefresh = ''rt0''\<rparr>"

definition demo_broker :: "nat LocalEndpointBrokerSource" where
  "demo_broker = \<lparr>bsAsOf = 0, bsCache = Some demo_token,
     bsCfg = \<lparr>bkClient = Some demo_client, bkEndpointParams = [], bkEndpoint = ''http://localhost:1'', bkAudience = [], bkScopes = [],
       bkMaxCacheDuration = 0\<rparr>\<rparr>"

lemmas demo_post = postTokenRequest_def demo_lib_def demo_client_def read_limited_def tokenEndpointBodyLimit_def
  ParseTokenResponse_def Let_def auth_modes

theorem cc_token_fresh_witness:
  "\<exists>now. demo_clk 0 = (now, 0) \<and> fst (cc_Token demo_lib demo_clk flow_ctx (demo_cc demo_client, 0)) = Inr ''old'' \<and>
     now + 30 * second \<le> 3600 * second"
proof -
  have run: "cc_Token demo_lib demo_clk flow_ctx (demo_cc demo_client, 0) = (Inr ''old'', demo_cc demo_client, 0)"
    by (simp add: cc_Token_def demo_cc_def demo_token_def token_expired_def demo_clk_def time_defs skewWindow_def wrap64_def)
  show ?thesis using cc_token_fresh [OF _ run] run
    by (auto simp: demo_cc_def demo_token_def demo_clk_def)
qed

theorem refresh_token_kept_witness:
  "asRefresh (fst (snd (ac_Token demo_lib demo_clk flow_ctx (demo_ac, 0)))) = ''rt''"
proof -
  obtain s' where run: "ac_Token demo_lib demo_clk flow_ctx (demo_ac, 0) = (Inr ''at'', s', 1)" and r: "asRefresh s' = ''rt''"
    by (simp add: ac_Token_def demo_ac_def ac_refresh_def Refresh_def demo_post demo_clk_def)
  show ?thesis using refresh_token_kept [OF run] run r by simp
qed

theorem broker_cache_bounded_witness:
  "bsCfg (fst (snd (broker_Token demo_lib demo_clk flow_ctx (demo_broker, 31)))) = bsCfg demo_broker"
proof -
  obtain r s' w' where run: "broker_Token demo_lib demo_clk flow_ctx (demo_broker, 31) = (r, s', w')" by (metis surj_pair)
  show ?thesis using broker_cache_bounded [OF run] run by simp
qed




end
