(* ===== verification/Preset_Errors.thy ===== *)
theory Preset_Errors
  imports Presets Oauth_Sources
begin

text \<open>
  What a caller of a preset stack sees when no credential can be had. The token source is one whose
  state (\<open>obs\<close>, an observation of the world) makes every fetch fail and stay failing; the other
  interceptors keep that observation. Two calls that differ in the network only are run side by
  side, so that equal results mean the network was not used.
\<close>

section \<open>Failing closed\<close>

text \<open>Every fetch from a world that looks like \<open>v\<close> fails and leaves it so.\<close>

definition source_down :: "('w \<Rightarrow> 'c) \<Rightarrow> 'c \<Rightarrow> 'w auth_interceptor \<Rightarrow> bool" where
  "source_down obs v a \<longleftrightarrow> (\<forall>c w. obs w = v \<longrightarrow> (\<exists>e w'. authSource a c w = (Inl e, w') \<and> obs w' = v))"

text \<open>Two functions fail alike, with an error \<open>E\<close> admits for the breaker they start from.\<close>

definition fail_alike ::
  "('w \<Rightarrow> 'c) \<Rightarrow> 'c \<Rightarrow> (breaker \<Rightarrow> err \<Rightarrow> bool) \<Rightarrow> (breaker \<times> 'w, 'm) unary \<Rightarrow> (breaker \<times> 'w, 'm) unary \<Rightarrow> bool" where
  "fail_alike obs v E f g \<longleftrightarrow> (\<forall>ctx sp h b w. obs w = v \<longrightarrow>
     (\<exists>x h' b' w'. f ctx sp (h, b, w) = ((None, Some x), h', b', w') \<and> g ctx sp (h, b, w) = ((None, Some x), h', b', w') \<and>
        E b x \<and> obs w' = v))"

lemma fail_alikeE:
  assumes "fail_alike obs v E f g" and "obs w = v"
  obtains x h' b' w' where "f ctx sp (h, b, w) = ((None, Some x), h', b', w')" "g ctx sp (h, b, w) = ((None, Some x), h', b', w')"
    "E b x" "obs w' = v"
  using assms unfolding fail_alike_def by blast

text \<open>The auth interceptor's error for a failed fetch, whatever the breaker.\<close>

definition credential_error :: "('w \<Rightarrow> 'c) \<Rightarrow> 'c \<Rightarrow> 'w auth_interceptor \<Rightarrow> breaker \<Rightarrow> err \<Rightarrow> bool" where
  "credential_error obs v a b x \<longleftrightarrow>
     (\<exists>c w e. obs w = v \<and> fst (authSource a c w) = Inl e \<and> x = EConnect CodeUnauthenticated (EWrap ''auth: token'' e) [])"

lemma auth_fail_alike:
  assumes "source_down obs v a" and "authSkip a = None"
  shows "fail_alike obs v (credential_error obs v a) (auth_WrapUnary (lift_auth a) next) (auth_WrapUnary (lift_auth a) next')"
  unfolding fail_alike_def
proof (intro allI impI)
  fix ctx :: ctx and sp :: spec and h :: header and b :: breaker and w
  assume w: "obs w = v"
  then obtain e w' where e: "authSource a ctx w = (Inl e, w')" "obs w' = v" using assms(1) unfolding source_down_def by blast
  then have "auth_WrapUnary (lift_auth a) k ctx sp (h, b, w) =
      ((None, Some (EConnect CodeUnauthenticated (EWrap ''auth: token'' e) [])), h, b, w')" for k :: "(breaker \<times> 'a, 'z) unary"
    using assms(2) by (simp add: auth_WrapUnary_def attach_def lift_auth_def lift_io_def)
  moreover have "credential_error obs v a b (EConnect CodeUnauthenticated (EWrap ''auth: token'' e) [])"
    unfolding credential_error_def using w e by (metis fst_conv)
  ultimately show "\<exists>x h' b' w'. auth_WrapUnary (lift_auth a) next ctx sp (h, b, w) = ((None, Some x), h', b', w') \<and>
      auth_WrapUnary (lift_auth a) next' ctx sp (h, b, w) = ((None, Some x), h', b', w') \<and> credential_error obs v a b x \<and> obs w' = v"
    using e(2) by blast
qed

text \<open>Retrying a failure that no attempt can avoid ends in that failure.\<close>

lemma retry_loop_fail_alike:
  assumes "fail_alike obs v (\<lambda>_. E) f g" and "env_keeps obs env" and "attempt \<le> MaxAttempts c" and "obs w = v"
  shows "\<exists>x h' b' w'. retry_loop (lift_env env) c f ctx sp attempt cap prev res (h, b, w) = ((None, Some x), h', b', w') \<and>
     retry_loop (lift_env env) c g ctx sp attempt cap prev res (h, b, w) = ((None, Some x), h', b', w') \<and> E x \<and> obs w' = v"
  using assms(3,4)
proof (induction "nat (MaxAttempts c - attempt)" arbitrary: attempt cap prev res h b w)
  case 0
  obtain x h' b' w' where "f ctx sp (h, b, w) = ((None, Some x), h', b', w')" "g ctx sp (h, b, w) = ((None, Some x), h', b', w')" "E x" "obs w' = v"
    by (rule fail_alikeE [OF assms(1) 0(3)]) blast
  moreover have "attempt = MaxAttempts c" using 0 by simp
  ultimately show ?case by (simp add: retry_loop.simps)
next
  case (Suc n)
  obtain x h' b' w' where fg: "f ctx sp (h, b, w) = ((None, Some x), h', b', w')" "g ctx sp (h, b, w) = ((None, Some x), h', b', w')" "E x" "obs w' = v"
    by (rule fail_alikeE [OF assms(1) Suc.prems(2)]) blast
  have k: "env_keeps (\<lambda>w. obs (snd w)) (lift_env env :: (breaker \<times> 'a) retry_env)" using assms(2) by (rule env_keeps_lift_snd)
  obtain d b2 w2 where d: "nextDelay (lift_env env) c x cap prev (b', w') = (d, b2, w2)" by (metis surj_pair)
  obtain fired b3 w3 where s: "retry_sleep (lift_env env) ctx d (b2, w2) = (fired, b3, w3)" by (metis surj_pair)
  have w3: "obs w3 = v" using nextDelay_keeps [OF k d] retry_sleep_keeps [OF k s] fg(4) by simp
  show ?case
  proof (cases "shouldRetry c x \<and> attempt \<noteq> MaxAttempts c \<and> fired")
    case True
    have n: "n = nat (MaxAttempts c - (attempt + 1))" "attempt + 1 \<le> MaxAttempts c" using Suc.hyps(2) by auto
    have step: "retry_loop (lift_env env) c k ctx sp attempt cap prev res (h, b, w) =
        retry_loop (lift_env env) c k ctx sp (attempt + 1) (retry_grow (lift_env env :: (breaker \<times> 'a) retry_env) c cap) d (None, Some x) (h', b3, w3)"
      if "k ctx sp (h, b, w) = ((None, Some x), h', b', w')" for k
      using that True d s Suc.prems(1) by (subst retry_loop.simps) simp
    show ?thesis unfolding step [of f, OF fg(1)] step [of g, OF fg(2)] by (rule Suc.hyps(1) [OF n w3])
  next
    case False
    have "\<exists>b4 w4. retry_loop (lift_env env) c k ctx sp attempt cap prev res (h, b, w) = ((None, Some x), h', b4, w4) \<and>
        (b4, w4) = (if \<not> shouldRetry c x \<or> attempt = MaxAttempts c then (b', w') else (b3, w3))"
      if "k ctx sp (h, b, w) = ((None, Some x), h', b', w')" for k
      using that False d s Suc.prems(1) by (subst retry_loop.simps) auto
    from this [of f, OF fg(1)] this [of g, OF fg(2)] show ?thesis using fg(3,4) w3 by (auto split: if_splits)
  qed
qed

lemma retry_fail_alike:
  assumes "fail_alike obs v (\<lambda>_. E) f g" and "env_keeps obs env" and "1 \<le> MaxAttempts c"
  shows "fail_alike obs v (\<lambda>_. E) (retry_WrapUnary (lift_env env) c f) (retry_WrapUnary (lift_env env) c g)"
  using assms(1) retry_loop_fail_alike [OF assms] unfolding fail_alike_def retry_WrapUnary_def by simp

lemma idem_fail_alike:
  assumes "fail_alike obs v E f g" and "keeps obs (iKeyFn i)"
  shows "fail_alike obs v E (idem_WrapUnary (lift_idem i) f) (idem_WrapUnary (lift_idem i) g)"
  unfolding fail_alike_def
proof (intro allI impI)
  fix ctx :: ctx and sp :: spec and h :: header and b :: breaker and w
  assume w: "obs w = v"
  obtain key w1 where key: "iKeyFn i w = (key, w1)" by (metis surj_pair)
  with assms(2) w have "obs w1 = v" by (metis keepsD)
  moreover define attachKey where "attachKey \<longleftrightarrow> \<not> iIsSafe i (Procedure sp) \<and> hdr_get h (iHeaderName i) = []"
  moreover define h1 w2 where "h1 = (if attachKey then hdr_set h (iHeaderName i) key else h)" and "w2 = (if attachKey then w1 else w)"
  ultimately have run: "obs w2 = v" "idem_WrapUnary (lift_idem i) k ctx sp (h, b, w) = k ctx sp (h1, b, w2)" for k :: "(breaker \<times> 'a, 'z) unary"
    using w key by (auto simp: idem_WrapUnary_def lift_idem_def lift_io_def)
  show "\<exists>x h' b' w'. idem_WrapUnary (lift_idem i) f ctx sp (h, b, w) = ((None, Some x), h', b', w') \<and>
      idem_WrapUnary (lift_idem i) g ctx sp (h, b, w) = ((None, Some x), h', b', w') \<and> E b x \<and> obs w' = v"
    unfolding run(2) [of f] run(2) [of g] using assms(1) run(1) unfolding fail_alike_def by blast
qed

lemma otel_fail_alike:
  assumes "fail_alike obs v E f g" and "otel_keeps obs api i"
  shows "fail_alike obs v E (otel_WrapUnary (lift_api api) (lift_otel i) f) (otel_WrapUnary (lift_api api) (lift_otel i) g)"
  unfolding fail_alike_def
proof (intro allI impI)
  fix ctx :: ctx and sp :: spec and h :: header and b :: breaker and w
  assume w: "obs w = v"
  obtain c s rid h1 w1 where st: "otel_start api i ctx sp SpanKindClient (h, w) = ((c, s, rid), h1, w1)" by (metis surj_pair)
  with assms(2) w have w1: "obs w1 = v" by (metis otel_start_keeps)
  obtain x h' b' w' where fg: "f c sp (h1, b, w1) = ((None, Some x), h', b', w')" "g c sp (h1, b, w1) = ((None, Some x), h', b', w')"
    "E b x" "obs w' = v" by (rule fail_alikeE [OF assms(1) w1]) blast
  have "otel_WrapUnary (lift_api api) (lift_otel i) k ctx sp (h, b, w) =
      ((None, Some x), h', b', spanCall api s End (otel_finish api s (Some x) w'))" if "k c sp (h1, b, w1) = ((None, Some x), h', b', w')" for k
    using that st by (simp add: otel_WrapUnary_def lifted_start_breaker lifted_finish_breaker lifted_spanCall Let_def)
  moreover have "obs (spanCall api s End (otel_finish api s (Some x) w')) = v"
    using assms(2) fg(4) otel_finish_keeps [OF assms(2)] by (simp add: otel_keeps_def)
  ultimately show "\<exists>x h' b' w'. otel_WrapUnary (lift_api api) (lift_otel i) f ctx sp (h, b, w) = ((None, Some x), h', b', w') \<and>
      otel_WrapUnary (lift_api api) (lift_otel i) g ctx sp (h, b, w) = ((None, Some x), h', b', w') \<and> E b x \<and> obs w' = v"
    using fg by blast
qed

text \<open>The breaker adds its own rejection, which a closed breaker never gives.\<close>

definition breaker_or ::
  "'w clock \<Rightarrow> (int \<Rightarrow> detail option) \<Rightarrow> (err \<Rightarrow> bool) \<Rightarrow> breaker \<Rightarrow> err \<Rightarrow> bool" where
  "breaker_or clk mk E b x \<longleftrightarrow> E x \<or> bstate b \<noteq> StateClosed \<and> (\<exists>w. fst (allow clk mk b w) = Some x)"

lemma breaker_fail_alike:
  assumes "fail_alike obs v (\<lambda>_. E) f g" and "keeps obs clk"
  shows "fail_alike obs v (breaker_or clk mk E) (breaker_WrapUnary clk mk f) (breaker_WrapUnary clk mk g)"
  unfolding fail_alike_def
proof (intro allI impI)
  fix ctx :: ctx and sp :: spec and h :: header and b :: breaker and w
  assume w: "obs w = v"
  obtain r b1 w1 where al: "allow clk mk b w = (r, b1, w1)" by (metis surj_pair)
  have w1: "obs w1 = v" using allow_keeps [OF assms(2) al] w by simp
  show "\<exists>x h' b' w'. breaker_WrapUnary clk mk f ctx sp (h, b, w) = ((None, Some x), h', b', w') \<and>
      breaker_WrapUnary clk mk g ctx sp (h, b, w) = ((None, Some x), h', b', w') \<and> breaker_or clk mk E b x \<and> obs w' = v"
  proof (cases r)
    case (Some e)
    then have "bstate b \<noteq> StateClosed" using al allow_closed [of b clk mk w] by auto
    then have "breaker_or clk mk E b e" unfolding breaker_or_def using al Some by (metis fst_conv)
    then show ?thesis using al Some w1 by (simp add: breaker_WrapUnary_def)
  next
    case None
    obtain x h' b' w' where fg: "f ctx sp (h, b1, w1) = ((None, Some x), h', b', w')" "g ctx sp (h, b1, w1) = ((None, Some x), h', b', w')"
      "E x" "obs w' = v" by (rule fail_alikeE [OF assms(1) w1]) blast
    obtain b3 w3 where rc: "record_result clk (isFailure b' (Some x)) b' w' = (b3, w3)" by (metis surj_pair)
    have "obs w3 = v" using record_keeps [OF assms(2) rc] fg(4) by simp
    then show ?thesis using al None fg rc by (simp add: breaker_WrapUnary_def breaker_or_def)
  qed
qed

section \<open>The presets without a credential\<close>

text \<open>The caller can still read the source's own error: its OAuth code and every sentinel in it.\<close>

definition reports :: "err \<Rightarrow> err \<Rightarrow> bool" where
  "reports x e \<longleftrightarrow> Code (Some x) = CodeUnauthenticated \<and> as_oauth x = as_oauth e \<and> (\<forall>s. errors_is x s = errors_is e s)"

lemma credential_error_reports:
  assumes "credential_error obs v a b x"
  obtains c w e where "obs w = v" "fst (authSource a c w) = Inl e" "reports x e"
  using assms by (auto simp: credential_error_def reports_def Code_def AsConnect_def)

fun others_keep :: "('w \<Rightarrow> 'c) \<Rightarrow> ('w, 's) preset_env \<Rightarrow> 'w ic \<Rightarrow> bool" where
  "others_keep obs env (AuthIC a) = True"
| "others_keep obs env i = ic_keeps obs env i"

text \<open>
  [C13] Without a credential a preset fails closed and says why. While the token source is down
  (every fetch fails and leaves it down), a call through either stack never reaches the network:
  its result, headers and effects are the same for any two next functions. The caller gets no
  response and an Unauthenticated error that still has the source's error inside it (its OAuth
  code and every sentinel \<^verbatim>\<open>errors.Is\<close> finds in it), however often retry repeats the call; only a
  breaker that is not closed may answer with its own rejection instead.
\<close>

theorem preset_fails_closed:
  fixes "next" next' :: "(breaker \<times> 'w, 'm) unary"
  assumes "Standalone env cfg = Inr (ics, b0)" and "Mesh env (mesh_of cfg) = Inr mics"
    and "sAuth cfg = Some opts" and "auth_Interceptor opts = Inr a" and "authSkip a = None"
    and "source_down obs (obs w) a" and "list_all (others_keep obs env) ics"
  shows "(\<exists>x h' b' w'. chain env ics next ctx sp (h, b, w) = ((None, Some x), h', b', w') \<and>
       chain env ics next' ctx sp (h, b, w) = ((None, Some x), h', b', w') \<and>
       ((\<exists>c w1 e. obs w1 = obs w \<and> fst (authSource a c w1) = Inl e \<and> reports x e) \<or>
        bstate b \<noteq> StateClosed \<and> (\<exists>w1. fst (allow (pClock env) (pDetail env) b w1) = Some x))) \<and>
    (\<exists>x h' b' w'. chain env mics next ctx sp (h, b, w) = ((None, Some x), h', b', w') \<and>
       chain env mics next' ctx sp (h, b, w) = ((None, Some x), h', b', w') \<and>
       (\<exists>c w1 e. obs w1 = obs w \<and> fst (authSource a c w1) = Inl e \<and> reports x e))"
proof -
  let ?o = "OtelIC (preset_otel env cfg)" and ?i = "IdemIC (preset_idem env cfg)" and ?r = "RetryIC (preset_retry cfg)"
  define E where "E = credential_error obs (obs w) a b0"
  have E: "credential_error obs (obs w) a = (\<lambda>_. E)" by (intro ext) (simp add: E_def credential_error_def)
  have ics: "ics = [?o, BreakerIC, ?i, ?r, AuthIC a]" and mics: "mics = [?o, ?i, AuthIC a]"
    using assms(1-4) by (auto simp: Standalone_def Mesh_def mesh_of_def Let_def)
  have keep: "otel_keeps obs (pApi env) (preset_otel env cfg)" "keeps obs (pClock env)" "keeps obs (iKeyFn (preset_idem env cfg))"
    "env_keeps obs (pRetry env)" using assms(7) unfolding ics by simp_all
  have auth: "fail_alike obs (obs w) (\<lambda>_. E) (auth_WrapUnary (lift_auth a) next) (auth_WrapUnary (lift_auth a) next')"
    using auth_fail_alike [OF assms(6,5), of "next" next'] unfolding E .
  have standalone: "fail_alike obs (obs w) (breaker_or (pClock env) (pDetail env) E) (chain env ics next) (chain env ics next')"
    unfolding ics chain_simps wrap_ic.simps
    by (rule otel_fail_alike [OF _ keep(1)], rule breaker_fail_alike [OF _ keep(2)], rule idem_fail_alike [OF _ keep(3)],
        rule retry_fail_alike [OF _ keep(4) retry_Interceptor_attempts], rule auth)
  have mesh: "fail_alike obs (obs w) (\<lambda>_. E) (chain env mics next) (chain env mics next')"
    unfolding mics chain_simps wrap_ic.simps
    by (rule otel_fail_alike [OF _ keep(1)], rule idem_fail_alike [OF _ keep(3)], rule auth)
  have rep: "\<exists>c w1 e. obs w1 = obs w \<and> fst (authSource a c w1) = Inl e \<and> reports x e" if "E x" for x
    using that unfolding E_def by (rule credential_error_reports) blast
  show ?thesis
  proof (rule conjI)
    show "\<exists>x h' b' w'. chain env ics next ctx sp (h, b, w) = ((None, Some x), h', b', w') \<and>
       chain env ics next' ctx sp (h, b, w) = ((None, Some x), h', b', w') \<and>
       ((\<exists>c w1 e. obs w1 = obs w \<and> fst (authSource a c w1) = Inl e \<and> reports x e) \<or>
        bstate b \<noteq> StateClosed \<and> (\<exists>w1. fst (allow (pClock env) (pDetail env) b w1) = Some x))"
      by (rule fail_alikeE [OF standalone refl]) (unfold breaker_or_def, blast dest: rep)
    show "\<exists>x h' b' w'. chain env mics next ctx sp (h, b, w) = ((None, Some x), h', b', w') \<and>
       chain env mics next' ctx sp (h, b, w) = ((None, Some x), h', b', w') \<and>
       (\<exists>c w1 e. obs w1 = obs w \<and> fst (authSource a c w1) = Inl e \<and> reports x e)"
      by (rule fail_alikeE [OF mesh refl]) (blast dest: rep)
  qed
qed

section \<open>A token endpoint that is down\<close>

text \<open>A client-credentials source without a cached token whose HTTP client finds no server.\<close>

type_synonym down_world = "int ClientCredentialsSource \<times> int"

definition down_cc :: "int ClientCredentialsSource" where
  "down_cc = (demo_cc (\<lambda>ctx req w. (Inl (ESentinel IoEOF), w + 1)))\<lparr>csCache := None\<rparr>"

definition down_options :: "down_world auth_options" where
  "down_options = \<lparr>aSource = Some (cc_Token demo_lib (\<lambda>t. (t, t))), aFormatHeader = Some id, aSkip = None, aHeaderName = []\<rparr>"

definition down_auth :: "down_world auth_interceptor" where
  "down_auth = \<lparr>authSource = cc_Token demo_lib (\<lambda>t. (t, t)), authFormat = id, authSkip = None, authHeader = ''Authorization''\<rparr>"

definition down_env :: "(down_world, unit) preset_env" where
  "down_env = \<lparr>pApi = silent_api, pClock = lift_io (\<lambda>t. (t, t)), pDetail = (\<lambda>d. None), pRetry = lift_env demo_env,
     pRand16 = (\<lambda>w. (None, w)), pWall = lift_io (\<lambda>t. (t, t))\<rparr>"

definition down_cfg :: "down_world standalone_config" where
  "down_cfg = \<lparr>sAuth = Some down_options, sRetry = None, sBreaker = None,
     sIdempotency = Some \<lparr>KeyFn = Some (\<lambda>w. (''k1'', w)), IsSafe = None, HeaderName = []\<rparr>, sOTel = None\<rparr>"

definition down_ics :: "down_world ic list" where
  "down_ics = [OtelIC (preset_otel down_env down_cfg), BreakerIC, IdemIC (preset_idem down_env down_cfg),
     RetryIC (preset_retry down_cfg), AuthIC down_auth]"

text \<open>A network that would answer every call.\<close>

definition answering :: "(breaker \<times> down_world, nat) unary" where
  "answering ctx sp st = ((Some \<lparr>rspHeader = [], rspMsg = 7\<rparr>, None), st)"

lemma down_fetch:
  "cc_Token demo_lib (\<lambda>t. (t, t)) c (down_cc, t) = (Inl (FromTransportError (ESentinel IoEOF)), down_cc, t + 1)"
  by (simp add: cc_Token_def down_cc_def demo_cc_def cc_refreshLocked_def postTokenRequest_def demo_lib_def Let_def)

lemma down_source: "source_down fst down_cc down_auth"
  by (auto simp: source_down_def down_auth_def down_fetch)

lemma down_standalone:
  "Standalone down_env down_cfg = Inr (down_ics, breaker_New breaker_DefaultConfig)" "auth_Interceptor down_options = Inr down_auth"
  by (simp_all add: Standalone_def down_ics_def down_cfg_def down_options_def auth_Interceptor_def down_auth_def Let_def)

lemma down_keeps: "list_all (others_keep fst down_env) down_ics"
  by (simp add: down_ics_def down_env_def)
    (simp add: otel_keeps_def keeps_def silent_api_def otel_Interceptor_def down_cfg_def deref_def zero_otel_options_def
      defaultRequestID_def idem_Interceptor_def)

theorem preset_fails_closed_witness:
  "\<exists>x h' b' w'. chain down_env down_ics answering background demo_call ([], breaker_New breaker_DefaultConfig, down_cc, 0) =
       ((None, Some x), h', b', w') \<and>
     Code (Some x) = CodeUnauthenticated \<and> as_oauth x = Some (''transport'', [], 0) \<and> errors_is x IoEOF"
proof -
  obtain mics where m: "Mesh down_env (mesh_of down_cfg) = Inr mics"
    by (simp add: Mesh_def mesh_of_def down_cfg_def down_standalone(2) Let_def)
  have closed: "bstate (breaker_New breaker_DefaultConfig) = StateClosed" by (simp add: breaker_New_def Let_def)
  have src: "source_down fst (fst (down_cc, 0 :: int)) down_auth" using down_source by simp
  obtain x h' b' w' c w1 e where
    run: "chain down_env down_ics answering background demo_call ([], breaker_New breaker_DefaultConfig, down_cc, 0) = ((None, Some x), h', b', w')"
    and e: "fst w1 = fst (down_cc, 0 :: int)" "fst (authSource down_auth c w1) = Inl e" "reports x e"
    using preset_fails_closed [OF down_standalone(1) m _ down_standalone(2) _ src down_keeps, of answering background demo_call
        "[]" "breaker_New breaker_DefaultConfig" answering] closed
    by (auto simp: down_cfg_def down_auth_def)
  have "e = FromTransportError (ESentinel IoEOF)" using e(1,2) down_fetch by (cases w1) (auto simp: down_auth_def)
  then have "as_oauth x = Some (''transport'', [], 0) \<and> errors_is x IoEOF \<and> Code (Some x) = CodeUnauthenticated"
    using e(3) by (simp add: reports_def FromTransportError_def ErrorCodeTransport_def)
  then show ?thesis using run by blast
qed

end
