(* ===== verification/Ergo.thy ===== *)
theory Ergo
  imports Idempotency Float64
begin

text \<open>
  The primitive kit of \<^verbatim>\<open>src/ergo\<close>: the context slots for the idempotency key and the correlation
  id (\<^verbatim>\<open>context.go\<close>), fresh identifiers (\<^verbatim>\<open>id.go\<close>), composed operations whose legs get a key each
  (\<^verbatim>\<open>composed.go\<close>), and the poller of a long-running operation (\<^verbatim>\<open>operation.go\<close>). The kernel's
  random bytes, the select between the timer and \<^verbatim>\<open>ctx.Done()\<close> and the value of an out-of-range
  float conversion are the record \<open>ergo_env\<close>. The polling loop has no bound of its own, so it is a
  partial function: \<open>None\<close> is a call that never returns.
\<close>

section \<open>Context slots\<close>

text \<open>The two unexported keys; a later value hides an earlier one of the same key.\<close>

definition idempotencyKey :: string where "idempotencyKey = ''ergo.idempotencyKey''"
definition correlationKey :: string where "correlationKey = ''ergo.correlationKey''"

definition WithValue :: "ctx \<Rightarrow> string \<Rightarrow> string \<Rightarrow> ctx" where
  "WithValue ctx k v = ctx\<lparr>ctxValues := (k, v) # ctxValues ctx\<rparr>"

definition ctx_slot :: "ctx \<Rightarrow> string \<Rightarrow> string \<times> bool" where
  "ctx_slot ctx k = (case map_of (ctxValues ctx) k of Some v \<Rightarrow> (v, v \<noteq> []) | None \<Rightarrow> ([], False))"

definition WithIdempotencyKey :: "ctx \<Rightarrow> string \<Rightarrow> ctx" where
  "WithIdempotencyKey ctx key = (if key = [] then ctx else WithValue ctx idempotencyKey key)"

definition IdempotencyKey :: "ctx \<Rightarrow> string \<times> bool" where
  "IdempotencyKey ctx = ctx_slot ctx idempotencyKey"

definition WithCorrelationID :: "ctx \<Rightarrow> string \<Rightarrow> ctx" where
  "WithCorrelationID ctx i = (if i = [] then ctx else WithValue ctx correlationKey i)"

definition CorrelationID :: "ctx \<Rightarrow> string \<times> bool" where
  "CorrelationID ctx = ctx_slot ctx correlationKey"

lemmas ctx_keys = idempotencyKey_def correlationKey_def

lemma ctx_slots [simp]:
  "k \<noteq> [] \<Longrightarrow> IdempotencyKey (WithIdempotencyKey ctx k) = (k, True)"
  "i \<noteq> [] \<Longrightarrow> CorrelationID (WithCorrelationID ctx i) = (i, True)"
  "IdempotencyKey (WithCorrelationID ctx i) = IdempotencyKey ctx"
  "CorrelationID (WithIdempotencyKey ctx k) = CorrelationID ctx"
  by (simp_all add: IdempotencyKey_def CorrelationID_def WithIdempotencyKey_def WithCorrelationID_def WithValue_def
      ctx_slot_def ctx_keys)

section \<open>Identifiers\<close>

text \<open>\<^verbatim>\<open>rand.Read\<close> of 16 bytes; its error when the source is unavailable.\<close>

definition newID :: "('w, err + 8 word list) io \<Rightarrow> ('w, err + string) io" where
  "newID rd w =
     (case rd w of
        (Inl e, w') \<Rightarrow> (Inl (EWrap ''ergo: read crypto/rand'' e), w')
      | (Inr b, w') \<Rightarrow> (Inr (hex_bytes b), w'))"

section \<open>Composed operations\<close>

record ComposedOp =
  coID :: string
  Correlation :: string
  coLeg :: int

definition ErrNilComposedOp :: err where "ErrNilComposedOp = ESentinel (Sentinel ''ergo: nil ComposedOp'')"

definition NewComposedOp :: "('w, err + 8 word list) io \<Rightarrow> ctx \<Rightarrow> ('w, err + ComposedOp) io" where
  "NewComposedOp rd parent w =
     (case newID rd w of
        (Inl e, w1) \<Rightarrow> (Inl e, w1)
      | (Inr i, w1) \<Rightarrow>
          (case CorrelationID parent of
             (correlation, ok) \<Rightarrow>
               if \<not> ok \<or> correlation = [] then
                 (case newID rd w1 of
                    (Inl e, w2) \<Rightarrow> (Inl e, w2)
                  | (Inr c, w2) \<Rightarrow> (Inr \<lparr>coID = i, Correlation = c, coLeg = 0\<rparr>, w2))
               else (Inr \<lparr>coID = i, Correlation = correlation, coLeg = 0\<rparr>, w1)))"

definition leg_key :: "ComposedOp \<Rightarrow> string" where
  "leg_key x = coID x @ ''/'' @ int_text (coLeg x)"

text \<open>The operation is shared by pointer: the updated one is returned beside the leg's result.\<close>

definition Run ::
  "'t \<Rightarrow> ctx \<Rightarrow> ComposedOp option \<Rightarrow> (ctx \<Rightarrow> ('w, 't \<times> err option) io) option \<Rightarrow>
   ('w, ('t \<times> err option) \<times> ComposedOp option) io" where
  "Run zero ctx cop fn w =
     (case cop of
        None \<Rightarrow> (((zero, Some ErrNilComposedOp), None), w)
      | Some x \<Rightarrow>
          (case fn of
             None \<Rightarrow> (((zero, Some (EText ''ergo: Run requires a non-nil fn'')), Some x), w)
           | Some f \<Rightarrow>
               let key = leg_key x;
                   x' = x\<lparr>coLeg := wrap64 (coLeg x + 1)\<rparr>;
                   ctx1 = WithIdempotencyKey ctx key;
                   ctx2 = WithCorrelationID ctx1 (Correlation x)
               in (case f ctx2 w of (r, w') \<Rightarrow> ((r, Some x'), w'))))"

text \<open>The legs of one operation, run one after the other.\<close>

fun run_legs ::
  "'t \<Rightarrow> ctx \<Rightarrow> ComposedOp \<Rightarrow> (ctx \<Rightarrow> ('w, 't \<times> err option) io) list \<Rightarrow> ('w, ('t \<times> err option) list \<times> ComposedOp) io" where
  "run_legs zero ctx x [] w = (([], x), w)"
| "run_legs zero ctx x (f # fs) w =
     (case Run zero ctx (Some x) (Some f) w of
        ((r, x'), w1) \<Rightarrow> (case run_legs zero ctx (the x') fs w1 of ((rs, x2), w2) \<Rightarrow> ((r # rs, x2), w2)))"

section \<open>Long-running operations\<close>

record 't OperationStatus =
  opResult :: 't
  opErr :: "err option"
  opRetryAfter :: int
  opDone :: bool

record ('w, 't) Operation =
  Poll :: "(ctx \<Rightarrow> ('w, err + 't OperationStatus) io) option"
  opSleep :: "(ctx \<Rightarrow> int \<Rightarrow> ('w, err option) io) option"
  opID :: string
  InitialDelay :: int
  MaxDelay :: int
  opMultiplier :: float64

record 'w ergo_env =
  eRand8 :: "('w, 8 word list option) io"
  eTimer :: "ctx \<Rightarrow> int \<Rightarrow> ('w, err option) io"
  eOutOfRange :: "float64 \<Rightarrow> int"

definition ErrNoPoll :: err where "ErrNoPoll = ESentinel (Sentinel ''ergo: Operation requires a Poll function'')"
definition DefaultInitialDelay :: int where "DefaultInitialDelay = second"
definition DefaultMaxDelay :: int where "DefaultMaxDelay = 30 * second"
definition ergo_DefaultMultiplier :: float64 where "ergo_DefaultMultiplier = Fin 2"

lemmas ergo_defaults = DefaultInitialDelay_def DefaultMaxDelay_def ergo_DefaultMultiplier_def

definition tuning :: "('w, 't) Operation \<Rightarrow> int \<times> int \<times> float64" where
  "tuning x =
     (if InitialDelay x \<le> 0 then DefaultInitialDelay else InitialDelay x,
      if MaxDelay x \<le> 0 then DefaultMaxDelay else MaxDelay x,
      if f64_less (opMultiplier x) (Fin 1) then ergo_DefaultMultiplier else opMultiplier x)"

text \<open>\<^verbatim>\<open>binary.BigEndian.Uint64\<close>: the first byte is the most significant.\<close>

definition be_uint64 :: "8 word list \<Rightarrow> 64 word" where
  "be_uint64 bs = foldl (\<lambda>acc b. push_bit 8 acc + ucast b) 0 bs"

definition jitterShiftBits :: nat where "jitterShiftBits = 11"
definition jitterMantissa :: int where "jitterMantissa = 2 ^ 53"
definition midJitterDiv :: int where "midJitterDiv = 2"

lemmas ergo_jitter_consts = jitterShiftBits_def jitterMantissa_def midJitterDiv_def

definition jitterDraw :: "'w ergo_env \<Rightarrow> int \<Rightarrow> ('w, int) io" where
  "jitterDraw env upper w =
     (if upper \<le> 0 then (0, w)
      else
        (case eRand8 env w of
           (None, w') \<Rightarrow> (upper div midJitterDiv, w')
         | (Some buf, w') \<Rightarrow>
             (let bits = drop_bit jitterShiftBits (be_uint64 buf);
                  frac = f64_div (f64_of_int (uint bits)) (f64_of_int jitterMantissa)
              in (f64_to_int64 (eOutOfRange env) (f64_mul frac (f64_of_int upper)), w'))))"

definition ergo_nextDelay :: "'w ergo_env \<Rightarrow> int \<Rightarrow> int \<Rightarrow> ('w, int) io" where
  "ergo_nextDelay env cap serverHint w =
     (if 0 < serverHint then (serverHint, w)
      else if cap \<le> 0 then (0, w)
      else jitterDraw env cap w)"

definition ergo_grow :: "'w ergo_env \<Rightarrow> int \<Rightarrow> float64 \<Rightarrow> int \<Rightarrow> int" where
  "ergo_grow env d mult maxDelay =
     (let nxt = f64_to_int64 (eOutOfRange env) (f64_mul (f64_of_int d) mult)
      in if maxDelay < nxt then maxDelay else nxt)"

definition defaultSleep :: "'w ergo_env \<Rightarrow> ctx \<Rightarrow> int \<Rightarrow> ('w, err option) io" where
  "defaultSleep env ctx d w =
     (if d \<le> 0 then (None, w)
      else
        (case eTimer env ctx d w of
           (Some e, w') \<Rightarrow> (Some (EWrap ''ergo: sleep cancelled'' e), w')
         | (None, w') \<Rightarrow> (None, w')))"

partial_function (option) wait_loop ::
  "'w ergo_env \<Rightarrow> (ctx \<Rightarrow> ('w, err + 't OperationStatus) io) \<Rightarrow> (ctx \<Rightarrow> int \<Rightarrow> ('w, err option) io) \<Rightarrow> 't \<Rightarrow> ctx \<Rightarrow>
   int \<Rightarrow> float64 \<Rightarrow> int \<Rightarrow> 'w \<Rightarrow> (('t \<times> err option) \<times> 'w) option" where
  "wait_loop env poll slp zero ctx maxDelay mult cap w =
     (case poll ctx w of
        (Inl e, w1) \<Rightarrow> Some ((zero, Some (EWrap ''ergo: poll'' e)), w1)
      | (Inr status, w1) \<Rightarrow>
          if opDone status then Some ((opResult status, opErr status), w1)
          else
            (case ergo_nextDelay env cap (opRetryAfter status) w1 of
               (wait, w2) \<Rightarrow>
                 (case slp ctx wait w2 of
                    (Some e, w3) \<Rightarrow> Some ((zero, Some (EWrap ''ergo: wait'' e)), w3)
                  | (None, w3) \<Rightarrow>
                      wait_loop env poll slp zero ctx maxDelay mult (ergo_grow env cap mult maxDelay) w3)))"

definition op_sleep :: "'w ergo_env \<Rightarrow> ('w, 't) Operation \<Rightarrow> ctx \<Rightarrow> int \<Rightarrow> ('w, err option) io" where
  "op_sleep env x = (case opSleep x of None \<Rightarrow> defaultSleep env | Some f \<Rightarrow> f)"

definition Wait ::
  "'w ergo_env \<Rightarrow> 't \<Rightarrow> ('w, 't) Operation option \<Rightarrow> ctx \<Rightarrow> 'w \<Rightarrow> (('t \<times> err option) \<times> 'w) option" where
  "Wait env zero oper ctx w =
     (case oper of
        None \<Rightarrow> Some ((zero, Some ErrNoPoll), w)
      | Some x \<Rightarrow>
          (case Poll x of
             None \<Rightarrow> Some ((zero, Some ErrNoPoll), w)
           | Some poll \<Rightarrow>
               (case tuning x of
                  (initial, maxDelay, mult) \<Rightarrow> wait_loop env poll (op_sleep env x) zero ctx maxDelay mult initial w)))"

section \<open>What a poller may do\<close>

datatype 't op_event = Polled "err + 't OperationStatus" | Slept int "err option"

text \<open>
  The abstract poller, over the events of one call: it polls, returns as soon as a poll fails or
  reports completion, and otherwise sleeps and polls again. The sleep lasts as long as the server
  asked, or, unasked, at most \<open>b\<close> in the first round and at most \<open>maxd\<close> in the later ones.
\<close>

definition delay_ok :: "int \<Rightarrow> 't OperationStatus \<Rightarrow> int \<Rightarrow> bool" where
  "delay_ok b st d \<longleftrightarrow> (if 0 < opRetryAfter st then d = opRetryAfter st else 0 \<le> d \<and> d \<le> b)"

inductive op_run :: "'t \<Rightarrow> int \<Rightarrow> int \<Rightarrow> 't op_event list \<Rightarrow> 't \<times> err option \<Rightarrow> bool" for zero :: 't and maxd :: int where
  poll_failed: "op_run zero maxd b [Polled (Inl e)] (zero, Some (EWrap ''ergo: poll'' e))"
| poll_done: "opDone st \<Longrightarrow> op_run zero maxd b [Polled (Inr st)] (opResult st, opErr st)"
| sleep_failed: "\<not> opDone st \<Longrightarrow> delay_ok b st d \<Longrightarrow>
    op_run zero maxd b [Polled (Inr st), Slept d (Some e)] (zero, Some (EWrap ''ergo: wait'' e))"
| poll_again: "\<not> opDone st \<Longrightarrow> delay_ok b st d \<Longrightarrow> op_run zero maxd maxd tr r \<Longrightarrow>
    op_run zero maxd b (Polled (Inr st) # Slept d None # tr) r"

text \<open>The poller's surroundings, recording every poll and every sleep.\<close>

definition logged_poll :: "(ctx \<Rightarrow> ('w, err + 't OperationStatus) io) \<Rightarrow> ctx \<Rightarrow> ('t op_event list \<times> 'w, err + 't OperationStatus) io" where
  "logged_poll poll ctx = (\<lambda>(g, w). case poll ctx w of (r, w') \<Rightarrow> (r, g @ [Polled r], w'))"

definition logged_sleep :: "(ctx \<Rightarrow> int \<Rightarrow> ('w, err option) io) \<Rightarrow> ctx \<Rightarrow> int \<Rightarrow> ('t op_event list \<times> 'w, err option) io" where
  "logged_sleep slp ctx d = (\<lambda>(g, w). case slp ctx d w of (r, w') \<Rightarrow> (r, g @ [Slept d r], w'))"

definition lift_ergo :: "'w ergo_env \<Rightarrow> ('g \<times> 'w) ergo_env" where
  "lift_ergo env = \<lparr>eRand8 = lift_io (eRand8 env), eTimer = (\<lambda>c d. lift_io (eTimer env c d)), eOutOfRange = eOutOfRange env\<rparr>"

definition logged_op :: "'w ergo_env \<Rightarrow> ('w, 't) Operation \<Rightarrow> ('t op_event list \<times> 'w, 't) Operation" where
  "logged_op env x =
     \<lparr>Poll = map_option logged_poll (Poll x), opSleep = Some (logged_sleep (op_sleep env x)), opID = opID x,
      InitialDelay = InitialDelay x, MaxDelay = MaxDelay x, opMultiplier = opMultiplier x\<rparr>"

lemma nextDelay_lift_ergo: "ergo_nextDelay (lift_ergo env) cap hint = lift_io (ergo_nextDelay env cap hint)"
  by (rule ext) (auto simp: ergo_nextDelay_def jitterDraw_def lift_ergo_def lift_io_def Let_def split: prod.splits option.splits)

lemma grow_lift_ergo: "ergo_grow (lift_ergo env) = ergo_grow env"
  by (intro ext) (simp add: ergo_grow_def lift_ergo_def)

lemma jitterDraw_bounds:
  assumes "jitterDraw env cap w = (d, w')" and "0 < cap" and "cap \<le> 2 ^ 53"
  shows "0 \<le> d \<and> d \<le> cap"
proof (cases "eRand8 env w")
  case (Pair buf w1)
  show ?thesis
  proof (cases buf)
    case None
    then show ?thesis using assms Pair by (auto simp: jitterDraw_def ergo_jitter_consts)
  next
    case (Some bs)
    obtain q where q: "f64_div (f64_of_int (uint (drop_bit 11 (be_uint64 bs)))) (f64_of_int (2 ^ 53)) = Fin q" "0 \<le> q" "q \<le> 1"
      using f64_unit_fraction uint_drop11 by (metis uint_ge_0)
    have "d = f64_to_int64 (eOutOfRange env) (f64_mul (Fin q) (f64_of_int cap))"
      using assms(1,2) Pair Some q(1) by (simp only: jitterDraw_def ergo_jitter_consts Let_def not_le [symmetric] if_False prod.case option.case prod.inject)
    then show ?thesis using f64_scale_bounds [OF q(2,3)] assms(2,3) by simp
  qed
qed

lemma nextDelay_ok:
  assumes "ergo_nextDelay env cap (opRetryAfter st) w = (d, w')" and "cap \<le> 2 ^ 53"
  shows "delay_ok (max 0 cap) st d"
  using assms jitterDraw_bounds [of env cap w d w'] by (auto simp: ergo_nextDelay_def delay_ok_def split: if_splits)

lemma nextDelay_keeps_ergo:
  assumes "keeps m (eRand8 env)" and "ergo_nextDelay env cap hint w = (d, w')"
  shows "m w' = m w"
  using assms by (auto simp: ergo_nextDelay_def jitterDraw_def Let_def dest: keepsD split: if_splits prod.splits option.splits)

lemma delay_ok_mono: "delay_ok b st d \<Longrightarrow> b \<le> c \<Longrightarrow> delay_ok c st d"
  by (auto simp: delay_ok_def split: if_splits)

lemma op_run_mono: "op_run zero maxd b tr r \<Longrightarrow> b \<le> c \<Longrightarrow> op_run zero maxd c tr r"
  by (cases rule: op_run.cases) (auto intro: op_run.intros delay_ok_mono)

lemma wait_loop_runs:
  assumes "\<And>w st w'. poll ctx w = (Inr st, w') \<Longrightarrow> \<not> opDone st \<Longrightarrow> m w' < (m w :: nat)"
    and "keeps m (eRand8 env)" and "\<And>d. keeps m (slp ctx d)" and "0 < maxd" and "maxd \<le> 2 ^ 53" and "cap \<le> 2 ^ 53"
  shows "\<exists>r tr w'. wait_loop (lift_ergo env) (logged_poll poll) (logged_sleep slp) zero ctx maxd mult cap (g, w) =
      Some (r, g @ tr, w') \<and> op_run zero maxd (max 0 cap) tr r"
  using assms(6)
proof (induction "m w" arbitrary: w g cap rule: less_induct)
  case less
  obtain p w1 where p: "poll ctx w = (p, w1)" by (metis surj_pair)
  show ?case
  proof (cases p)
    case (Inl e)
    then show ?thesis using p by (subst wait_loop.simps) (auto simp: logged_poll_def intro: poll_failed)
  next
    case (Inr st)
    obtain d w2 where d: "ergo_nextDelay env cap (opRetryAfter st) w1 = (d, w2)" by (metis surj_pair)
    obtain s w3 where s: "slp ctx d w2 = (s, w3)" by (metis surj_pair)
    have dok: "delay_ok (max 0 cap) st d" using nextDelay_ok [OF d] less.prems by simp
    show ?thesis
    proof (cases "opDone st")
      case True
      then show ?thesis using p Inr by (subst wait_loop.simps) (auto simp: logged_poll_def intro: poll_done)
    next
      case False
      note step = p Inr False d s logged_poll_def logged_sleep_def nextDelay_lift_ergo grow_lift_ergo lift_io_def
      show ?thesis
      proof (cases s)
        case (Some e)
        then show ?thesis using dok False by (subst wait_loop.simps) (auto simp: step intro: sleep_failed)
      next
        case None
        have "m w3 = m w1" using keepsD [OF assms(3) s] nextDelay_keeps_ergo [OF assms(2) d] by simp
        then have "m w3 < m w" using assms(1) p Inr False by simp
        moreover have c: "ergo_grow env cap mult maxd \<le> maxd" by (simp add: ergo_grow_def Let_def)
        ultimately obtain r tr w' where ih: "wait_loop (lift_ergo env) (logged_poll poll) (logged_sleep slp) zero ctx maxd mult
            (ergo_grow env cap mult maxd) ((g @ [Polled (Inr st)]) @ [Slept d None], w3) = Some (r, ((g @ [Polled (Inr st)]) @ [Slept d None]) @ tr, w')"
          and run: "op_run zero maxd (max 0 (ergo_grow env cap mult maxd)) tr r"
          using less.hyps [of w3 "ergo_grow env cap mult maxd" "(g @ [Polled (Inr st)]) @ [Slept d None]"] assms(5) by fastforce
        have "op_run zero maxd maxd tr r" using op_run_mono [OF run] c assms(4) by simp
        then have "op_run zero maxd (max 0 cap) (Polled (Inr st) # Slept d None # tr) r"
          using False dok by (intro poll_again)
        moreover have "wait_loop (lift_ergo env) (logged_poll poll) (logged_sleep slp) zero ctx maxd mult cap (g, w) =
            Some (r, g @ Polled (Inr st) # Slept d None # tr, w')"
          using ih None by (subst wait_loop.simps) (simp add: step)
        ultimately show ?thesis by blast
      qed
    qed
  qed
qed

text \<open>
  [C26] Waiting for an operation ends and follows the protocol. When every poll that reports no
  completion leaves less of the operation to do, \<^verbatim>\<open>Wait\<close> returns; the events of the call are a run
  of the abstract poller: it stops at the first poll that fails or completes and hands out that
  status's result and error unchanged, it stops at a cancelled sleep, and every sleep lasts
  exactly what the server asked or is a jittered delay of at most the initial delay (first
  round) or \<^verbatim>\<open>MaxDelay\<close> (later rounds). The delays are at most 104 days, where a double is exact;
  nothing is assumed of out-of-range conversions.
\<close>

theorem operation_wait_completes:
  assumes "Poll x = Some poll" and "tuning x = (initial, maxd, mult)" and "initial \<le> 2 ^ 53" and "maxd \<le> 2 ^ 53"
    and "\<And>w st w'. poll ctx w = (Inr st, w') \<Longrightarrow> \<not> opDone st \<Longrightarrow> remaining w' < (remaining w :: nat)"
    and "keeps remaining (eRand8 env)" and "\<And>d. keeps remaining (op_sleep env x ctx d)"
  shows "\<exists>r tr w'. Wait (lift_ergo env) zero (Some (logged_op env x)) ctx ([], w) = Some (r, tr, w') \<and>
    op_run zero maxd initial tr r"
proof -
  have pos: "0 < maxd" "0 < initial" using assms(2) by (auto simp: tuning_def ergo_defaults split: if_splits)
  have slp: "op_sleep (lift_ergo env) (logged_op env x) = logged_sleep (op_sleep env x)" by (simp add: op_sleep_def logged_op_def)
  have "tuning (logged_op env x) = tuning x" by (simp only: tuning_def logged_op_def Operation.simps)
  then have "tuning (logged_op env x) = (initial, maxd, mult)" using assms(2) by simp
  moreover have "Poll (logged_op env x) = Some (logged_poll poll)" using assms(1) by (simp add: logged_op_def)
  moreover obtain r tr w' where "wait_loop (lift_ergo env) (logged_poll poll) (logged_sleep (op_sleep env x)) zero ctx maxd mult initial ([], w) =
      Some (r, [] @ tr, w')" and "op_run zero maxd (max 0 initial) tr r"
    using wait_loop_runs [of poll ctx remaining env "op_sleep env x" maxd initial zero mult "[]" w] assms pos by blast
  ultimately show ?thesis using pos slp by (auto simp: Wait_def)
qed

text \<open>
  \<^verbatim>\<open>MaxDelay\<close> does not cap the first wait: an initial delay above it (the default second is, for
  any smaller \<^verbatim>\<open>MaxDelay\<close>) is used as it is.
\<close>

lemma initial_delay_uncapped:
  assumes "0 < MaxDelay x" and "MaxDelay x < second div 2" and "InitialDelay x = 0" and "eRand8 env w = (None, w')"
    and "tuning x = (initial, maxd, mult)"
  shows "maxd = MaxDelay x \<and> ergo_nextDelay env initial 0 w = (second div 2, w') \<and> maxd < second div 2"
  using assms by (auto simp: tuning_def ergo_nextDelay_def jitterDraw_def ergo_jitter_consts ergo_defaults)

section \<open>Keys of the legs\<close>

text \<open>A leg that records the context it is given.\<close>

definition observed :: "(ctx \<Rightarrow> ('w, 'r) io) \<Rightarrow> ctx \<Rightarrow> (ctx list \<times> 'w, 'r) io" where
  "observed f c = (\<lambda>(cs, w). case f c w of (r, w') \<Rightarrow> (r, cs @ [c], w'))"

definition leg_ctx :: "ctx \<Rightarrow> ComposedOp \<Rightarrow> int \<Rightarrow> ctx" where
  "leg_ctx ctx x k = WithCorrelationID (WithIdempotencyKey ctx (coID x @ ''/'' @ int_text k)) (Correlation x)"

lemma run_legs_ctxs:
  assumes "0 \<le> coLeg x" and "coLeg x + int (length fs) \<le> max_int64"
    and "run_legs zero ctx x (map observed fs) (cs, w) = (r, cs', w')"
  shows "cs' = cs @ map (\<lambda>k. leg_ctx ctx x (coLeg x + int k)) [0..<length fs]"
  using assms
proof (induction fs arbitrary: x cs w r cs' w')
  case (Cons f fs)
  let ?x = "x\<lparr>coLeg := coLeg x + 1\<rparr>"
  obtain v w1 where f: "f (leg_ctx ctx x (coLeg x)) w = (v, w1)" by (metis surj_pair)
  have w64: "wrap64 (coLeg x + 1) = coLeg x + 1" using Cons.prems(1,2) by (intro wrap64_id) (simp add: in_int64_def min_int64_def)
  obtain r2 cs2 w2 where rest: "run_legs zero ctx ?x (map observed fs) (cs @ [leg_ctx ctx x (coLeg x)], w1) = (r2, cs2, w2)"
    by (metis surj_pair)
  have "cs2 = (cs @ [leg_ctx ctx x (coLeg x)]) @ map (\<lambda>k. leg_ctx ctx ?x (coLeg ?x + int k)) [0..<length fs]"
    using Cons.prems(1,2) by (intro Cons.IH [OF _ _ rest]) simp_all
  moreover have "Run zero ctx (Some x) (Some (observed f)) (cs, w) = ((v, Some ?x), cs @ [leg_ctx ctx x (coLeg x)], w1)"
    using f w64 by (simp add: Run_def observed_def leg_key_def leg_ctx_def Let_def)
  then have "cs' = cs2" using Cons.prems(3) rest by (auto split: prod.splits)
  moreover  moreover have "leg_ctx ctx ?x (coLeg x + 1 + int k) = leg_ctx ctx x (coLeg x + int (Suc k))" for k
    by (simp add: leg_ctx_def algebra_simps)
  ultimately show ?case by (simp add: upt_conv_Cons map_Suc_upt [symmetric] comp_def del: upt_Suc map_Suc_upt)
qed simp

lemma byte_hex_inj: "byte_hex a = byte_hex b \<Longrightarrow> a = b"
proof -
  assume eq: "byte_hex a = byte_hex b"
  have lt: "unat (x :: 8 word) < 256" for x using unsigned_less [of x, where 'a = nat] by simp
  have d: "unat (x :: 8 word) div 16 < 16" for x using lt [of x] by (simp add: less_mult_imp_div_less)
  have "unat a div 16 = unat b div 16" "unat a mod 16 = unat b mod 16"
    using eq hex_digit_inj d by (simp_all add: byte_hex_def)
  then have "unat a = unat b" by (metis div_mult_mod_eq)
  then show "a = b" by (rule unsigned_word_eqI)
qed

lemma hex_bytes_inj: "hex_bytes a = hex_bytes b \<Longrightarrow> a = b"
proof (induction a arbitrary: b)
  case Nil
  then show ?case by (cases b) (auto simp: byte_hex_def)
next
  case (Cons x a)
  obtain y b' where b: "b = y # b'" using Cons.prems by (cases b) (auto simp: byte_hex_def)
  have "byte_hex x = byte_hex y \<and> hex_bytes a = hex_bytes b'" using Cons.prems b by (simp add: byte_hex_def)
  then show ?case using Cons.IH byte_hex_inj b by blast
qed

lemma newID_shape:
  assumes "newID rd w = (Inr i, w')" and "\<And>w b w'. rd w = (Inr b, w') \<Longrightarrow> length b = 16"
  shows "\<exists>b. rd w = (Inr b, w') \<and> i = hex_bytes b \<and> i \<noteq> [] \<and> CHR ''/'' \<notin> set i"
proof -
  obtain b where b: "rd w = (Inr b, w')" "i = hex_bytes b"
    using assms(1) by (auto simp: newID_def split: prod.splits sum.splits)
  have "length i = 32" using b assms(2) by simp
  moreover have "CHR ''/'' \<notin> set i" using hex_bytes_is_hex [of b] by (auto simp: b(2) list_all_iff is_hex_def)
  ultimately show ?thesis using b by (metis length_0_conv zero_neq_numeral)
qed

lemma NewComposedOp_shape:
  assumes "NewComposedOp rd parent w = (Inr x, w')" and "\<And>w b w'. rd w = (Inr b, w') \<Longrightarrow> length b = 16"
  shows "\<exists>b w1. rd w = (Inr b, w1) \<and> coID x = hex_bytes b \<and> CHR ''/'' \<notin> set (coID x) \<and> coLeg x = 0 \<and> Correlation x \<noteq> [] \<and>
    (snd (CorrelationID parent) \<longrightarrow> Correlation x = fst (CorrelationID parent))"
proof -
  obtain i w1 where i: "newID rd w = (Inr i, w1)"
    using assms(1) by (auto simp: NewComposedOp_def split: prod.splits sum.splits)
  obtain c ok where c: "CorrelationID parent = (c, ok)" by (metis surj_pair)
  have sh: "\<exists>b. rd w = (Inr b, w1) \<and> i = hex_bytes b \<and> i \<noteq> [] \<and> CHR ''/'' \<notin> set i" by (rule newID_shape [OF i assms(2)])
  have ne: "CorrelationID parent = (c, True) \<Longrightarrow> c \<noteq> []" by (auto simp: CorrelationID_def ctx_slot_def split: option.splits)
  show ?thesis
  proof (cases "ok \<and> c \<noteq> []")
    case True
    then have "x = \<lparr>coID = i, Correlation = c, coLeg = 0\<rparr>" using assms(1) i c by (auto simp: NewComposedOp_def)
    then show ?thesis using sh c True by auto
  next
    case False
    then obtain c2 w2 where c2: "newID rd w1 = (Inr c2, w2)" "x = \<lparr>coID = i, Correlation = c2, coLeg = 0\<rparr>"
      using assms(1) i c by (auto simp: NewComposedOp_def split: prod.splits sum.splits)
    then show ?thesis using sh newID_shape [OF c2(1) assms(2)] c False ne by auto
  qed
qed

lemma leg_key_split:
  assumes "a @ ''/'' @ int_text j = b @ ''/'' @ int_text k" and "CHR ''/'' \<notin> set a" and "CHR ''/'' \<notin> set b"
  shows "a = b \<and> int_text j = int_text k"
proof -
  have "takeWhile (\<lambda>c. c \<noteq> CHR ''/'') (p @ ''/'' @ q) = p" if "CHR ''/'' \<notin> set p" for p q
    using that by (induction p) auto
  then have "a = b" using assms by metis
  then show ?thesis using assms(1) by simp
qed

text \<open>
  [C27] The legs of composed operations never share an idempotency key: every leg of one operation
  runs under its own key \<^verbatim>\<open>{ID}/{leg}\<close>, two operations whose random draws differ have no key in
  common, and all legs of an operation carry its correlation id, which is the parent's when the
  parent has one. \<^verbatim>\<open>rand.Read\<close> fills the 16 bytes it is asked for, and an operation has fewer than
  \<open>2 ^ 63\<close> legs.
\<close>

theorem composed_legs_distinct_keys:
  assumes "\<And>w b w'. rd w = (Inr b, w') \<Longrightarrow> length b = 16"
    and "NewComposedOp rd p1 w1 = (Inr x, w1')" and "NewComposedOp rd p2 w2 = (Inr y, w2')" and "fst (rd w1) \<noteq> fst (rd w2)"
    and "run_legs zero c1 x (map observed fs) ([], v1) = (r1, cs, v1')"
    and "run_legs zero c2 y (map observed gs) ([], v2) = (r2, ds, v2')"
    and "int (length fs) \<le> max_int64" and "int (length gs) \<le> max_int64"
  shows "length cs = length fs \<and> length ds = length gs \<and> distinct (map IdempotencyKey (cs @ ds)) \<and>
    (\<forall>c \<in> set cs. snd (IdempotencyKey c) \<and> CorrelationID c = (Correlation x, True)) \<and>
    (snd (CorrelationID p1) \<longrightarrow> Correlation x = fst (CorrelationID p1))"
proof -
  obtain bx wx where x: "rd w1 = (Inr bx, wx)" "coID x = hex_bytes bx" "CHR ''/'' \<notin> set (coID x)" "coLeg x = 0" "Correlation x \<noteq> []"
    "snd (CorrelationID p1) \<longrightarrow> Correlation x = fst (CorrelationID p1)"
    using NewComposedOp_shape [of rd p1 w1 x w1'] assms(1) assms(2) by blast
  obtain b2 wy where y: "rd w2 = (Inr b2, wy)" "coID y = hex_bytes b2" "CHR ''/'' \<notin> set (coID y)" "coLeg y = 0" "Correlation y \<noteq> []"
    using NewComposedOp_shape [of rd p2 w2 y w2'] assms(1) assms(3) by blast
  have ids: "coID x \<noteq> coID y" using assms(4) x(1,2) y(1,2) hex_bytes_inj by auto
  have cs: "cs = map (\<lambda>k. leg_ctx c1 x (int k)) [0..<length fs]" using run_legs_ctxs [OF _ _ assms(5)] x(4) assms(7) by simp
  have ds: "ds = map (\<lambda>k. leg_ctx c2 y (int k)) [0..<length gs]" using run_legs_ctxs [OF _ _ assms(6)] y(4) assms(8) by simp
  have key: "IdempotencyKey (leg_ctx c z k) = (coID z @ ''/'' @ int_text k, True)" for c z k
    by (simp add: leg_ctx_def)
  have inj: "inj_on (\<lambda>k. IdempotencyKey (leg_ctx c z (int k))) A" for c z A
    by (rule inj_onI) (use int_text_inj [of "int _" "int _"] in \<open>simp add: key\<close>)
  have apart: "IdempotencyKey (leg_ctx c1 x (int j)) \<noteq> IdempotencyKey (leg_ctx c2 y (int k))" for j k
    using leg_key_split [OF _ x(3) y(3)] ids by (auto simp: key simp del: append_Cons)
  have "distinct (map IdempotencyKey cs)" "distinct (map IdempotencyKey ds)"
    using inj by (simp_all add: cs ds distinct_map comp_def)
  moreover have "set (map IdempotencyKey cs) \<inter> set (map IdempotencyKey ds) = {}"
  proof (intro equals0I, elim IntE)
    fix k
    assume "k \<in> set (map IdempotencyKey cs)" "k \<in> set (map IdempotencyKey ds)"
    then obtain i j where "k = IdempotencyKey (leg_ctx c1 x (int i))" "k = IdempotencyKey (leg_ctx c2 y (int j))"
      unfolding cs ds map_map set_map by (elim imageE) simp
    then show False using apart [of i j] by metis
  qed
  ultimately have "distinct (map IdempotencyKey (cs @ ds))" by (simp only: map_append distinct_append)
  moreover have "\<forall>c \<in> set cs. snd (IdempotencyKey c) \<and> CorrelationID c = (Correlation x, True)"
    using x(5) by (auto simp: cs key) (simp add: leg_ctx_def)
  ultimately show ?thesis using x(6) by (simp add: cs ds)
qed

text \<open>
  The key of a leg does not reach the wire: the idempotency interceptor takes its key from the
  request header or its generator and never reads the context slot.
\<close>

lemma leg_key_not_attached:
  assumes "\<not> iIsSafe i (Procedure sp)" and "hdr_get h (iHeaderName i) = []" and "iKeyFn i w = (key, w1)"
  shows "idem_WrapUnary i next (WithIdempotencyKey ctx k) sp (h, w) =
    next (WithIdempotencyKey ctx k) sp (hdr_set h (iHeaderName i) key, w1)"
  using assms by (simp add: idem_WrapUnary_def)

section \<open>Concrete operations\<close>

text \<open>A server that completes an operation after as many polls as the world counts.\<close>

definition demo_poll :: "ctx \<Rightarrow> (nat, err + string OperationStatus) io" where
  "demo_poll ctx w =
     (if w = 0 then (Inr \<lparr>opResult = ''ok'', opErr = None, opRetryAfter = 0, opDone = True\<rparr>, 0)
      else (Inr \<lparr>opResult = [], opErr = None, opRetryAfter = 0, opDone = False\<rparr>, w - 1))"

definition demo_op :: "(nat, string) Operation" where
  "demo_op = \<lparr>Poll = Some demo_poll, opSleep = None, opID = ''op'', InitialDelay = 0, MaxDelay = 0, opMultiplier = Fin 0\<rparr>"

definition demo_ergo :: "nat ergo_env" where
  "demo_ergo = \<lparr>eRand8 = (\<lambda>w. (None, w)), eTimer = (\<lambda>c d w. (None, w)), eOutOfRange = (\<lambda>f. 0)\<rparr>"

theorem operation_wait_completes_witness:
  "\<exists>r tr w'. Wait (lift_ergo demo_ergo) [] (Some (logged_op demo_ergo demo_op)) \<lparr>ctxDeadline = None, ctxValues = []\<rparr> ([], 3) =
     Some (r, tr, w') \<and> op_run [] (30 * second) second tr r"
proof (rule operation_wait_completes [where poll = demo_poll and mult = "Fin 2" and remaining = id])
  show "Poll demo_op = Some demo_poll" "tuning demo_op = (second, 30 * second, Fin 2)"
    by (simp_all add: demo_op_def tuning_def ergo_defaults)
  show "keeps id (eRand8 demo_ergo)" "keeps id (op_sleep demo_ergo demo_op c d)" for c d
    by (auto simp: keeps_def demo_ergo_def demo_op_def op_sleep_def defaultSleep_def)
qed (auto simp: demo_poll_def split: if_splits)

definition demo_rand :: "(nat, err + 8 word list) io" where
  "demo_rand w = (Inr (replicate 16 (of_nat w)), Suc w)"

theorem composed_legs_distinct_keys_witness:
  "\<exists>x y cs ds. fst (NewComposedOp demo_rand \<lparr>ctxDeadline = None, ctxValues = []\<rparr> 0) = Inr x \<and>
     fst (NewComposedOp demo_rand \<lparr>ctxDeadline = None, ctxValues = []\<rparr> 2) = Inr y \<and>
     length cs = 3 \<and> length ds = 2 \<and> distinct (map IdempotencyKey (cs @ ds))"
proof -
  let ?c = "\<lparr>ctxDeadline = None, ctxValues = []\<rparr> :: ctx"
  let ?f = "(\<lambda>c w. ((0, None), w)) :: ctx \<Rightarrow> (unit, nat \<times> err option) io"
  obtain x where x: "NewComposedOp demo_rand ?c 0 = (Inr x, 2)"
    by (simp add: NewComposedOp_def newID_def demo_rand_def CorrelationID_def ctx_slot_def)
  obtain y where y: "NewComposedOp demo_rand ?c 2 = (Inr y, 4)"
    by (simp add: NewComposedOp_def newID_def demo_rand_def CorrelationID_def ctx_slot_def)
  obtain r1 cs v1 where l1: "run_legs 0 ?c x (map observed (replicate 3 ?f)) ([], ()) = (r1, cs, v1)" by (metis surj_pair)
  obtain r2 ds v2 where l2: "run_legs 0 ?c y (map observed (replicate 2 ?f)) ([], ()) = (r2, ds, v2)" by (metis surj_pair)
  have "fst (demo_rand 0) \<noteq> fst (demo_rand 2)" by (simp add: demo_rand_def numeral_eq_Suc)
  from composed_legs_distinct_keys [OF _ x y this l1 l2] x y show ?thesis
    by (fastforce simp: demo_rand_def max_int64_def)
qed

end
