(* ===== verification/Transport.thy ===== *)
theory Transport
  imports Http Encoding "HOL-Library.Word"
begin

text \<open>
  Transport construction: the pooled transport of \<^verbatim>\<open>src/transport/pool/pool.go\<close>, the client TLS
  configuration of \<^verbatim>\<open>src/transport/mtls/mtls.go\<close> and its PKCS#12 companion
  \<^verbatim>\<open>src/transport/mtls/pkcs12/pkcs12.go\<close>. Certificates, certificate pools, the PEM and PKCS#12
  decoders and the file system are the record \<open>tls_lib\<close>; a file is the bytes that can be read from
  it and the error behind them. \<^verbatim>\<open>filepath.Clean\<close> is the algorithm of the standard library on Unix
  paths.
\<close>

section \<open>Transports\<close>

text \<open>An \<^verbatim>\<open>http.Transport\<close>: the fields the sources set, and the others as \<open>trRest\<close>.\<close>

record 'tls pool_knobs =
  TLSConfig :: "'tls option"
  IdleConnTimeout :: int
  ResponseHeaderTimeout :: int
  TLSHandshakeTimeout :: int
  ExpectContinueTimeout :: int
  MaxIdleConns :: int
  MaxIdleConnsPerHost :: int
  MaxConnsPerHost :: int
  ForceAttemptHTTP2 :: bool
  DisableKeepAlives :: bool
  DisableCompression :: bool

type_synonym 'tls pool_config = "'tls pool_knobs"

record ('tls, 'r) http_transport = "'tls pool_knobs" +
  trRest :: 'r

definition zero_transport :: "'r \<Rightarrow> ('tls, 'r) http_transport" where
  "zero_transport rest =
     \<lparr>TLSConfig = None, IdleConnTimeout = 0, ResponseHeaderTimeout = 0, TLSHandshakeTimeout = 0, ExpectContinueTimeout = 0,
      MaxIdleConns = 0, MaxIdleConnsPerHost = 0, MaxConnsPerHost = 0, ForceAttemptHTTP2 = False, DisableKeepAlives = False,
      DisableCompression = False, trRest = rest\<rparr>"

section \<open>Connection pool\<close>

definition defaultMaxIdleConns :: int where "defaultMaxIdleConns = 100"
definition defaultMaxIdleConnsPerHost :: int where "defaultMaxIdleConnsPerHost = 10"
definition defaultIdleConnTimeout :: int where "defaultIdleConnTimeout = 2 * (60 * second)"
definition defaultTLSHandshakeTimeout :: int where "defaultTLSHandshakeTimeout = 10 * second"
definition defaultExpectContinueTimeout :: int where "defaultExpectContinueTimeout = 1 * second"

lemmas pool_defaults = defaultMaxIdleConns_def defaultMaxIdleConnsPerHost_def defaultIdleConnTimeout_def
  defaultTLSHandshakeTimeout_def defaultExpectContinueTimeout_def

definition pool_DefaultConfig :: "'tls pool_config" where
  "pool_DefaultConfig =
     \<lparr>TLSConfig = None, IdleConnTimeout = defaultIdleConnTimeout, ResponseHeaderTimeout = 0,
      TLSHandshakeTimeout = defaultTLSHandshakeTimeout, ExpectContinueTimeout = defaultExpectContinueTimeout,
      MaxIdleConns = defaultMaxIdleConns, MaxIdleConnsPerHost = defaultMaxIdleConnsPerHost, MaxConnsPerHost = 0,
      ForceAttemptHTTP2 = True, DisableKeepAlives = False, DisableCompression = False\<rparr>"

definition ErrInvalidConfig :: sentinel where "ErrInvalidConfig = Sentinel ''pool: invalid config''"

definition invalid_config :: "string \<Rightarrow> err" where
  "invalid_config m = EWrap m (ESentinel ErrInvalidConfig)"

definition pool_validate :: "'tls pool_config \<Rightarrow> err option" where
  "pool_validate cfg =
     (if MaxIdleConns cfg < 0 then Some (invalid_config ''MaxIdleConns must be >= 0'')
      else if MaxIdleConnsPerHost cfg < 0 then Some (invalid_config ''MaxIdleConnsPerHost must be >= 0'')
      else if MaxConnsPerHost cfg < 0 then Some (invalid_config ''MaxConnsPerHost must be >= 0'')
      else if IdleConnTimeout cfg < 0 then Some (invalid_config ''IdleConnTimeout must be >= 0'')
      else if ResponseHeaderTimeout cfg < 0 then Some (invalid_config ''ResponseHeaderTimeout must be >= 0'')
      else if TLSHandshakeTimeout cfg < 0 then Some (invalid_config ''TLSHandshakeTimeout must be >= 0'')
      else if ExpectContinueTimeout cfg < 0 then Some (invalid_config ''ExpectContinueTimeout must be >= 0'')
      else None)"

text \<open>\<open>dflt\<close> is \<^verbatim>\<open>http.DefaultTransport\<close> when it is an \<^verbatim>\<open>*http.Transport\<close>; \<open>rest\<close> the zero of the other fields.\<close>

definition pool_New :: "('tls, 'r) http_transport option \<Rightarrow> 'r \<Rightarrow> 'tls pool_config \<Rightarrow> err + ('tls, 'r) http_transport" where
  "pool_New dflt rest cfg =
     (case pool_validate cfg of
        Some e \<Rightarrow> Inl e
      | None \<Rightarrow>
          (let base = (case dflt of Some t \<Rightarrow> t | None \<Rightarrow> zero_transport rest);
               t = base\<lparr>MaxIdleConns := MaxIdleConns cfg, MaxIdleConnsPerHost := MaxIdleConnsPerHost cfg,
                        MaxConnsPerHost := MaxConnsPerHost cfg, IdleConnTimeout := IdleConnTimeout cfg,
                        ResponseHeaderTimeout := ResponseHeaderTimeout cfg, TLSHandshakeTimeout := TLSHandshakeTimeout cfg,
                        ExpectContinueTimeout := ExpectContinueTimeout cfg, ForceAttemptHTTP2 := ForceAttemptHTTP2 cfg,
                        DisableKeepAlives := DisableKeepAlives cfg, DisableCompression := DisableCompression cfg\<rparr>
           in Inr (if TLSConfig cfg \<noteq> None then t\<lparr>TLSConfig := TLSConfig cfg\<rparr> else t)))"

record ('tls, 'r) http_client_conf =
  clTransport :: "('tls, 'r) http_transport"
  clTimeout :: int

definition pool_NewClient ::
  "('tls, 'r) http_transport option \<Rightarrow> 'r \<Rightarrow> 'tls pool_config \<Rightarrow> int \<Rightarrow> err + ('tls, 'r) http_client_conf" where
  "pool_NewClient dflt rest cfg timeout =
     (case pool_New dflt rest cfg of
        Inl e \<Rightarrow> Inl (EWrap ''pool: build client transport'' e)
      | Inr t \<Rightarrow> Inr \<lparr>clTransport = t, clTimeout = timeout\<rparr>)"

section \<open>Paths\<close>

definition clean_step :: "bool \<Rightarrow> string list \<Rightarrow> string \<Rightarrow> string list" where
  "clean_step rooted acc c =
     (if c = [] \<or> c = ''.'' then acc
      else if c = ''..'' then
        (if acc \<noteq> [] \<and> last acc \<noteq> ''..'' then butlast acc else if rooted then acc else acc @ [c])
      else acc @ [c])"

definition Clean :: "string \<Rightarrow> string" where
  "Clean p =
     (if p = [] then ''.''
      else
        let rooted = (hd p = CHR ''/'');
            parts = foldl (clean_step rooted) [] (split_on CHR ''/'' p)
        in if rooted then CHR ''/'' # join_strings parts ''/''
           else if parts = [] then ''.'' else join_strings parts ''/'')"

section \<open>Client TLS configuration\<close>

record os_file =
  fileBytes :: string
  fileErr :: "err option"

record ('w, 'cert, 'pool) tls_lib =
  LoadX509KeyPair :: "string \<Rightarrow> string \<Rightarrow> ('w, err + 'cert) io"
  SystemCertPool :: "('w, err + 'pool option) io"
  emptyPool :: 'pool
  AppendCertsFromPEM :: "'pool \<Rightarrow> string \<Rightarrow> 'pool \<times> bool"
  osOpen :: "string \<Rightarrow> ('w, err + os_file) io"

definition MaxCertFileSize :: int where "MaxCertFileSize = 2 ^ 20"
definition ErrInsecureSkipVerify :: sentinel where "ErrInsecureSkipVerify = Sentinel ''mtls: InsecureSkipVerify is not allowed''"
definition ErrEmptyCertPath :: sentinel where "ErrEmptyCertPath = Sentinel ''mtls: cert path is empty''"
definition ErrEmptyKeyPath :: sentinel where "ErrEmptyKeyPath = Sentinel ''mtls: key path is empty''"
definition ErrNoCAInFile :: sentinel where "ErrNoCAInFile = Sentinel ''mtls: no PEM certificates in CA file''"
definition ErrCertFileTooLarge :: sentinel where "ErrCertFileTooLarge = Sentinel ''mtls: certificate file exceeds MaxCertFileSize''"
definition ErrInvalidPEM :: sentinel where "ErrInvalidPEM = Sentinel ''mtls: file is not a PEM-encoded certificate''"

lemmas mtls_errors = ErrInsecureSkipVerify_def ErrEmptyCertPath_def ErrEmptyKeyPath_def ErrNoCAInFile_def
  ErrCertFileTooLarge_def ErrInvalidPEM_def

definition pemHeaderPrefix :: string where "pemHeaderPrefix = ''-----BEGIN ''"

record mtls_options =
  oMinVersion :: "16 word"
  oInsecureSkipVerify :: bool

text \<open>The \<^verbatim>\<open>tls.Config\<close> fields in play; the zero of \<^verbatim>\<open>InsecureSkipVerify\<close> verifies the server.\<close>

record ('cert, 'pool) tls_config =
  Certificates :: "'cert list"
  RootCAs :: 'pool
  MinVersion :: "16 word"
  InsecureSkipVerify :: bool

definition VersionTLS13 :: "16 word" where "VersionTLS13 = 0x0304"

definition guardOptions :: "mtls_options \<Rightarrow> err option" where
  "guardOptions opts = (if oInsecureSkipVerify opts then Some (ESentinel ErrInsecureSkipVerify) else None)"

definition ReadBoundedFile :: "('w, 'cert, 'pool) tls_lib \<Rightarrow> string \<Rightarrow> string \<Rightarrow> ('w, err + string) io" where
  "ReadBoundedFile lib path kind w =
     (let cleaned = Clean path in
      case osOpen lib cleaned w of
        (Inl e, w') \<Rightarrow> (Inl (EWrap (''mtls: open '' @ kind @ '' file '' @ cleaned) e), w')
      | (Inr f, w') \<Rightarrow>
          (case limit_read (fileBytes f) (fileErr f) (MaxCertFileSize + 1) of
             Inl e \<Rightarrow> (Inl (EWrap (''mtls: read '' @ kind @ '' file '' @ cleaned) e), w')
           | Inr raw \<Rightarrow>
               if MaxCertFileSize < int (length raw)
               then (Inl (EWrap (kind @ '' ('' @ cleaned @ '')'') (ESentinel ErrCertFileTooLarge)), w')
               else (Inr raw, w')))"

definition ensurePEM :: "string \<Rightarrow> err option" where
  "ensurePEM raw =
     (if \<not> prefix pemHeaderPrefix (dropWhile (\<lambda>c. c \<in> {CHR '' '', CHR 0x09, CHR 0x0D, CHR 0x0A}) raw)
      then Some (ESentinel ErrInvalidPEM) else None)"

definition loadCAPool :: "('w, 'cert, 'pool) tls_lib \<Rightarrow> string \<Rightarrow> ('w, err + 'pool) io" where
  "loadCAPool lib path w =
     (case SystemCertPool lib w of
        (sys, w1) \<Rightarrow>
          (let pool = (case sys of Inr (Some p) \<Rightarrow> p | _ \<Rightarrow> emptyPool lib) in
           if path = [] then (Inr pool, w1)
           else case ReadBoundedFile lib path ''CA'' w1 of
                  (Inl e, w2) \<Rightarrow> (Inl e, w2)
                | (Inr raw, w2) \<Rightarrow>
                    (case ensurePEM raw of
                       Some e \<Rightarrow> (Inl e, w2)
                     | None \<Rightarrow>
                         (case AppendCertsFromPEM lib pool raw of
                            (pool', ok) \<Rightarrow>
                              if \<not> ok then (Inl (EWrap path (ESentinel ErrNoCAInFile)), w2) else (Inr pool', w2)))))"

definition buildConfig :: "'cert \<Rightarrow> 'pool \<Rightarrow> mtls_options \<Rightarrow> ('cert, 'pool) tls_config" where
  "buildConfig cert pool opts =
     (let minVersion = (if oMinVersion opts = 0 then VersionTLS13 else oMinVersion opts)
      in \<lparr>Certificates = [cert], RootCAs = pool, MinVersion = minVersion, InsecureSkipVerify = False\<rparr>)"

definition mtls_Config ::
  "('w, 'cert, 'pool) tls_lib \<Rightarrow> string \<Rightarrow> string \<Rightarrow> string \<Rightarrow> mtls_options \<Rightarrow> ('w, err + ('cert, 'pool) tls_config) io" where
  "mtls_Config lib certPath keyPath caCertPath opts w =
     (case guardOptions opts of
        Some e \<Rightarrow> (Inl e, w)
      | None \<Rightarrow>
          if certPath = [] then (Inl (ESentinel ErrEmptyCertPath), w)
          else if keyPath = [] then (Inl (ESentinel ErrEmptyKeyPath), w)
          else case LoadX509KeyPair lib (Clean certPath) (Clean keyPath) w of
                 (Inl e, w1) \<Rightarrow> (Inl (EWrap ''mtls: load PEM cert/key'' e), w1)
               | (Inr cert, w1) \<Rightarrow>
                   (case loadCAPool lib caCertPath w1 of
                      (Inl e, w2) \<Rightarrow> (Inl e, w2)
                    | (Inr pool, w2) \<Rightarrow> (Inr (buildConfig cert pool opts), w2)))"

definition Assemble ::
  "('w, 'cert, 'pool) tls_lib \<Rightarrow> 'cert \<Rightarrow> string \<Rightarrow> mtls_options \<Rightarrow> ('w, err + ('cert, 'pool) tls_config) io" where
  "Assemble lib cert caCertPath opts w =
     (case guardOptions opts of
        Some e \<Rightarrow> (Inl e, w)
      | None \<Rightarrow>
          (case loadCAPool lib caCertPath w of
             (Inl e, w1) \<Rightarrow> (Inl e, w1)
           | (Inr pool, w1) \<Rightarrow> (Inr (buildConfig cert pool opts), w1)))"

definition mtls_Transport :: "('tls, 'r) http_transport option \<Rightarrow> 'r \<Rightarrow> 'tls option \<Rightarrow> ('tls, 'r) http_transport" where
  "mtls_Transport dflt rest cfg =
     (case dflt of
        None \<Rightarrow> (zero_transport rest)\<lparr>TLSConfig := cfg\<rparr>
      | Some base \<Rightarrow> base\<lparr>TLSConfig := cfg\<rparr>)"

section \<open>PKCS\#12\<close>

definition ErrEmptyP12Path :: sentinel where "ErrEmptyP12Path = Sentinel ''mtls/pkcs12: pkcs12 path is empty''"
definition ErrInvalidPKCS12 :: sentinel where "ErrInvalidPKCS12 = Sentinel ''mtls/pkcs12: file is not a PKCS#12 bundle''"
definition asn1SequenceTag :: char where "asn1SequenceTag = CHR 0x30"

text \<open>A parsed certificate keeps its encoding; a key pair has the chain, the key and the leaf.\<close>

record ('key, 'x) certificate =
  certChain :: "string list"
  PrivateKey :: 'key
  Leaf :: 'x

definition ensurePKCS12 :: "string \<Rightarrow> err option" where
  "ensurePKCS12 raw = (if length raw < 2 \<or> raw ! 0 \<noteq> asn1SequenceTag then Some (ESentinel ErrInvalidPKCS12) else None)"

definition pkcs12_Config ::
  "('w, ('key, 'x) certificate, 'pool) tls_lib \<Rightarrow> (string \<Rightarrow> string \<Rightarrow> err + 'key \<times> 'x \<times> 'x list) \<Rightarrow> ('x \<Rightarrow> string) \<Rightarrow>
   string \<Rightarrow> string \<Rightarrow> string \<Rightarrow> mtls_options \<Rightarrow> ('w, err + (('key, 'x) certificate, 'pool) tls_config) io" where
  "pkcs12_Config lib DecodeChain Raw p12Path password caCertPath opts w =
     (if p12Path = [] then (Inl (ESentinel ErrEmptyP12Path), w)
      else case ReadBoundedFile lib p12Path ''pkcs12'' w of
             (Inl e, w1) \<Rightarrow> (Inl (EWrap ''mtls/pkcs12: read archive'' e), w1)
           | (Inr raw, w1) \<Rightarrow>
               (case ensurePKCS12 raw of
                  Some e \<Rightarrow> (Inl e, w1)
                | None \<Rightarrow>
                    (case DecodeChain raw password of
                       Inl e \<Rightarrow> (Inl (EWrap ''mtls/pkcs12: decode pkcs12'' e), w1)
                     | Inr (privKey, leaf, chain) \<Rightarrow>
                         (let cert = \<lparr>certChain = Raw leaf # map Raw chain, PrivateKey = privKey, Leaf = leaf\<rparr>
                          in case Assemble lib cert caCertPath opts w1 of
                               (Inl e, w2) \<Rightarrow> (Inl (EWrap ''mtls/pkcs12: assemble tls config'' e), w2)
                             | (Inr cfg, w2) \<Rightarrow> (Inr cfg, w2)))))"

section \<open>Properties\<close>

definition pool_config_ok :: "'tls pool_config \<Rightarrow> bool" where
  "pool_config_ok cfg \<longleftrightarrow>
     0 \<le> MaxIdleConns cfg \<and> 0 \<le> MaxIdleConnsPerHost cfg \<and> 0 \<le> MaxConnsPerHost cfg \<and> 0 \<le> IdleConnTimeout cfg \<and>
     0 \<le> ResponseHeaderTimeout cfg \<and> 0 \<le> TLSHandshakeTimeout cfg \<and> 0 \<le> ExpectContinueTimeout cfg"

lemma pool_validate_iff: "pool_validate cfg = None \<longleftrightarrow> pool_config_ok cfg"
  by (auto simp: pool_validate_def pool_config_ok_def)

text \<open>
  The pool builder accepts exactly the configurations without a negative cap or duration (the
  default is one); it fails otherwise with an error that is \<^verbatim>\<open>ErrInvalidConfig\<close>. The transport it
  builds has every knob of the configuration, keeps the default transport's TLS settings when
  none are given, and keeps all its other fields.
\<close>

theorem pool_builds_configured_transport:
  "pool_config_ok (pool_DefaultConfig :: 'tls pool_config) \<and>
   (case pool_NewClient dflt rest (cfg :: 'tls pool_config) timeout of
      Inl e \<Rightarrow> \<not> pool_config_ok cfg \<and> errors_is e ErrInvalidConfig
    | Inr c \<Rightarrow> pool_config_ok cfg \<and> clTimeout c = timeout \<and>
        (let base = (case dflt of Some t \<Rightarrow> t | None \<Rightarrow> zero_transport rest) in
         trRest (clTransport c) = trRest base \<and>
         pool_knobs.truncate (clTransport c) = (if TLSConfig cfg = None then cfg\<lparr>TLSConfig := TLSConfig base\<rparr> else cfg)))"
proof -
  have "pool_validate cfg = Some e \<Longrightarrow> errors_is e ErrInvalidConfig" for e
    by (auto simp: pool_validate_def invalid_config_def split: if_splits)
  moreover have "pool_config_ok (pool_DefaultConfig :: 'tls pool_config)"
    by (simp add: pool_config_ok_def pool_DefaultConfig_def pool_defaults)
  ultimately show ?thesis
    using pool_validate_iff [of cfg]
    by (auto simp: pool_NewClient_def pool_New_def pool_knobs.truncate_def Let_def split: option.splits)
qed

lemma ReadBoundedFile_whole:
  assumes "ReadBoundedFile lib path kind w = (Inr raw, w')"
  shows "\<exists>f. osOpen lib (Clean path) w = (Inr f, w') \<and> fileBytes f = raw \<and> fileErr f = None \<and> int (length raw) \<le> MaxCertFileSize"
  using assms
  by (auto simp: ReadBoundedFile_def limit_read_def MaxCertFileSize_def Let_def split: prod.splits sum.splits if_splits option.splits)

text \<open>A CA file is trusted only whole, within the size cap, PEM-shaped and with a certificate in it.\<close>

definition ca_loaded :: "('w, 'cert, 'pool) tls_lib \<Rightarrow> string \<Rightarrow> 'w \<Rightarrow> 'pool \<Rightarrow> 'w \<Rightarrow> bool" where
  "ca_loaded lib ca w pool w' \<longleftrightarrow>
     (\<exists>sys w1. SystemCertPool lib w = (sys, w1) \<and>
        (let base = (case sys of Inr (Some p) \<Rightarrow> p | _ \<Rightarrow> emptyPool lib) in
         (ca = [] \<and> pool = base \<and> w' = w1) \<or>
         (\<exists>f. ca \<noteq> [] \<and> osOpen lib (Clean ca) w1 = (Inr f, w') \<and> fileErr f = None \<and> int (length (fileBytes f)) \<le> MaxCertFileSize \<and>
            prefix pemHeaderPrefix (dropWhile (\<lambda>c. c \<in> {CHR '' '', CHR 0x09, CHR 0x0D, CHR 0x0A}) (fileBytes f)) \<and>
            AppendCertsFromPEM lib base (fileBytes f) = (pool, True))))"

lemma loadCAPool_loaded:
  assumes "loadCAPool lib ca w = (Inr pool, w')"
  shows "ca_loaded lib ca w pool w'"
proof -
  obtain sys w1 where s: "SystemCertPool lib w = (sys, w1)" by (metis surj_pair)
  define base where "base = (case sys of Inr (Some p) \<Rightarrow> p | _ \<Rightarrow> emptyPool lib)"
  show ?thesis
  proof (cases "ca = []")
    case True
    then show ?thesis using assms s by (auto simp: loadCAPool_def ca_loaded_def Let_def)
  next
    case False
    obtain raw where raw: "ReadBoundedFile lib ca ''CA'' w1 = (Inr raw, w')" "ensurePEM raw = None"
      "AppendCertsFromPEM lib base raw = (pool, True)"
      using assms s False unfolding loadCAPool_def base_def [symmetric]
      by (auto simp: Let_def base_def [symmetric] split: prod.splits sum.splits option.splits if_splits)
    from ReadBoundedFile_whole [OF raw(1)] raw(2,3) False s show ?thesis
      unfolding ca_loaded_def Let_def base_def [symmetric] by (auto simp: ensurePEM_def base_def split: if_splits)
  qed
qed

definition verifying_config ::
  "('w, 'cert, 'pool) tls_lib \<Rightarrow> mtls_options \<Rightarrow> string \<Rightarrow> 'cert \<Rightarrow> 'w \<Rightarrow> ('cert, 'pool) tls_config \<Rightarrow> 'w \<Rightarrow> bool" where
  "verifying_config lib opts ca cert w cfg w' \<longleftrightarrow>
     \<not> oInsecureSkipVerify opts \<and> \<not> InsecureSkipVerify cfg \<and> Certificates cfg = [cert] \<and>
     MinVersion cfg = (if oMinVersion opts = 0 then 0x0304 else oMinVersion opts) \<and> ca_loaded lib ca w (RootCAs cfg) w'"

lemma Assemble_verifying:
  assumes "Assemble lib cert ca opts w = (Inr cfg, w')"
  shows "verifying_config lib opts ca cert w cfg w'"
  using assms loadCAPool_loaded [of lib ca w _ w']
  by (auto simp: Assemble_def guardOptions_def verifying_config_def buildConfig_def VersionTLS13_def Let_def
      split: if_splits prod.splits sum.splits)

lemma mtls_Config_Assemble:
  assumes "mtls_Config lib certPath keyPath ca opts w = (Inr cfg, w')"
  shows "\<exists>cert w1. LoadX509KeyPair lib (Clean certPath) (Clean keyPath) w = (Inr cert, w1) \<and> Assemble lib cert ca opts w1 = (Inr cfg, w')"
proof -
  obtain cert w1 pool where "guardOptions opts = None" "LoadX509KeyPair lib (Clean certPath) (Clean keyPath) w = (Inr cert, w1)"
    "loadCAPool lib ca w1 = (Inr pool, w')" "cfg = buildConfig cert pool opts"
    using assms by (auto simp: mtls_Config_def split: option.splits if_splits prod.splits sum.splits)
  then show ?thesis by (simp add: Assemble_def)
qed

lemma pkcs12_Config_Assemble:
  assumes "pkcs12_Config lib decode raw p12 pw ca opts w = (Inr cfg, w')"
  shows "\<exists>bs w1 key leaf chain. ReadBoundedFile lib p12 ''pkcs12'' w = (Inr bs, w1) \<and> decode bs pw = Inr (key, leaf, chain) \<and>
    Assemble lib \<lparr>certChain = raw leaf # map raw chain, PrivateKey = key, Leaf = leaf\<rparr> ca opts w1 = (Inr cfg, w')"
  using assms by (auto simp: pkcs12_Config_def Let_def split: if_splits prod.splits sum.splits option.splits)

text \<open>
  [C28] A TLS configuration from these helpers always verifies the server: whichever helper built it
  (PEM pair, parsed certificate, PKCS\#12 bundle), asking to skip verification is refused, the
  minimum version is TLS 1.3 unless the caller named another, and the trusted roots are the system
  roots (an empty pool when there are none) plus, when a CA file is given, the certificates of
  that file, read whole, at most 1 MiB long and PEM-shaped. The certificate presented is the one
  loaded from the cleaned paths, and for a bundle the leaf followed by its intermediates.
\<close>

theorem mtls_config_verifies_server:
  "(mtls_Config lib certPath keyPath ca opts w = (Inr cfg, w') \<longrightarrow>
      (\<exists>cert w1. LoadX509KeyPair lib (Clean certPath) (Clean keyPath) w = (Inr cert, w1) \<and> verifying_config lib opts ca cert w1 cfg w')) \<and>
   (Assemble lib cert ca opts w = (Inr cfg, w') \<longrightarrow> verifying_config lib opts ca cert w cfg w') \<and>
   (pkcs12_Config lib2 decode raw p12 pw ca opts w = (Inr cfg2, w') \<longrightarrow>
      (\<exists>f w1 key leaf chain. osOpen lib2 (Clean p12) w = (Inr f, w1) \<and> int (length (fileBytes f)) \<le> MaxCertFileSize \<and>
         decode (fileBytes f) pw = Inr (key, leaf, chain) \<and>
         verifying_config lib2 opts ca \<lparr>certChain = raw leaf # map raw chain, PrivateKey = key, Leaf = leaf\<rparr> w1 cfg2 w'))"
proof (intro conjI impI)
  assume "mtls_Config lib certPath keyPath ca opts w = (Inr cfg, w')"
  from mtls_Config_Assemble [OF this] Assemble_verifying
  show "\<exists>cert w1. LoadX509KeyPair lib (Clean certPath) (Clean keyPath) w = (Inr cert, w1) \<and> verifying_config lib opts ca cert w1 cfg w'"
    by metis
next
  assume "pkcs12_Config lib2 decode raw p12 pw ca opts w = (Inr cfg2, w')"
  from pkcs12_Config_Assemble [OF this] obtain bs w1 key leaf chain where
    b: "ReadBoundedFile lib2 p12 ''pkcs12'' w = (Inr bs, w1)" and d: "decode bs pw = Inr (key, leaf, chain)"
    and a: "Assemble lib2 \<lparr>certChain = raw leaf # map raw chain, PrivateKey = key, Leaf = leaf\<rparr> ca opts w1 = (Inr cfg2, w')" by blast
  show "\<exists>f w1 key leaf chain. osOpen lib2 (Clean p12) w = (Inr f, w1) \<and> int (length (fileBytes f)) \<le> MaxCertFileSize \<and>
      decode (fileBytes f) pw = Inr (key, leaf, chain) \<and>
      verifying_config lib2 opts ca \<lparr>certChain = raw leaf # map raw chain, PrivateKey = key, Leaf = leaf\<rparr> w1 cfg2 w'"
    using ReadBoundedFile_whole [OF b] d Assemble_verifying [OF a] by blast
qed (rule Assemble_verifying)

text \<open>
  The caller's minimum version is not bounded below: versions older than the documented TLS 1.2
  are taken as they are.
\<close>

lemma min_version_unbounded:
  "0 < v \<Longrightarrow> MinVersion (buildConfig cert pool \<lparr>oMinVersion = v, oInsecureSkipVerify = False\<rparr>) = v"
  by (auto simp: buildConfig_def Let_def)

text \<open>No parent reference survives in a rooted path.\<close>

lemma Clean_rooted:
  assumes "hd p = CHR ''/''" and "p \<noteq> []"
  shows "''..'' \<notin> set (split_on CHR ''/'' (Clean p))"
proof -
  let ?parts = "foldl (clean_step True) [] (split_on CHR ''/'' p)"
  have sep: "\<forall>c \<in> set (split_on CHR ''/'' q). CHR ''/'' \<notin> set c" for q
    by (induction q) (auto split: list.splits)
  have "''..'' \<notin> set (foldl (clean_step True) acc cs) \<and> (\<forall>c \<in> set (foldl (clean_step True) acc cs). CHR ''/'' \<notin> set c)"
    if "''..'' \<notin> set acc" "\<forall>c \<in> set acc. CHR ''/'' \<notin> set c" "\<forall>c \<in> set cs. CHR ''/'' \<notin> set c" for acc cs
    using that
  proof (induction cs arbitrary: acc)
    case (Cons c cs)
    have "''..'' \<notin> set (clean_step True acc c)" "\<forall>x \<in> set (clean_step True acc c). CHR ''/'' \<notin> set x"
      using Cons.prems by (auto simp: clean_step_def dest: in_set_butlastD)
    then show ?case using Cons.IH [of "clean_step True acc c"] Cons.prems(3) by simp
  qed simp
  from this [of "[]" "split_on CHR ''/'' p"] sep
  have parts: "''..'' \<notin> set ?parts" "\<And>c. c \<in> set ?parts \<Longrightarrow> CHR ''/'' \<notin> set c" by auto
  have "Clean p = CHR ''/'' # join_strings ?parts ''/''" using assms by (simp add: Clean_def Let_def)
  moreover have "split_on CHR ''/'' (join_strings ?parts ''/'') = (if ?parts = [] then [[]] else ?parts)"
    using split_on_join [of ?parts "CHR ''/''"] parts(2) by simp
  ultimately show ?thesis using parts(1) by (auto split: if_splits)
qed

section \<open>Concrete configurations\<close>

definition demo_tls :: "(nat, (string, string) certificate, nat) tls_lib" where
  "demo_tls = \<lparr>LoadX509KeyPair = (\<lambda>c k w. (Inr \<lparr>certChain = [c], PrivateKey = k, Leaf = c\<rparr>, w)), SystemCertPool = (\<lambda>w. (Inl (EText ''none''), w)),
     emptyPool = 0, AppendCertsFromPEM = (\<lambda>p b. (Suc p, True)),
     osOpen = (\<lambda>p w. (Inr \<lparr>fileBytes = ''-----BEGIN CERTIFICATE-----'', fileErr = None\<rparr>, Suc w))\<rparr>"

theorem mtls_config_verifies_server_witness:
  "\<exists>cfg. mtls_Config demo_tls ''c.pem'' ''k.pem'' ''ca/../ca.pem'' \<lparr>oMinVersion = 0, oInsecureSkipVerify = False\<rparr> 0 = (Inr cfg, 1) \<and>
     MinVersion cfg = 0x0304 \<and> \<not> InsecureSkipVerify cfg"
proof -
  obtain cfg where c: "mtls_Config demo_tls ''c.pem'' ''k.pem'' ''ca/../ca.pem'' \<lparr>oMinVersion = 0, oInsecureSkipVerify = False\<rparr> 0 = (Inr cfg, 1)"
    by (simp add: mtls_Config_def guardOptions_def demo_tls_def loadCAPool_def ReadBoundedFile_def limit_read_def MaxCertFileSize_def
        ensurePEM_def pemHeaderPrefix_def Let_def)
  show ?thesis
    using mtls_config_verifies_server [THEN conjunct1, THEN mp, OF c] c by (auto simp: verifying_config_def)
qed

end
