(* ===== verification/Compression.thy ===== *)
theory Compression
  imports Errors
begin

text \<open>
  The compression package \<^verbatim>\<open>src/compression/compression.go\<close>: the options that register Brotli and
  Zstd with Connect, and the two decompressors, each an optional reader of the third-party
  codec. The codecs are the record \<open>codec\<close>, of which nothing is assumed; the locale
  \<open>decompressor\<close> is the contract Connect and \<^verbatim>\<open>io.ReadAll\<close> rely on, and both decompressors
  are interpretations of it.
\<close>

section \<open>Registration\<close>

definition NameBrotli :: string where "NameBrotli = ''br''"
definition NameZstd :: string where "NameZstd = ''zstd''"
definition NameGzip :: string where "NameGzip = ''gzip''"
definition brotliQuality :: int where "brotliQuality = 4"

datatype algorithm = Brotli | Zstd

text \<open>A registered pair of constructors is named by its algorithm.\<close>

datatype connect_option =
    WithAcceptCompression string algorithm
  | WithSendCompression string
  | WithCompression string algorithm

definition ClientOptions :: "connect_option list" where
  "ClientOptions = [WithAcceptCompression NameBrotli Brotli, WithAcceptCompression NameZstd Zstd, WithSendCompression NameBrotli]"

definition HandlerOptions :: "connect_option list" where
  "HandlerOptions = [WithCompression NameBrotli Brotli, WithCompression NameZstd Zstd]"

text \<open>
  The compressors are the codecs' own writers, made over a discarding target of type \<open>'t\<close>; Connect
  resets them to the real one before it writes. The error of \<^verbatim>\<open>zstd.NewWriter\<close> is dropped.
\<close>

definition newBrotliCompressor :: "('t \<Rightarrow> int \<Rightarrow> 'c) \<Rightarrow> 't \<Rightarrow> 'c" where
  "newBrotliCompressor NewWriterLevel discard = NewWriterLevel discard brotliQuality"

definition newZstdCompressor :: "('t \<Rightarrow> 'c \<times> err option) \<Rightarrow> 't \<Rightarrow> 'c" where
  "newZstdCompressor NewWriter discard = (case NewWriter discard of (enc, _) \<Rightarrow> enc)"

section \<open>Decompressors\<close>

text \<open>A codec's reader over sources of type \<open>'s\<close>: constructors, bounded reads, \<^verbatim>\<open>Reset\<close> and \<^verbatim>\<open>Close\<close>.\<close>

record ('w, 'r, 's) codec =
  newReader :: "'s \<Rightarrow> ('w, err + 'r) io"
  rdRead :: "'r \<Rightarrow> nat \<Rightarrow> ('w, (string \<times> err option) \<times> 'r) io"
  rdReset :: "'r \<Rightarrow> 's \<Rightarrow> ('w, err option \<times> 'r) io"
  rdClose :: "'r \<Rightarrow> 'w \<Rightarrow> 'w"

type_synonym 'r decompressor_state = "'r option"


definition brotli_Read :: "('w, 'r, 's) codec \<Rightarrow> nat \<Rightarrow> 'r decompressor_state \<Rightarrow> ('w, (string \<times> err option) \<times> 'r decompressor_state) io" where
  "brotli_Read c n d w =
     (case d of
        None \<Rightarrow> ((([], Some (ESentinel IoEOF)), None), w)
      | Some r \<Rightarrow>
          (case rdRead c r n w of
             (((bs, None), r'), w') \<Rightarrow> (((bs, None), Some r'), w')
           | (((bs, Some e), r'), w') \<Rightarrow>
               if errors_is e IoEOF then (((bs, Some (ESentinel IoEOF)), Some r'), w')
               else (((bs, Some (EWrap ''compression: brotli read'' e)), Some r'), w')))"


definition brotli_Close :: "'r decompressor_state \<Rightarrow> ('w, err option \<times> 'r decompressor_state) io" where
  "brotli_Close d w = ((None, None), w)"

definition zstd_Read :: "('w, 'r, 's) codec \<Rightarrow> nat \<Rightarrow> 'r decompressor_state \<Rightarrow> ('w, (string \<times> err option) \<times> 'r decompressor_state) io" where
  "zstd_Read c n d w =
     (case d of
        None \<Rightarrow> ((([], Some (ESentinel IoEOF)), None), w)
      | Some r \<Rightarrow>
          (case rdRead c r n w of
             (((bs, None), r'), w') \<Rightarrow> (((bs, None), Some r'), w')
           | (((bs, Some e), r'), w') \<Rightarrow>
               if errors_is e IoEOF then (((bs, Some (ESentinel IoEOF)), Some r'), w')
               else (((bs, Some (EWrap ''compression: zstd read'' e)), Some r'), w')))"


definition zstd_Close :: "('w, 'r, 's) codec \<Rightarrow> 'r decompressor_state \<Rightarrow> ('w, err option \<times> 'r decompressor_state) io" where
  "zstd_Close c d w =
     (case d of
        None \<Rightarrow> ((None, None), w)
      | Some r \<Rightarrow> ((None, None), rdClose c r w))"

section \<open>The contract of a decompressor\<close>

text \<open>\<^verbatim>\<open>io.ReadAll\<close>: append until an error; only the value \<^verbatim>\<open>io.EOF\<close> itself ends the data well.\<close>

partial_function (option) ReadAll ::
  "('d \<Rightarrow> ('w, (string \<times> err option) \<times> 'd) io) \<Rightarrow> string \<Rightarrow> 'd \<Rightarrow> 'w \<Rightarrow> ((string \<times> err option) \<times> 'd \<times> 'w) option" where
  "ReadAll rd b d w =
     (case rd d w of
        (((bs, None), d'), w') \<Rightarrow> ReadAll rd (b @ bs) d' w'
      | (((bs, Some e), d'), w') \<Rightarrow> Some ((b @ bs, if e = ESentinel IoEOF then None else Some e), d', w'))"

text \<open>What a codec's reader delivers before its error, whatever way that error wraps \<^verbatim>\<open>io.EOF\<close>.\<close>

inductive delivers :: "('w, 'r, 's) codec \<Rightarrow> nat \<Rightarrow> 'r \<Rightarrow> 'w \<Rightarrow> string \<Rightarrow> err \<Rightarrow> 'r \<Rightarrow> 'w \<Rightarrow> bool" for c n where
  delivers_last: "rdRead c r n w = (((bs, Some e), r'), w') \<Longrightarrow> delivers c n r w bs e r' w'"
| delivers_more: "rdRead c r n w = (((bs, None), r1), w1) \<Longrightarrow> delivers c n r1 w1 cs e r' w' \<Longrightarrow>
    delivers c n r w (bs @ cs) e r' w'"

locale decompressor =
  fixes read_op :: "nat \<Rightarrow> 'r option \<Rightarrow> ('w, (string \<times> err option) \<times> 'r option) io"
    and close_op :: "'r option \<Rightarrow> ('w, err option \<times> 'r option) io"
    and c :: "('w, 'r, 's) codec" and label :: string
  assumes read_closed: "read_op n None w = ((([], Some (ESentinel IoEOF)), None), w)"
    and read_ok: "rdRead c r n w = (((bs, None), r'), w') \<Longrightarrow> read_op n (Some r) w = (((bs, None), Some r'), w')"
    and read_err: "rdRead c r n w = (((bs, Some e), r'), w') \<Longrightarrow>
      read_op n (Some r) w = (((bs, Some (if errors_is e IoEOF then ESentinel IoEOF else EWrap label e)), Some r'), w')"
    and close_closed: "\<exists>w'. close_op d w = ((None, None), w')"
begin

text \<open>Reading everything through the wrapper yields what the codec delivers; its end is clean
  exactly when the codec's error is an end of file.\<close>

lemma ReadAll_delivers:
  assumes "delivers c n r w bs e r' w'"
  shows "ReadAll (read_op n) b (Some r) w = Some ((b @ bs, if errors_is e IoEOF then None else Some (EWrap label e)), Some r', w')"
  using assms
proof (induction arbitrary: b rule: delivers.induct)
  case (delivers_last r w bs e r' w')
  then show ?case using read_err by (subst ReadAll.simps) simp
next
  case (delivers_more r w bs r1 w1 cs e r' w')
  then show ?case using read_ok by (subst ReadAll.simps) simp
qed

lemma ReadAll_closed: "ReadAll (read_op n) [] None w = Some (([], None), None, w)"
  by (subst ReadAll.simps) (simp add: read_closed)

lemma ReadAll_after_close:
  "\<exists>w'. close_op d w = ((None, None), w') \<and> ReadAll (read_op n) [] None w' = Some (([], None), None, w')"
  using close_closed ReadAll_closed by blast

end

interpretation brotli: decompressor "brotli_Read c" brotli_Close c "''compression: brotli read''" for c
  by unfold_locales (auto simp: brotli_Read_def brotli_Close_def)

interpretation zstd: decompressor "zstd_Read c" "zstd_Close c" c "''compression: zstd read''" for c
  by unfold_locales (auto simp: zstd_Read_def zstd_Close_def split: option.splits)

section \<open>Properties\<close>


text \<open>The algorithm a client sends with is one every handler built with these options accepts,
  and both sides register the same algorithms under the same names.\<close>

lemma compression_negotiable:
  "(\<forall>nm. WithSendCompression nm \<in> set ClientOptions \<longrightarrow> (\<exists>a. WithCompression nm a \<in> set HandlerOptions)) \<and>
   (\<forall>nm a. WithAcceptCompression nm a \<in> set ClientOptions \<longleftrightarrow> WithCompression nm a \<in> set HandlerOptions)"
  by (auto simp: ClientOptions_def HandlerOptions_def)



end
