(* ===== verification/Tools.thy ===== *)
theory Tools
  imports Errors Encoding "HOL-Library.Sublist"
begin

text \<open>
  The two maintenance tools of the repository: the dependency guard
  \<^verbatim>\<open>src/tools/check-l2-deps/main.go\<close> and the workspace runner
  \<^verbatim>\<open>src/tools/workspace-run/main.go\<close>. The subprocesses (\<^verbatim>\<open>go mod edit -json\<close>, \<^verbatim>\<open>go work edit -json\<close>
  and the command run in a module), their JSON output and the file system are parameters; an exit
  code and the lines written stand for the process's outcome. Files are ASCII.
\<close>

section \<open>Dependency guard\<close>

definition exitOK :: int where "exitOK = 0"
definition exitForbidden :: int where "exitForbidden = 1"
definition exitUsageError :: int where "exitUsageError = 2"















section \<open>Workspace runner\<close>

definition exitFailed :: int where "exitFailed = 1"

lemmas exit_codes = exitOK_def exitForbidden_def exitUsageError_def exitFailed_def

record use_entry =
  DiskPath :: string

record workFile =
  Use :: "use_entry list"

text \<open>\<^verbatim>\<open>go work edit -json\<close>: the disk paths of its \<^verbatim>\<open>use\<close> directives decoded.\<close>

definition readModules :: "(string \<Rightarrow> err + string) \<Rightarrow> (string \<Rightarrow> err + workFile) \<Rightarrow> string \<Rightarrow> err + string list" where
  "readModules goWorkEdit unmarshal workPath =
     (case goWorkEdit workPath of
        Inl e \<Rightarrow> Inl (EWrap (''go work edit -json '' @ workPath) e)
      | Inr out \<Rightarrow>
          (case unmarshal out of
             Inl e \<Rightarrow> Inl (EWrap ''parse go work edit output'' e)
           | Inr work \<Rightarrow> if Use work = [] then Inl (EText (workPath @ '' lists no modules'')) else Inr (map DiskPath (Use work))))"

definition tool_join :: "string list \<Rightarrow> string" where
  "tool_join parts = join_strings parts '' ''"

definition workspace_run ::
  "(string \<Rightarrow> string \<Rightarrow> string list \<Rightarrow> ('w, err option) io) \<Rightarrow> string \<Rightarrow> string \<Rightarrow> string list \<Rightarrow> ('w, err option) io" where
  "workspace_run exec dir command args w =
     (case exec dir command args w of
        (Some e, w') \<Rightarrow> (Some (EWrap (command @ '' '' @ tool_join args) e), w')
      | (None, w') \<Rightarrow> (None, w'))"

fun modules_loop ::
  "(string \<Rightarrow> string \<Rightarrow> string list \<Rightarrow> ('w, err option) io) \<Rightarrow> (string \<Rightarrow> string) \<Rightarrow> string \<Rightarrow> string list \<Rightarrow> string list \<Rightarrow> string list \<Rightarrow>
   ('w, string list) io" where
  "modules_loop exec dirOf command args [] failed w = (failed, w)"
| "modules_loop exec dirOf command args (rel # rels) failed w =
     (case workspace_run exec (dirOf rel) command args w of
        (Some e, w') \<Rightarrow> modules_loop exec dirOf command args rels (failed @ [rel]) w'
      | (None, w') \<Rightarrow> modules_loop exec dirOf command args rels failed w')"

text \<open>\<^verbatim>\<open>main\<close> after flag parsing: the exit code and the modules reported as failed; \<open>dirOf\<close> joins
  the workspace's directory and a module's relative path.\<close>

definition workspace_main ::
  "(string \<Rightarrow> string \<Rightarrow> string list \<Rightarrow> ('w, err option) io) \<Rightarrow> (string \<Rightarrow> err + string) \<Rightarrow> (string \<Rightarrow> err + workFile) \<Rightarrow>
   (string \<Rightarrow> string \<Rightarrow> string) \<Rightarrow> string \<Rightarrow> string \<Rightarrow> string list \<Rightarrow> ('w, int \<times> string list) io" where
  "workspace_main exec goWorkEdit unmarshal dirOf workPath command args w =
     (if args = [] then ((exitUsageError, []), w)
      else
        (case readModules goWorkEdit unmarshal workPath of
           Inl e \<Rightarrow> ((exitUsageError, []), w)
         | Inr modules \<Rightarrow>
             (case modules_loop exec (dirOf workPath) command args modules [] w of
                (failed, w') \<Rightarrow> (if failed \<noteq> [] then (exitFailed, failed) else (exitOK, []), w'))))"

section \<open>Properties\<close>







text \<open>The runs of the command, in order: the directory and the error, if any.\<close>

definition logged_exec ::
  "(string \<Rightarrow> string \<Rightarrow> string list \<Rightarrow> ('w, err option) io) \<Rightarrow> string \<Rightarrow> string \<Rightarrow> string list \<Rightarrow> ((string \<times> err option) list \<times> 'w, err option) io" where
  "logged_exec exec dir command args = (\<lambda>(tr, w). case exec dir command args w of (e, w') \<Rightarrow> (e, tr @ [(dir, e)], w'))"

lemma modules_loop_runs:
  "modules_loop (logged_exec exec) dirOf command args rels failed (tr, w) = (failed', tr', w') \<Longrightarrow>
   \<exists>runs. tr' = tr @ runs \<and> map fst runs = map dirOf rels \<and>
     failed' = failed @ map fst (filter (\<lambda>(rel, run). snd run \<noteq> None) (zip rels runs))"
proof (induction rels arbitrary: failed tr w)
  case (Cons rel rels)
  obtain e w1 where e: "exec (dirOf rel) command args w = (e, w1)" by (metis surj_pair)
  then have le: "logged_exec exec (dirOf rel) command args (tr, w) = (e, tr @ [(dirOf rel, e)], w1)" by (simp add: logged_exec_def)
  let ?f = "if e = None then failed else failed @ [rel]"
  have "modules_loop (logged_exec exec) dirOf command args rels ?f (tr @ [(dirOf rel, e)], w1) = (failed', tr', w')"
    using Cons.prems le by (cases e) (simp_all add: workspace_run_def)
  from Cons.IH [OF this] obtain runs where r: "tr' = (tr @ [(dirOf rel, e)]) @ runs" "map fst runs = map dirOf rels"
    "failed' = ?f @ map fst (filter (\<lambda>(rel, run). snd run \<noteq> None) (zip rels runs))" by blast
  show ?case by (rule exI [of _ "(dirOf rel, e) # runs"]) (use r in auto)
qed simp

text \<open>
  The workspace runner leaves no module out: it runs the command once in every listed module, in
  the order of \<^verbatim>\<open>go.work\<close>, also after a failure; it exits 0 exactly when every run succeeded, and
  otherwise 1 with exactly the failed modules. Nothing is run without arguments or without a
  readable, non-empty module list, and then the exit code is 2.
\<close>

theorem workspace_covers_all_modules:
  assumes "workspace_main (logged_exec exec) goWorkEdit unmarshal dirOf workPath command args ([], w) = ((exit, failed), runs, w')"
  shows "case readModules goWorkEdit unmarshal workPath of
      Inr modules \<Rightarrow>
        if args = [] then exit = 2 \<and> runs = []
        else map fst runs = map (dirOf workPath) modules \<and> modules \<noteq> [] \<and>
          failed = map fst (filter (\<lambda>(rel, run). snd run \<noteq> None) (zip modules runs)) \<and>
          exit = (if \<forall>run \<in> set runs. snd run = None then 0 else 1)
    | Inl e \<Rightarrow> exit = 2 \<and> runs = []"
proof (cases "readModules goWorkEdit unmarshal workPath")
  case (Inl e)
  then show ?thesis using assms by (auto simp: workspace_main_def exit_codes split: if_splits)
next
  case (Inr modules)
  have ne: "modules \<noteq> []" using Inr by (auto simp: readModules_def split: sum.splits if_splits)
  show ?thesis
  proof (cases "args = []")
    case False
    obtain f tr w2 where l: "modules_loop (logged_exec exec) (dirOf workPath) command args modules [] ([], w) = (f, tr, w2)"
      by (metis surj_pair)
    from modules_loop_runs [OF l] have r: "map fst tr = map (dirOf workPath) modules"
      "f = map fst (filter (\<lambda>(rel, run). snd run \<noteq> None) (zip modules tr))" by auto
    have len: "length modules = length tr" using r(1) by (metis length_map)
    have "f = [] \<longleftrightarrow> (\<forall>run \<in> set tr. snd run = None)"
    proof -
      have "f = [] \<longleftrightarrow> (\<forall>x \<in> set (zip modules tr). snd (snd x) = None)" by (auto simp: r(2) filter_empty_conv)
      also have "\<dots> \<longleftrightarrow> (\<forall>run \<in> snd ` set (zip modules tr). snd run = None)" by simp
      also have "snd ` set (zip modules tr) = set tr" using len by (metis map_snd_zip set_map)
      finally show ?thesis .
    qed
    moreover have "runs = tr" "exit = (if f = [] then 0 else 1)" "failed = f"
      using assms Inr False l by (auto simp: workspace_main_def exit_codes split: if_splits)
    ultimately show ?thesis using Inr False r ne by simp
  qed (use assms Inr in \<open>auto simp: workspace_main_def exit_codes\<close>)
qed

section \<open>Concrete runs\<close>


theorem workspace_covers_all_modules_witness:
  "\<exists>failed runs. workspace_main (logged_exec (\<lambda>d c a w. (if d = ''a'' then Some (EText ''exit 1'') else None, Suc w))) (\<lambda>p. Inr []) (\<lambda>u. Inr \<lparr>Use = [\<lparr>DiskPath = ''a''\<rparr>, \<lparr>DiskPath = ''b''\<rparr>]\<rparr>)
     (\<lambda>r m. m) ''go.work'' ''go'' [''test''] ([], 0) = ((1, failed), runs, 2) \<and> map fst runs = [''a'', ''b''] \<and> failed = [''a'']"
proof -
  let ?exec = "\<lambda>d c a w. (if d = ''a'' then Some (EText ''exit 1'') else None, Suc w)"
  have run: "workspace_main (logged_exec ?exec) (\<lambda>p. Inr []) (\<lambda>u. Inr \<lparr>Use = [\<lparr>DiskPath = ''a''\<rparr>, \<lparr>DiskPath = ''b''\<rparr>]\<rparr>) (\<lambda>r m. m) ''go.work'' ''go'' [''test''] ([], 0) =
      ((1, [''a'']), [(''a'', Some (EText ''exit 1'')), (''b'', None)], 2)"
    by (simp add: workspace_main_def readModules_def workspace_run_def logged_exec_def exit_codes)
  from workspace_covers_all_modules [OF run] run show ?thesis by (simp add: readModules_def)
qed

end
