(* ===== verification/Spec2Isabelle.thy ===== *)
theory Spec2Isabelle
  imports Cache_Transport Hedge_Objects Pagination Streams Preset_Errors Ergo Transport Compression Tools
begin

text \<open>
  Verification of sdk-core-go, a kit of client-side building blocks for Connect RPC services:
  interceptors that wrap a unary call or a client stream, an HTTP cache, OAuth token sources,
  transport construction and helpers for composed and long-running operations.

  \<^bold>\<open>How the program is put together.\<close> An interceptor (\<^verbatim>\<open>connect.UnaryInterceptorFunc\<close>) takes the next
  function of the chain and returns another one. The packages under \<^verbatim>\<open>src/\<close> each provide one; the
  presets compose them into a stack. The request header is one mutable object that all of a
  call's attempts share, and breaker, cache and token sources are objects that all calls share
  under a mutex. In the model a Go function is a HOL function on an explicit state: what it may
  change (headers, the component's object, the rest of the world \<open>'w\<close>) is threaded through, a
  \<^verbatim>\<open>(T, error)\<close> result is a pair or a sum, and every early return is a branch. Code of third-party
  modules and of the environment (clock, random bytes, network, JSON and URL parsing, codecs,
  spans, files, subprocesses) is an argument of the definitions that use it; theorems name what they
  assume of it, and their witnesses instantiate it.

  \<^bold>\<open>Theories and sources.\<close>

  \<^item> Prelude: 64-bit integers with their wrap-around, durations and instants, strings, decimal and
    hexadecimal text, HTTP header maps, reachable states of a step relation.
  \<^item> Float64: IEEE doubles as rationals with round to nearest even; the conversions and products the
    delay computations use. An out-of-range conversion to \<^verbatim>\<open>int64\<close> is a parameter.
  \<^item> Errors (\<^verbatim>\<open>src/errors\<close>): error chains, \<^verbatim>\<open>errors.Is\<close> and \<^verbatim>\<open>errors.As\<close>, codes and details.
  \<^item> Rpc, Http: calls, contexts and streams; responses and bounded reads. The locale \<open>call_bound\<close> is
    the contract about how often an interceptor invokes the next function.
  \<^item> Breaker (\<^verbatim>\<open>src/breaker\<close>): the three-state breaker over a ring buffer, refined to a sliding
    window; all interleavings of concurrent calls as a step relation.
  \<^item> Retry (\<^verbatim>\<open>src/retry\<close>): delays, jitter and the retry loop.
  \<^item> Timeout (\<^verbatim>\<open>src/timeout\<close>), Idempotency (\<^verbatim>\<open>src/idempotency\<close>, with the UUIDv7 layout), Auth
    (\<^verbatim>\<open>src/auth\<close>, both interceptors and the OAuth2 source), Otel (\<^verbatim>\<open>src/otel\<close>), Logging (\<^verbatim>\<open>src/logging\<close>).
  \<^item> Race and Hedge (\<^verbatim>\<open>src/hedge\<close>, \<^verbatim>\<open>src/experimental/hedgev2\<close>): the race of attempts as a step
    relation over a shared locale that both versions interpret. Hedge\_Objects: the call infos and
    messages the prototype's attempts own, in an explicit store shared by address.
  \<^item> Cache\_Memory and Cache\_Transport (\<^verbatim>\<open>src/caching\<close>): the LRU store refined to a recency list, and
    the caching round tripper with its background refreshes and single flights.
  \<^item> Pagination (\<^verbatim>\<open>src/pagination\<close>): sequential and parallel iteration.
  \<^item> Presets (\<^verbatim>\<open>src/presets\<close>): the stacks and what their composition guarantees; Streams: the
    streaming wrappers of every interceptor and the stacks on a client stream; Preset\_Errors: the
    stacks over a token source that is down.
  \<^item> Encoding, Oauth, Oauth\_Flow, Oauth\_Sources (\<^verbatim>\<open>src/oauth\<close>): base64 and form encoding with their
    decoders; the token endpoint, errors and PKCE; discovery and the authorization-code flow; the
    rotating token sources and brokers.
  \<^item> Ergo (\<^verbatim>\<open>src/ergo\<close>): context slots, composed operations, the poller of long-running operations.
  \<^item> Transport (\<^verbatim>\<open>src/transport\<close>): the pool builder and the client TLS configuration, PEM and PKCS\#12.
  \<^item> Compression (\<^verbatim>\<open>src/compression\<close>): registration, the compressor constructors and the two decompressors.
  \<^item> Tools (\<^verbatim>\<open>src/tools\<close>): the dependency guard and the workspace runner.

  \<^bold>\<open>What the theorems show.\<close>

  \<^item> Refinement: the breaker implements the sliding-window specification (C1), the memory cache the
    recency list (C5), a poller's run is one of the abstract poller's (C26).
  \<^item> State under every interleaving: the breaker stays well formed and never wedges (C2), the cache
    serves only a request's own exchange and stays within budget (C6, C8), a race launches at most
    the configured attempts and ends (C10, C11), attempts of the prototype share no object (C12),
    parallel pages come in order and completely (C14, C15).
  \<^item> Behaviour of one call: short circuit and recovery (C3, C4), retry attempts and delays (C32, C33),
    deadlines (C31), keys (C18), spans, redaction and typed attributes (C38 to C40).
  \<^item> Credentials: a rejected token is never sent again (C17, C19), tokens are fresh (C22 to
    C24), PKCE binds the two halves of the code flow (C20, C25), discovery trusts the issuer asked
    for (C21), TLS always verifies the server (C28).
  \<^item> Composition: the standalone stack's bound on network calls, its stable idempotency key and its
    equivalence with the mesh stack (C34 to C36); a stack without a credential fails closed and
    reports the source's error (C13), on streams too (C37); distinct keys for the legs of composed
    operations (C27).
  \<^item> Further theorems state where the code differs from its documentation: the breaker's trial budget,
    the cache key that ignores the query, read limits and expiry times that wrap, the backoff
    ceiling that overflows, silent truncation of parallel iteration, untyped OAuth errors, the
    context key no interceptor reads.

  \<^bold>\<open>Interfaces.\<close> Components meet through locales, each interpreted on the model: \<open>monotone_rounding\<close>
  (Float64), \<open>inductive_invariant\<close> (every step relation), \<open>call_bound\<close> (interceptors), \<open>race\<close> (both hedgers),
  \<open>rotating_source\<close> and \<open>fresh_source\<close> (what rotation needs of a token source), \<open>cached_source\<close> (the three
  caching OAuth sources), \<open>decompressor\<close> (both codecs), and those of the cache store.

  \<^bold>\<open>Bounds and fuel.\<close> No definition uses fuel. Loops that may run forever (\<^verbatim>\<open>Operation.Wait\<close>, the page
  loop, \<^verbatim>\<open>io.ReadAll\<close>) are partial functions in the option monad, and the theorems about them show
  that they return; the others are total by their termination proofs. Delay bounds hold up to
  \<open>2 ^ 53\<close> ns (104 days), where a double represents every duration; counters of calls, legs and
  bytes are 64-bit where the code keeps them in an \<^verbatim>\<open>int64\<close> that can wrap.

  \<^bold>\<open>Not modelled.\<close> \<^verbatim>\<open>src/clock\<close> only forwards to the time package: it is the clock and timer parameters.
  Flag parsing and the printed text of the tools have no definition, nor has the code of third-party
  modules: connect's header type and protobuf messages, codecs and OAuth2 tokens are parameters, and
  where a theorem needs a law of theirs it is a named hypothesis (\<open>header_laws\<close>, \<open>proto_laws\<close>). Data races
  on the shared request header between concurrent hedge attempts of \<^verbatim>\<open>src/hedge\<close> are outside the
  model: an attempt is atomic in its effect on the header.
\<close>

end
